(* ===== verification/Sui_Prelude.thy ===== *)
theory Sui_Prelude
  imports Main "HOL-Library.Word" "HOL-Library.Monad_Syntax"
begin

section \<open>Shared vocabulary of the development\<close>

text \<open>
  The conventions every component theory uses.

  \<^item> \<open>u64\<close>, \<open>u128\<close> and \<open>i64\<close> are machine words; \<open>+\<close>, \<open>-\<close> and \<open>*\<close> on them wrap, which is
    what Rust's operators do in the release profile of the workspace (\<open>src/Cargo.toml\<close> does
    not switch \<open>overflow-checks\<close> on).
  \<^item> A Rust function that may panic returns an \<^typ>\<open>'a option\<close>: \<^const>\<open>None\<close> is the panic,
    which aborts the process (\<open>panic = 'abort'\<close>).  Monadic sequencing of such functions is
    \<^const>\<open>Option.bind\<close>, written in do-notation.
  \<^item> \<open>Result<T, E>\<close> is the sum \<open>'e + 't\<close> with \<^const>\<open>Inl\<close> for \<open>Err\<close> and \<^const>\<open>Inr\<close> for \<open>Ok\<close>.
  \<^item> A method on \<open>&mut self\<close> takes the state and returns the new one next to its result,
    also when the result is an error.

  Modules under the attribute \<open>with_checked_arithmetic\<close> (in \<open>src/crates/sui-proc-macros\<close>)
  have every arithmetic operator replaced by its checked form followed by a panic on
  overflow; \<open>checked_add\<close> and its companions below are those forms.
\<close>

type_synonym u32 = "32 word"
type_synonym u64 = "64 word"
type_synonym u128 = "128 word"

named_theorems rust_arith \<open>checked machine arithmetic, read on natural numbers\<close>

abbreviation (input) panic :: "'a option" where
  "panic \<equiv> None"

definition rust_assert :: "bool \<Rightarrow> unit option" where
  "rust_assert b = (if b then Some () else panic)"

lemma rust_assert_Some [simp]: "rust_assert b = Some u \<longleftrightarrow> b"
  by (simp add: rust_assert_def)

lemma rust_assert_None [simp]: "rust_assert b = None \<longleftrightarrow> \<not> b"
  by (simp add: rust_assert_def)

subsection \<open>Results\<close>

text \<open>
  \<open>Result::and_then\<close>, which the operator \<open>?\<close> amounts to, for functions that cannot panic and for
  functions that can; \<open>fp_ensure!\<close> of \<open>src/crates/sui-types/src/error.rs\<close>.
\<close>

definition result_then :: "'e + 'a \<Rightarrow> ('a \<Rightarrow> 'e + 'b) \<Rightarrow> 'e + 'b" where
  "result_then r f = (case r of Inl e \<Rightarrow> Inl e | Inr x \<Rightarrow> f x)"

definition try_then :: "('e + 'a) option \<Rightarrow> ('a \<Rightarrow> ('e + 'b) option) \<Rightarrow> ('e + 'b) option" where
  "try_then m f = Option.bind m (\<lambda>r. case r of Inl e \<Rightarrow> Some (Inl e) | Inr x \<Rightarrow> f x)"

definition fp_ensure :: "bool \<Rightarrow> 'e \<Rightarrow> 'e + unit" where
  "fp_ensure b e = (if b then Inr () else Inl e)"

lemma result_then_simps [simp]: "result_then (Inl e) f = Inl e" "result_then (Inr x) f = f x"
  by (simp_all add: result_then_def)

lemma result_then_Inr [simp]: "result_then r f = Inr y \<longleftrightarrow> (\<exists>x. r = Inr x \<and> f x = Inr y)"
  by (cases r) simp_all

lemma try_then_simps [simp]:
  "try_then None f = None" "try_then (Some (Inl e)) f = Some (Inl e)" "try_then (Some (Inr x)) f = f x"
  by (simp_all add: try_then_def)

lemma try_then_Inr [simp]:
  "try_then m f = Some (Inr y) \<longleftrightarrow> (\<exists>x. m = Some (Inr x) \<and> f x = Some (Inr y))"
proof (cases m)
  case (Some r)
  then show ?thesis by (cases r) simp_all
qed simp

lemma fp_ensure_Inr [simp]: "fp_ensure b e = Inr u \<longleftrightarrow> b"
  by (simp add: fp_ensure_def)

lemma fp_ensure_simps [simp]: "fp_ensure True e = Inr ()" "fp_ensure False e = Inl e"
  by (simp_all add: fp_ensure_def)

text \<open>A check over every element in order that stops at the first error: a \<open>for\<close> loop with \<open>?\<close>.\<close>

fun for_each :: "('a \<Rightarrow> 'e + unit) \<Rightarrow> 'a list \<Rightarrow> 'e + unit" where
  "for_each f [] = Inr ()"
| "for_each f (x # xs) = result_then (f x) (\<lambda>_. for_each f xs)"

lemma for_each_Inr [simp]: "for_each f xs = Inr () \<longleftrightarrow> (\<forall>x \<in> set xs. f x = Inr ())"
  by (induction xs) auto

subsection \<open>Checked arithmetic\<close>

definition checked_add :: "'a::len word \<Rightarrow> 'a word \<Rightarrow> 'a word option" where
  "checked_add a b = (if unat a + unat b < 2 ^ LENGTH('a) then Some (a + b) else None)"

definition checked_sub :: "'a::len word \<Rightarrow> 'a word \<Rightarrow> 'a word option" where
  "checked_sub a b = (if b \<le> a then Some (a - b) else None)"

definition checked_mul :: "'a::len word \<Rightarrow> 'a word \<Rightarrow> 'a word option" where
  "checked_mul a b = (if unat a * unat b < 2 ^ LENGTH('a) then Some (a * b) else None)"

definition checked_div :: "'a::len word \<Rightarrow> 'a word \<Rightarrow> 'a word option" where
  "checked_div a b = (if b = 0 then None else Some (a div b))"

definition checked_rem :: "'a::len word \<Rightarrow> 'a word \<Rightarrow> 'a word option" where
  "checked_rem a b = (if b = 0 then None else Some (a mod b))"

definition saturating_add :: "'a::len word \<Rightarrow> 'a word \<Rightarrow> 'a word" where
  "saturating_add a b = (case checked_add a b of Some c \<Rightarrow> c | None \<Rightarrow> - 1)"

definition saturating_sub :: "'a::len word \<Rightarrow> 'a word \<Rightarrow> 'a word" where
  "saturating_sub a b = (case checked_sub a b of Some c \<Rightarrow> c | None \<Rightarrow> 0)"

text \<open>
  Each checked operation succeeds exactly when the exact result fits, and then returns it.
  Stated as equivalences on \<^const>\<open>unat\<close> these turn every proof about checked code into linear
  arithmetic on natural numbers.
\<close>

lemma unat_less_pow: "unat (a :: 'a::len word) < 2 ^ LENGTH('a)"
  by (rule unsigned_less)

lemma checked_add_eq_Some [rust_arith]:
  "checked_add a b = Some c \<longleftrightarrow> unat c = unat a + unat b"
proof
  assume "checked_add a b = Some c"
  then show "unat c = unat a + unat b"
    by (auto simp: checked_add_def unat_word_ariths split: if_splits)
next
  assume c: "unat c = unat a + unat b"
  then have fits: "unat a + unat b < 2 ^ LENGTH('a)"
    using unat_less_pow [of c] by simp
  have "c = a + b"
    using c fits by (intro word_unat_eq_iff [THEN iffD2]) (simp add: unat_word_ariths)
  with fits show "checked_add a b = Some c"
    by (simp add: checked_add_def)
qed

lemma checked_sub_eq_Some [rust_arith]:
  "checked_sub a b = Some c \<longleftrightarrow> unat a = unat b + unat c"
proof
  assume "checked_sub a b = Some c"
  then have "b \<le> a" and "c = a - b"
    by (auto simp: checked_sub_def split: if_splits)
  then show "unat a = unat b + unat c"
    by (simp add: unat_sub word_le_nat_alt)
next
  assume a: "unat a = unat b + unat c"
  then have le: "b \<le> a"
    by (simp add: word_le_nat_alt)
  then have "unat (a - b) = unat c"
    using a by (simp add: unat_sub)
  then have "c = a - b"
    by (simp add: word_unat_eq_iff)
  with le show "checked_sub a b = Some c"
    by (simp add: checked_sub_def)
qed

lemma checked_mul_eq_Some [rust_arith]:
  "checked_mul a b = Some c \<longleftrightarrow> unat c = unat a * unat b"
proof
  assume "checked_mul a b = Some c"
  then show "unat c = unat a * unat b"
    by (auto simp: checked_mul_def unat_word_ariths split: if_splits)
next
  assume c: "unat c = unat a * unat b"
  then have fits: "unat a * unat b < 2 ^ LENGTH('a)"
    using unat_less_pow [of c] by simp
  have "c = a * b"
    using c fits by (intro word_unat_eq_iff [THEN iffD2]) (simp add: unat_word_ariths)
  with fits show "checked_mul a b = Some c"
    by (simp add: checked_mul_def)
qed

lemma checked_div_eq_Some [rust_arith]:
  "checked_div a b = Some c \<longleftrightarrow> unat b \<noteq> 0 \<and> unat c = unat a div unat b"
  by (auto simp: checked_div_def unat_div word_unat_eq_iff)

lemma checked_rem_eq_Some [rust_arith]:
  "checked_rem a b = Some c \<longleftrightarrow> unat b \<noteq> 0 \<and> unat c = unat a mod unat b"
  by (auto simp: checked_rem_def unat_mod word_unat_eq_iff)

lemma checked_add_eq_None [rust_arith]:
  "checked_add (a :: 'a::len word) b = None \<longleftrightarrow> 2 ^ LENGTH('a) \<le> unat a + unat b"
  by (auto simp: checked_add_def)

lemma checked_sub_eq_None [rust_arith]: "checked_sub a b = None \<longleftrightarrow> unat a < unat b"
  by (auto simp: checked_sub_def word_le_nat_alt)

lemma checked_mul_eq_None [rust_arith]:
  "checked_mul (a :: 'a::len word) b = None \<longleftrightarrow> 2 ^ LENGTH('a) \<le> unat a * unat b"
  by (auto simp: checked_mul_def)

lemma unat_saturating_sub [rust_arith]: "unat (saturating_sub a b) = unat a - unat b"
  by (auto simp: saturating_sub_def checked_sub_eq_Some checked_sub_eq_None split: option.split)

lemma unat_saturating_add [rust_arith]:
  "unat (saturating_add (a :: 'a::len word) b) = min (unat a + unat b) (2 ^ LENGTH('a) - 1)"
proof (cases "checked_add a b")
  case None
  moreover from None have "2 ^ LENGTH('a) \<le> unat a + unat b"
    by (simp add: checked_add_eq_None)
  ultimately show ?thesis
    by (simp add: saturating_add_def unsigned_minus_1_eq_mask mask_eq_exp_minus_1)
next
  case (Some c)
  then have c: "unat c = unat a + unat b"
    by (simp add: checked_add_eq_Some)
  have "unat c < 2 ^ LENGTH('a)"
    by (rule unat_less_pow)
  with Some c show ?thesis
    by (simp add: saturating_add_def)
qed

text \<open>
  Code equations that stay in word arithmetic, so that concrete inputs are evaluated without
  unfolding \<open>2 ^ 64\<close> in unary.
\<close>

lemma checked_add_code [code]:
  "checked_add a b = (let c = a + b in if c < a then None else Some c)"
proof (cases "checked_add a b")
  case None
  then have "2 ^ LENGTH('a) \<le> unat a + unat b"
    by (simp add: checked_add_eq_None)
  moreover have "unat a + unat b - 2 ^ LENGTH('a) < unat a" "unat a < 2 ^ LENGTH('a)"
    using unat_less_pow [of a] unat_less_pow [of b] calculation by linarith+
  ultimately have "(unat a + unat b) mod 2 ^ LENGTH('a) < unat a"
    by (simp only: le_mod_geq mod_less)
  then have "unat (a + b) < unat a"
    by (simp only: unat_word_ariths)
  with None show ?thesis by (simp add: Let_def word_less_nat_alt)
next
  case (Some c)
  then have "c = a + b" by (simp add: checked_add_def split: if_splits)
  moreover from Some have "unat c = unat a + unat b" by (simp add: checked_add_eq_Some)
  ultimately show ?thesis using Some by (simp add: Let_def word_less_nat_alt)
qed

lemma checked_mul_code [code]:
  "checked_mul a b = (let c = a * b in if a = 0 \<or> c div a = b then Some c else None)"
proof (cases "checked_mul a b")
  case None
  then have over: "2 ^ LENGTH('a) \<le> unat a * unat b"
    by (simp add: checked_mul_eq_None)
  then have "a \<noteq> 0" by auto
  moreover have "(a * b) div a \<noteq> b"
  proof
    assume "(a * b) div a = b"
    then have "unat b = unat (a * b) div unat a" by (metis unat_div)
    then have "unat a * unat b \<le> unat (a * b)" by simp
    with over unat_less_pow [of "a * b"] show False by linarith
  qed
  ultimately show ?thesis using None by (simp add: Let_def)
next
  case (Some c)
  then have c: "c = a * b" by (simp add: checked_mul_def split: if_splits)
  from Some have "unat c = unat a * unat b" by (simp add: checked_mul_eq_Some)
  then have "a = 0 \<or> c div a = b"
    by (auto simp: word_unat_eq_iff [of "c div a"] unat_div unat_eq_zero)
  with Some c show ?thesis by (simp add: Let_def)
qed

lemma unat_u64_less: "unat (a :: u64) < 2 ^ 64"
  using unat_less_pow [of a] by simp

subsection \<open>Sums of machine words\<close>

text \<open>
  \<open>Iterator::sum\<close> on \<open>u64\<close> adds with \<open>+\<close>, hence wraps in release builds; the exact sum is
  recovered when it fits.
\<close>

lemma unat_sum_list_mod:
  "unat (sum_list (xs :: 'a::len word list)) = sum_list (map unat xs) mod 2 ^ LENGTH('a)"
proof (induction xs)
  case Nil
  then show ?case by simp
next
  case (Cons x xs)
  then show ?case
    by (simp add: unat_word_ariths mod_simps)
qed

lemma unat_sum_list_exact:
  assumes "sum_list (map unat (xs :: 'a::len word list)) < 2 ^ LENGTH('a)"
  shows "unat (sum_list xs) = sum_list (map unat xs)"
  using assms by (simp add: unat_sum_list_mod)

subsection \<open>Lists\<close>

lemma sum_list_map_filter_split:
  "sum_list (map f xs) =
     sum_list (map f (filter P xs)) + sum_list (map f (filter (\<lambda>x. \<not> P x) xs))"
  for f :: "'a \<Rightarrow> nat"
  by (induction xs) auto

lemma sum_list_filter_le: "sum_list (map f (filter P xs)) \<le> sum_list (map f xs)"
  for f :: "'a \<Rightarrow> nat"
  by (induction xs) auto

lemma sum_list_member_le: "x \<in> set xs \<Longrightarrow> f x \<le> sum_list (map f xs)"
  for f :: "'a \<Rightarrow> nat"
  by (induction xs) auto

lemma distinct_sum_list_set:
  "distinct xs \<Longrightarrow> sum_list (map f xs) = sum f (set xs)"
  for f :: "'a \<Rightarrow> nat"
  by (simp add: sum_list_distinct_conv_sum_set)

end
