(* ===== verification/Rust_Collections.thy ===== *)
theory Rust_Collections
  imports Sui_Prelude "HOL-Library.AList"
begin

section \<open>The standard collections the sources use\<close>

text \<open>
  A \<open>BTreeMap<K, V>\<close> is the list of its entries in key order, without repeated keys
  (\<open>btree_inv\<close>); a \<open>HashMap<K, V>\<close> is an association list without repeated keys, whose order
  stands for the unspecified iteration order.  Both satisfy the interface \<open>keyed_store\<close>: what a
  lookup returns after an insert, and that collecting a list of pairs keeps the last value of
  each key.  The theory also holds \<open>slice::binary_search_by_key\<close> and the bitmaps used to
  record signer sets (\<open>RoaringBitmap\<close>: a set of integers iterated in ascending order).
\<close>

type_synonym ('k, 'v) btree_map = "('k \<times> 'v) list"
type_synonym ('k, 'v) hash_map = "('k \<times> 'v) list"
type_synonym 'a bitmap = "'a list"

subsection \<open>The interface of a keyed store\<close>

locale keyed_store =
  fixes kempty :: "'m"
    and kinsert :: "'k \<Rightarrow> 'v \<Rightarrow> 'm \<Rightarrow> 'm"
    and klookup :: "'m \<Rightarrow> 'k \<Rightarrow> 'v option"
    and kinv :: "'m \<Rightarrow> bool"
  assumes lookup_empty: "klookup kempty k = None"
    and lookup_insert: "kinv m \<Longrightarrow> klookup (kinsert k v m) = (klookup m)(k \<mapsto> v)"
    and inv_empty: "kinv kempty"
    and inv_insert: "kinv m \<Longrightarrow> kinv (kinsert k v m)"
begin

lemma fold_insert:
  assumes "kinv m"
  shows "kinv (fold (\<lambda>(k, v). kinsert k v) kvs m) \<and>
    klookup (fold (\<lambda>(k, v). kinsert k v) kvs m) = klookup m ++ map_of (rev kvs)"
  using assms
proof (induction kvs arbitrary: m)
  case Nil
  then show ?case by simp
next
  case (Cons kv kvs)
  obtain k v where kv: "kv = (k, v)" by (cases kv)
  from Cons.prems have "kinv (kinsert k v m)" by (rule inv_insert)
  note IH = Cons.IH [OF this]
  have "(klookup m)(k \<mapsto> v) ++ map_of (rev kvs) = klookup m ++ map_of (rev (kv # kvs))"
    by (simp add: kv map_add_assoc)
  with IH show ?case
    by (simp only: kv fold_simps prod.case lookup_insert [OF Cons.prems])
qed

lemma lookup_collect:
  "klookup (fold (\<lambda>(k, v). kinsert k v) kvs kempty) = map_of (rev kvs)"
proof -
  have "klookup kempty = Map.empty"
    by (simp add: fun_eq_iff lookup_empty)
  then show ?thesis
    using fold_insert [OF inv_empty] by simp
qed

lemma inv_collect: "kinv (fold (\<lambda>(k, v). kinsert k v) kvs kempty)"
  using fold_insert [OF inv_empty] by simp

end

subsection \<open>Sorted maps\<close>

definition btree_inv :: "('k::linorder, 'v) btree_map \<Rightarrow> bool" where
  "btree_inv m \<longleftrightarrow> sorted_wrt (<) (map fst m)"

fun btree_insert :: "'k::linorder \<Rightarrow> 'v \<Rightarrow> ('k, 'v) btree_map \<Rightarrow> ('k, 'v) btree_map" where
  "btree_insert k v [] = [(k, v)]"
| "btree_insert k v ((k', v') # m) =
     (if k < k' then (k, v) # (k', v') # m
      else if k = k' then (k, v) # m
      else (k', v') # btree_insert k v m)"

definition btree_collect :: "('k::linorder \<times> 'v) list \<Rightarrow> ('k, 'v) btree_map" where
  "btree_collect kvs = fold (\<lambda>(k, v). btree_insert k v) kvs []"

text \<open>\<open>range(..k).next_back()\<close> and \<open>range((Excluded(k), Unbounded)).next()\<close>.\<close>

definition btree_last_below :: "'k::linorder \<Rightarrow> ('k, 'v) btree_map \<Rightarrow> ('k \<times> 'v) option" where
  "btree_last_below k m =
     (case rev (takeWhile (\<lambda>e. fst e < k) m) of [] \<Rightarrow> None | e # _ \<Rightarrow> Some e)"

definition btree_first_above :: "'k::linorder \<Rightarrow> ('k, 'v) btree_map \<Rightarrow> ('k \<times> 'v) option" where
  "btree_first_above k m =
     (case dropWhile (\<lambda>e. fst e \<le> k) m of [] \<Rightarrow> None | e # _ \<Rightarrow> Some e)"

lemma fst_set_btree_insert [simp]:
  "fst ` set (btree_insert k v m) = insert k (fst ` set m)"
  by (induction k v m rule: btree_insert.induct) auto

lemma btree_inv_Cons:
  "btree_inv ((k, v) # m) \<longleftrightarrow> (\<forall>k' \<in> fst ` set m. k < k') \<and> btree_inv m"
  by (simp add: btree_inv_def)

lemma btree_inv_Nil [simp]: "btree_inv []"
  by (simp add: btree_inv_def)

lemma btree_inv_distinct: "btree_inv m \<Longrightarrow> distinct (map fst m)"
  by (simp add: btree_inv_def strict_sorted_iff)

lemma btree_inv_sorted: "btree_inv m \<Longrightarrow> sorted (map fst m)"
  by (simp add: btree_inv_def strict_sorted_iff)

lemma btree_inv_insert [simp]: "btree_inv m \<Longrightarrow> btree_inv (btree_insert k v m)"
  by (induction k v m rule: btree_insert.induct) (auto simp: btree_inv_Cons)

lemma map_of_btree_insert [simp]:
  "map_of (btree_insert k v m) = (map_of m)(k \<mapsto> v)" if "btree_inv m"
  using that
proof (induction k v m rule: btree_insert.induct)
  case (2 k v k' v' m)
  then show ?case
    by (auto simp: btree_inv_Cons fun_eq_iff)
qed simp

interpretation btree: keyed_store "[]" btree_insert map_of "btree_inv"
  by unfold_locales auto

lemma btree_collect_lookup: "map_of (btree_collect kvs) = map_of (rev kvs)"
  unfolding btree_collect_def by (rule btree.lookup_collect)

lemma btree_collect_inv [simp]: "btree_inv (btree_collect kvs)"
  unfolding btree_collect_def by (rule btree.inv_collect)

lemma btree_inv_filter: "btree_inv m \<Longrightarrow> btree_inv (filter P m)"
  by (induction m) (auto simp: btree_inv_Cons)

lemma map_of_filter_key:
  "map_of (filter (\<lambda>e. P (fst e)) m) k = (if P k then map_of m k else None)"
  by (induction m) auto

lemma btree_last_below_Some:
  assumes "btree_inv m" and "btree_last_below k m = Some (j, v)"
  shows "map_of m j = Some v \<and> j < k \<and> (\<forall>i \<in> fst ` set m. i < k \<longrightarrow> i \<le> j)"
  using assms
proof (induction m)
  case Nil
  then show ?case by (simp add: btree_last_below_def)
next
  case (Cons e m)
  obtain k0 v0 where e: "e = (k0, v0)" by (cases e)
  show ?case
  proof (cases "k0 < k")
    case False
    then show ?thesis using Cons.prems by (simp add: e btree_last_below_def)
  next
    case True
    show ?thesis
    proof (cases "rev (takeWhile (\<lambda>e. fst e < k) m)")
      case Nil
      then have none: "takeWhile (\<lambda>e. fst e < k) m = []" by simp
      have "i \<le> k0" if "i \<in> fst ` set m" and "i < k" for i
      proof (cases m)
        case Nil
        with that show ?thesis by simp
      next
        case (Cons f m')
        with none have "\<not> fst f < k" by (auto split: if_splits)
        moreover have "fst f \<le> i"
          using that(1) Cons.prems(1) \<open>m = f # m'\<close>
          by (cases f) (auto simp: e btree_inv_Cons)
        ultimately show ?thesis using that(2) by (simp add: not_less)
      qed
      with Nil True Cons.prems show ?thesis
        by (auto simp: e btree_last_below_def)
    next
      case (Cons f fs)
      then have "btree_last_below k m = Some (j, v)"
        using Cons.prems(2) True by (simp add: e btree_last_below_def)
      moreover from Cons.prems(1) have inv: "btree_inv m"
        by (simp add: e btree_inv_Cons)
      ultimately have IH: "map_of m j = Some v \<and> j < k \<and> (\<forall>i \<in> fst ` set m. i < k \<longrightarrow> i \<le> j)"
        using Cons.IH by blast
      then have "j \<in> fst ` set m"
        by (metis domI dom_map_of_conv_image_fst)
      then have "k0 < j"
        using Cons.prems(1) by (auto simp: e btree_inv_Cons)
      with IH show ?thesis by (auto simp: e)
    qed
  qed
qed

lemma btree_last_below_None:
  assumes "btree_inv m" and "btree_last_below k m = None"
  shows "\<forall>i \<in> fst ` set m. k \<le> i"
proof (cases m)
  case Nil
  then show ?thesis by simp
next
  case (Cons e m')
  with assms(2) have "\<not> fst e < k"
    by (auto simp: btree_last_below_def split: list.splits if_splits)
  with assms(1) Cons show ?thesis
    by (cases e) (auto simp: btree_inv_Cons)
qed

lemma btree_first_above_Some:
  assumes "btree_inv m" and "btree_first_above k m = Some (j, v)"
  shows "map_of m j = Some v \<and> k < j \<and> (\<forall>i \<in> fst ` set m. k < i \<longrightarrow> j \<le> i)"
  using assms
proof (induction m)
  case Nil
  then show ?case by (simp add: btree_first_above_def)
next
  case (Cons e m)
  obtain k0 v0 where e: "e = (k0, v0)" by (cases e)
  show ?case
  proof (cases "k0 \<le> k")
    case True
    then have "btree_first_above k m = Some (j, v)"
      using Cons.prems(2) by (simp add: e btree_first_above_def)
    moreover from Cons.prems(1) have "btree_inv m"
      by (simp add: e btree_inv_Cons)
    ultimately show ?thesis
      using Cons.IH True by (auto simp: e)
  next
    case False
    then show ?thesis
      using Cons.prems by (auto simp: e btree_first_above_def btree_inv_Cons)
  qed
qed

lemma btree_first_above_None:
  assumes "btree_inv m" and "btree_first_above k m = None"
  shows "\<forall>i \<in> fst ` set m. i \<le> k"
  using assms by (auto simp: btree_first_above_def dropWhile_eq_Nil_conv split: list.splits)

subsection \<open>Hash maps\<close>

definition hash_inv :: "('k, 'v) hash_map \<Rightarrow> bool" where
  "hash_inv m \<longleftrightarrow> distinct (map fst m)"

definition hash_collect :: "('k \<times> 'v) list \<Rightarrow> ('k, 'v) hash_map" where
  "hash_collect kvs = fold (\<lambda>(k, v). AList.update k v) kvs []"

interpretation hash: keyed_store "[]" AList.update map_of hash_inv
  by unfold_locales (auto simp: hash_inv_def update_conv' distinct_update)

lemma hash_collect_lookup: "map_of (hash_collect kvs) = map_of (rev kvs)"
  unfolding hash_collect_def by (rule hash.lookup_collect)

lemma hash_collect_inv: "hash_inv (hash_collect kvs)"
  unfolding hash_collect_def by (rule hash.inv_collect)

lemma map_of_rev_distinct: "distinct (map fst kvs) \<Longrightarrow> map_of (rev kvs) = map_of kvs"
  by (rule map_of_inject_set [THEN iffD2]) (auto simp: rev_map [symmetric])

lemma hash_update_fresh: "k \<notin> fst ` set m \<Longrightarrow> AList.update k v m = m @ [(k, v)]"
  by (induction m) auto

lemma hash_collect_distinct: "distinct (map fst kvs) \<Longrightarrow> hash_collect kvs = kvs"
proof -
  have "fold (\<lambda>(k, v). AList.update k v) kvs m = m @ kvs"
    if "distinct (map fst kvs)" and "fst ` set m \<inter> fst ` set kvs = {}" for m
    using that
  proof (induction kvs arbitrary: m)
    case Nil
    then show ?case by simp
  next
    case (Cons kv kvs)
    obtain k v where kv: "kv = (k, v)" by (cases kv)
    from Cons.prems have "AList.update k v m = m @ [(k, v)]"
      by (intro hash_update_fresh) (auto simp: kv)
    with Cons.IH [of "m @ [(k, v)]"] Cons.prems show ?case
      by (auto simp: kv)
  qed
  from this [of "[]"] show "distinct (map fst kvs) \<Longrightarrow> hash_collect kvs = kvs"
    by (simp add: hash_collect_def)
qed

subsection \<open>Binary search on a slice\<close>

text \<open>
  \<open>slice::binary_search_by_key\<close>: the interval \<open>left..right\<close> is halved until the key is found
  (\<open>Ok(index)\<close>, here \<^const>\<open>Some\<close>) or the interval is empty.
\<close>

function binary_search_loop :: "'k::linorder list \<Rightarrow> 'k \<Rightarrow> nat \<Rightarrow> nat \<Rightarrow> nat option" where
  "binary_search_loop ks k left right =
     (if left < right \<and> right \<le> length ks then
        (let mid = left + (right - left) div 2 in
         if ks ! mid < k then binary_search_loop ks k (Suc mid) right
         else if k < ks ! mid then binary_search_loop ks k left mid
         else Some mid)
      else None)"
  by pat_completeness auto
termination
  by (relation "measure (\<lambda>(ks, k, left, right). right - left)") auto

declare binary_search_loop.simps [simp del]

definition binary_search_by_key :: "'k::linorder \<Rightarrow> ('k \<times> 'v) list \<Rightarrow> nat option" where
  "binary_search_by_key k xs = binary_search_loop (map fst xs) k 0 (length xs)"

lemma binary_search_loop_Some:
  "binary_search_loop ks k left right = Some i \<Longrightarrow>
     left \<le> i \<and> i < right \<and> i < length ks \<and> ks ! i = k"
proof (induction ks k left right rule: binary_search_loop.induct)
  case (1 ks k left right)
  let ?mid = "left + (right - left) div 2"
  from "1.prems" have g: "left < right \<and> right \<le> length ks"
    by (subst (asm) binary_search_loop.simps) (simp split: if_splits)
  consider "ks ! ?mid < k" | "k < ks ! ?mid" | "ks ! ?mid = k"
    by (metis linorder_cases)
  then show ?case
  proof cases
    case 1
    with "1.prems" g have "binary_search_loop ks k (Suc ?mid) right = Some i"
      by (subst (asm) binary_search_loop.simps) (simp add: Let_def)
    from "1.IH" (1) [OF g refl 1 this] show ?thesis by auto
  next
    case 2
    then have not_less: "\<not> ks ! ?mid < k" by simp
    with "1.prems" g 2 have "binary_search_loop ks k left ?mid = Some i"
      by (subst (asm) binary_search_loop.simps) (simp add: Let_def)
    with not_less show ?thesis
      using "1.IH" (2) [OF g refl _ 2] g by auto
  next
    case 3
    with "1.prems" g have "i = ?mid"
      by (subst (asm) binary_search_loop.simps) (simp add: Let_def)
    with 3 g show ?thesis by auto
  qed
qed

lemma binary_search_loop_None:
  assumes "sorted ks"
  shows "binary_search_loop ks k left right = None \<Longrightarrow> right \<le> length ks \<Longrightarrow>
     \<forall>i. left \<le> i \<and> i < right \<longrightarrow> ks ! i \<noteq> k"
  using assms
proof (induction ks k left right rule: binary_search_loop.induct)
  case (1 ks k left right)
  let ?mid = "left + (right - left) div 2"
  show ?case
  proof (cases "left < right")
    case False
    then show ?thesis by auto
  next
    case True
    with "1.prems" have g: "left < right \<and> right \<le> length ks" by simp
    then have mid: "left \<le> ?mid" "?mid < right" "?mid < length ks" by auto
    have ne: "ks ! ?mid \<noteq> k"
      using "1.prems"(1) g
      by (subst (asm) binary_search_loop.simps) (auto simp: Let_def split: if_splits)
    show ?thesis
    proof (cases "ks ! ?mid < k")
      case lt: True
      then have "binary_search_loop ks k (Suc ?mid) right = None"
        using "1.prems"(1) g by (subst (asm) binary_search_loop.simps) (simp add: Let_def)
      from "1.IH"(1) [OF g refl lt this] g "1.prems"(3)
      have above: "\<forall>i. Suc ?mid \<le> i \<and> i < right \<longrightarrow> ks ! i \<noteq> k" by simp
      have "ks ! i \<noteq> k" if "i \<le> ?mid" for i
        using sorted_nth_mono [OF "1.prems"(3) that mid(3)] lt by auto
      with above show ?thesis by (metis not_less_eq_eq)
    next
      case False
      with ne have gt: "k < ks ! ?mid" by simp
      then have "binary_search_loop ks k left ?mid = None"
        using "1.prems"(1) g False by (subst (asm) binary_search_loop.simps) (simp add: Let_def)
      from "1.IH"(2) [OF g refl False gt this] mid "1.prems"(3)
      have below: "\<forall>i. left \<le> i \<and> i < ?mid \<longrightarrow> ks ! i \<noteq> k" by simp
      have "ks ! i \<noteq> k" if "?mid \<le> i" and "i < right" for i
      proof -
        have "i < length ks" using that g by simp
        from sorted_nth_mono [OF "1.prems"(3) that(1) this] gt show ?thesis by auto
      qed
      with below show ?thesis by (metis not_le)
    qed
  qed
qed

text \<open>On entries in strict key order the search is the lookup of the key.\<close>

lemma binary_search_by_key_lookup:
  assumes "btree_inv xs"
  shows "map_option (\<lambda>i. snd (xs ! i)) (binary_search_by_key k xs) = map_of xs k"
proof (cases "binary_search_by_key k xs")
  case None
  then have "\<forall>i < length xs. map fst xs ! i \<noteq> k"
    using binary_search_loop_None [OF btree_inv_sorted [OF assms], of k 0 "length xs"]
    by (simp add: binary_search_by_key_def)
  then have "k \<notin> set (map fst xs)"
    by (auto simp only: in_set_conv_nth length_map)
  with None show ?thesis
    using map_of_eq_None_iff [of xs k] by simp
next
  case (Some i)
  then have i: "i < length xs" "fst (xs ! i) = k"
    using binary_search_loop_Some [of "map fst xs" k 0 "length xs" i]
    by (auto simp: binary_search_by_key_def)
  then have "(k, snd (xs ! i)) \<in> set xs"
    by (metis nth_mem prod.collapse)
  then have "map_of xs k = Some (snd (xs ! i))"
    using btree_inv_distinct [OF assms] by (simp add: map_of_eq_Some_iff)
  with Some show ?thesis by simp
qed

lemma binary_search_by_key_None:
  assumes "btree_inv xs"
  shows "binary_search_by_key k xs = None \<longleftrightarrow> k \<notin> fst ` set xs"
  using binary_search_by_key_lookup [OF assms, of k] map_of_eq_None_iff [of xs k]
  by (cases "binary_search_by_key k xs") auto

subsection \<open>Bitmaps\<close>

definition bitmap_insert :: "'a::linorder \<Rightarrow> 'a bitmap \<Rightarrow> 'a bitmap" where
  "bitmap_insert x b = (if x \<in> set b then b else insort x b)"

definition bitmap_inv :: "'a::linorder bitmap \<Rightarrow> bool" where
  "bitmap_inv b \<longleftrightarrow> sorted b \<and> distinct b"

lemma set_bitmap_insert [simp]: "set (bitmap_insert x b) = insert x (set b)"
  by (auto simp: bitmap_insert_def set_insort_key)

lemma bitmap_inv_insert [simp]: "bitmap_inv b \<Longrightarrow> bitmap_inv (bitmap_insert x b)"
  by (auto simp: bitmap_inv_def bitmap_insert_def sorted_insort distinct_insort)

lemma bitmap_inv_Nil [simp]: "bitmap_inv []"
  by (simp add: bitmap_inv_def)

subsection \<open>Sorted sets and bulk insertion\<close>

text \<open>A \<open>BTreeSet\<close> is the ascending list of its elements; \<open>extend\<close> inserts one by one.\<close>

type_synonym 'a btree_set = "'a list"

definition set_extend :: "'a::linorder list \<Rightarrow> 'a btree_set \<Rightarrow> 'a btree_set" where
  "set_extend xs s = fold bitmap_insert xs s"

definition btree_extend ::
  "('k::linorder \<times> 'v) list \<Rightarrow> ('k, 'v) btree_map \<Rightarrow> ('k, 'v) btree_map" where
  "btree_extend kvs m = fold (\<lambda>(k, v). btree_insert k v) kvs m"

definition btree_set_of :: "'a::linorder list \<Rightarrow> 'a btree_set" where
  "btree_set_of xs = set_extend xs []"

lemma set_set_extend [simp]: "set (set_extend xs s) = set xs \<union> set s"
  unfolding set_extend_def by (induction xs arbitrary: s) auto

lemma bitmap_inv_extend [simp]: "bitmap_inv s \<Longrightarrow> bitmap_inv (set_extend xs s)"
  unfolding set_extend_def by (induction xs arbitrary: s) auto

lemma set_btree_set_of [simp]: "set (btree_set_of xs) = set xs"
  by (simp add: btree_set_of_def)

lemma bitmap_inv_set_of [simp]: "bitmap_inv (btree_set_of xs)"
  by (simp add: btree_set_of_def)

lemma bitmap_inv_distinct: "bitmap_inv s \<Longrightarrow> distinct s"
  by (simp add: bitmap_inv_def)

lemma btree_extend_inv [simp]: "btree_inv m \<Longrightarrow> btree_inv (btree_extend kvs m)"
  unfolding btree_extend_def using btree.fold_insert [of m kvs] by simp

lemma map_of_btree_extend: "btree_inv m \<Longrightarrow> map_of (btree_extend kvs m) = map_of m ++ map_of (rev kvs)"
  unfolding btree_extend_def using btree.fold_insert [of m kvs] by simp

lemma map_of_btree_eq: "btree_inv m \<Longrightarrow> map_of m k = Some v \<longleftrightarrow> (k, v) \<in> set m"
  using btree_inv_distinct [of m] by simp

text \<open>Updating every value of a map keeps its keys, and with them its order.\<close>

lemma btree_inv_map_snd: "map fst m' = map fst m \<Longrightarrow> btree_inv m' \<longleftrightarrow> btree_inv m"
  by (simp add: btree_inv_def)

lemma those_eq_Some: "those xs = Some ys \<longleftrightarrow> xs = map Some ys"
proof (induction xs arbitrary: ys)
  case (Cons x xs)
  show ?case
  proof (cases x)
    case (Some y)
    with Cons.IH show ?thesis by (cases ys) (auto split: option.splits)
  qed auto
qed auto

subsection \<open>Sums over the values of a map\<close>

lemma sum_list_values:
  fixes f :: "'v \<Rightarrow> 'b::comm_monoid_add"
  assumes "distinct (map fst m)"
  shows "sum_list (map (\<lambda>e. f (snd e)) (filter (\<lambda>e. P (fst e)) m)) =
    sum (\<lambda>k. case map_of m k of Some v \<Rightarrow> f v | None \<Rightarrow> 0) {k \<in> fst ` set m. P k}"
proof -
  let ?g = "\<lambda>k. case map_of m k of Some v \<Rightarrow> f v | None \<Rightarrow> 0"
  have "map (\<lambda>e. f (snd e)) (filter (\<lambda>e. P (fst e)) m) = map ?g (map fst (filter (\<lambda>e. P (fst e)) m))"
    using assms by (auto simp: map_of_is_SomeI)
  moreover have "distinct (map fst (filter (\<lambda>e. P (fst e)) m))"
    using assms by (rule distinct_map_filter)
  note sum_list_distinct_conv_sum_set [OF this, of ?g]
  moreover have "set (map fst (filter (\<lambda>e. P (fst e)) m)) = {k \<in> fst ` set m. P k}" by auto
  ultimately show ?thesis by (simp only:)
qed

text \<open>
  Looking up every key of \<open>ks\<close> and adding the values filed under other keys gives the sum of
  all values.
\<close>

lemma sum_list_lookup_split:
  fixes f :: "'v \<Rightarrow> 'b::comm_monoid_add"
  assumes "distinct ks" and "distinct (map fst m)"
  shows "sum_list (map (\<lambda>k. case map_of m k of Some v \<Rightarrow> f v | None \<Rightarrow> 0) ks) +
    sum_list (map (\<lambda>e. f (snd e)) (filter (\<lambda>e. fst e \<notin> set ks) m)) =
    sum_list (map (\<lambda>e. f (snd e)) m)"
proof -
  let ?g = "\<lambda>k. case map_of m k of Some v \<Rightarrow> f v | None \<Rightarrow> 0" and ?K = "fst ` set m"
  have "sum ?g (set ks) = sum ?g (set ks \<inter> ?K) + sum ?g (set ks - ?K)"
    by (rule sum.Int_Diff) simp
  moreover have "sum ?g (set ks - ?K) = 0"
    by (rule sum.neutral) (simp add: map_of_eq_None_iff [symmetric])
  moreover have "sum ?g ?K = sum ?g (?K \<inter> set ks) + sum ?g (?K - set ks)"
    by (rule sum.Int_Diff) simp
  moreover have "{k \<in> ?K. k \<notin> set ks} = ?K - set ks" by auto
  ultimately show ?thesis
    using sum_list_values [OF assms(2), of f "\<lambda>k. k \<notin> set ks"]
      sum_list_values [OF assms(2), of f "\<lambda>k. True"] sum_list_distinct_conv_sum_set [OF assms(1), of ?g]
    by (simp add: Int_commute)
qed

text \<open>Dually, splitting the keys of \<open>ks\<close> by whether the map has them.\<close>

lemma sum_list_keys_split:
  fixes g :: "'k \<Rightarrow> 'b::comm_monoid_add"
  assumes "distinct ks" and "distinct (map fst m)"
  shows "sum_list (map (\<lambda>k. if k \<in> set ks then g k else 0) (map fst m)) +
    sum_list (map g (filter (\<lambda>k. k \<notin> fst ` set m) ks)) = sum_list (map g ks)"
proof -
  let ?K = "fst ` set m"
  have "sum g (set ks) = sum g (set ks \<inter> ?K) + sum g (set ks - ?K)"
    by (rule sum.Int_Diff) simp
  moreover have "sum_list (map (\<lambda>k. if k \<in> set ks then g k else 0) (map fst m)) =
      sum (\<lambda>k. if k \<in> set ks then g k else 0) ?K"
    using sum_list_distinct_conv_sum_set [OF assms(2), of "\<lambda>k. if k \<in> set ks then g k else 0"]
    by (simp only: set_map)
  moreover have "\<dots> = sum g (?K \<inter> set ks)"
    by (rule sum.inter_restrict [symmetric]) simp
  moreover have "sum_list (map g (filter (\<lambda>k. k \<notin> ?K) ks)) = sum g (set ks - ?K)"
    using assms(1) by (subst sum_list_distinct_conv_sum_set) (auto intro: sum.cong)
  ultimately show ?thesis
    using sum_list_distinct_conv_sum_set [OF assms(1), of g] by (simp add: Int_commute)
qed

lemma those_map_Some: "(\<And>x. x \<in> set xs \<Longrightarrow> f x = Some (g x)) \<Longrightarrow> those (map f xs) = Some (map g xs)"
  by (simp add: those_eq_Some)

lemma those_map_SomeD:
  assumes "those (map f xs) = Some ys"
  shows "ys = map (the \<circ> f) xs" and "x \<in> set xs \<Longrightarrow> f x \<noteq> None"
proof -
  from assms have eq: "map f xs = map Some ys" by (simp add: those_eq_Some)
  then have "map (the \<circ> f) xs = map the (map Some ys)" by (simp only: list.map_comp [symmetric])
  then show "ys = map (the \<circ> f) xs" by (simp add: comp_def)
  assume "x \<in> set xs"
  then have "f x \<in> set (map Some ys)" unfolding eq [symmetric] by simp
  then show "f x \<noteq> None" by auto
qed

lemma map_values_btree_replace:
  "btree_inv m \<Longrightarrow> map_of m k = Some v \<Longrightarrow> f v' = f v \<Longrightarrow>
     map (\<lambda>e. f (snd e)) (btree_insert k v' m) = map (\<lambda>e. f (snd e)) m"
proof (induction k v' m rule: btree_insert.induct)
  case (2 k v' k1 v1 m)
  then show ?case
    by (auto simp: btree_inv_Cons split: if_splits dest!: map_of_SomeD)
qed simp

lemma bitmap_insert_present: "x \<in> set s \<Longrightarrow> bitmap_insert x s = s"
  by (simp add: bitmap_insert_def)

end
