(* ===== verification/Quorum_System.thy ===== *)
theory Quorum_System
  imports Sui_Prelude
begin

section \<open>What a committee promises about stake\<close>

text \<open>
  The authorities of a committee (\<open>src/crates/sui-types/src/committee.rs\<close>) vote with weights and
  compare the sum with a quorum threshold (2f+1) and a validity threshold (f+1).  The locale states
  the arithmetic that makes these thresholds Byzantine fault tolerant; the safety lemmas are
  proved once here and are used through its interpretation in \<open>Sui_Committee\<close>.
\<close>

locale stake_system =
  fixes members :: "'c \<Rightarrow> 'a set"
    and stake :: "'c \<Rightarrow> 'a \<Rightarrow> nat"
    and total :: "'c \<Rightarrow> nat"
    and quorum :: "'c \<Rightarrow> nat"
    and validity :: "'c \<Rightarrow> nat"
    and wf :: "'c \<Rightarrow> bool"
  assumes finite_members: "wf c \<Longrightarrow> finite (members c)"
    and total_stake: "wf c \<Longrightarrow> sum (stake c) (members c) = total c"
    and quorums_overlap: "wf c \<Longrightarrow> total c + validity c \<le> 2 * quorum c"
    and quorum_meets_validity: "wf c \<Longrightarrow> total c < quorum c + validity c"
    and validity_positive: "wf c \<Longrightarrow> 0 < validity c"
begin

lemma stake_Un_Int:
  assumes "wf c" and "A \<subseteq> members c" and "B \<subseteq> members c"
  shows "sum (stake c) A + sum (stake c) B \<le> total c + sum (stake c) (A \<inter> B)"
proof -
  have fin: "finite A" "finite B"
    using assms finite_members finite_subset by blast+
  then have "sum (stake c) A + sum (stake c) B = sum (stake c) (A \<union> B) + sum (stake c) (A \<inter> B)"
    by (simp add: sum.union_inter)
  moreover have "sum (stake c) (A \<union> B) \<le> sum (stake c) (members c)"
    using assms finite_members by (intro sum_mono2) auto
  ultimately show ?thesis
    using total_stake [OF assms(1)] by linarith
qed

lemma quorum_intersection:
  assumes "wf c" and "A \<subseteq> members c" and "B \<subseteq> members c"
    and "quorum c \<le> sum (stake c) A" and "quorum c \<le> sum (stake c) B"
  shows "validity c \<le> sum (stake c) (A \<inter> B)"
  using stake_Un_Int [OF assms(1-3)] assms(4,5) quorums_overlap [OF assms(1)] by linarith

lemma honest_in_both:
  assumes "wf c" and "A \<subseteq> members c" and "B \<subseteq> members c"
    and "quorum c \<le> sum (stake c) A" and "quorum c \<le> sum (stake c) B"
    and "sum (stake c) F < validity c" and "finite F"
  shows "\<exists>a \<in> A \<inter> B. a \<notin> F"
proof (rule ccontr)
  assume "\<not> ?thesis"
  then have "A \<inter> B \<subseteq> F" by blast
  then have "sum (stake c) (A \<inter> B) \<le> sum (stake c) F"
    using assms(7) by (intro sum_mono2) auto
  with quorum_intersection [OF assms(1-5)] assms(6) show False
    by linarith
qed

lemma quorum_and_validity_meet:
  assumes "wf c" and "A \<subseteq> members c" and "B \<subseteq> members c"
    and "quorum c \<le> sum (stake c) A" and "validity c \<le> sum (stake c) B"
  shows "A \<inter> B \<noteq> {}"
proof
  assume "A \<inter> B = {}"
  with stake_Un_Int [OF assms(1-3)] have "sum (stake c) A + sum (stake c) B \<le> total c"
    by simp
  with assms(4,5) quorum_meets_validity [OF assms(1)] show False
    by linarith
qed

lemma quorum_not_empty:
  assumes "wf c" and "A \<subseteq> members c" and "quorum c \<le> sum (stake c) A"
  shows "A \<noteq> {}"
  using quorum_and_validity_meet [OF assms(1,2) assms(2,3)] assms(3)
    quorums_overlap [OF assms(1)] quorum_meets_validity [OF assms(1)]
    validity_positive [OF assms(1)] by fastforce

end

end
