(* ===== verification/Sui_Committee.thy ===== *)
theory Sui_Committee
  imports Rust_Collections Quorum_System "HOL-Library.Multiset"
begin

section \<open>The committee of an epoch\<close>

text \<open>
  Models \<open>src/crates/sui-types/src/committee.rs\<close>.  An \<open>AuthorityName\<close> is a 96-byte public key
  compared lexicographically, that is, by its big-endian value: a natural number.  Decoding
  the bytes into a curve point is \<open>fastcrypto\<close>'s and is the parameter \<open>expand_key\<close>
  (\<^const>\<open>None\<close> where the decoding fails).  Stakes are 64-bit and their sums wrap.
\<close>

type_synonym authority_name = nat
type_synonym stake_unit = u64
type_synonym epoch_id = u64

definition TOTAL_VOTING_POWER :: stake_unit where
  "TOTAL_VOTING_POWER = 10000"

definition QUORUM_THRESHOLD :: stake_unit where
  "QUORUM_THRESHOLD = 6667"

definition VALIDITY_THRESHOLD :: stake_unit where
  "VALIDITY_THRESHOLD = 3334"

lemmas voting_constants = TOTAL_VOTING_POWER_def QUORUM_THRESHOLD_def VALIDITY_THRESHOLD_def

record 'pk committee =
  c_epoch :: epoch_id
  c_voting_rights :: "(authority_name \<times> stake_unit) list"
  c_expanded_keys :: "(authority_name, 'pk) hash_map"
  c_index_map :: "(authority_name, nat) hash_map"

datatype sui_error =
    StakeAggregatorRepeatedSigner authority_name bool
  | InvalidAuthenticator
  | WrongEpoch epoch_id epoch_id
  | InvalidSignature string
  | UnknownSigner "authority_name option" "u32 option"
  | CertificateRequiresQuorum
  | InvalidAddress
  | InvalidCommittee authority_name nat

subsection \<open>Construction\<close>

fun expand_all ::
  "(authority_name \<Rightarrow> 'pk option) \<Rightarrow> (authority_name \<times> stake_unit) list \<Rightarrow>
     (authority_name \<times> 'pk) list option" where
  "expand_all expand_key [] = Some []"
| "expand_all expand_key ((addr, s) # rest) = do {
     key \<leftarrow> expand_key addr;
     keys \<leftarrow> expand_all expand_key rest;
     Some ((addr, key) # keys)
   }"

definition load_inner ::
  "(authority_name \<Rightarrow> 'pk option) \<Rightarrow> (authority_name \<times> stake_unit) list \<Rightarrow>
     ((authority_name, 'pk) hash_map \<times> (authority_name, nat) hash_map) option" where
  "load_inner expand_key voting_rights = do {
     keys \<leftarrow> expand_all expand_key voting_rights;
     Some (hash_collect keys, hash_collect (zip (map fst voting_rights) [0..<length voting_rights]))
   }"

definition committee_new ::
  "(authority_name \<Rightarrow> 'pk option) \<Rightarrow> epoch_id \<Rightarrow> (authority_name, stake_unit) btree_map \<Rightarrow>
     'pk committee option" where
  "committee_new expand_key epoch voting_rights = do {
     rust_assert (voting_rights \<noteq> []);
     rust_assert (\<exists>e \<in> set voting_rights. snd e \<noteq> 0);
     let voting_rights = sort_key fst voting_rights;
     let total_votes = sum_list (map snd voting_rights);
     rust_assert (total_votes = TOTAL_VOTING_POWER);
     (expanded_keys, index_map) \<leftarrow> load_inner expand_key voting_rights;
     Some \<lparr>c_epoch = epoch, c_voting_rights = voting_rights,
       c_expanded_keys = expanded_keys, c_index_map = index_map\<rparr>
   }"

subsection \<open>Queries\<close>

definition authority_index :: "'pk committee \<Rightarrow> authority_name \<Rightarrow> u32 option" where
  "authority_index c author = map_option of_nat (map_of (c_index_map c) author)"

definition authority_by_index :: "'pk committee \<Rightarrow> u32 \<Rightarrow> authority_name option" where
  "authority_by_index c index =
     (if unat index < length (c_voting_rights c)
      then Some (fst (c_voting_rights c ! unat index)) else None)"

definition public_key :: "'pk committee \<Rightarrow> authority_name \<Rightarrow> sui_error + 'pk" where
  "public_key c authority =
     (case map_of (c_expanded_keys c) authority of
        Some v \<Rightarrow> Inr v
      | None \<Rightarrow> Inl (InvalidCommittee authority (length (c_expanded_keys c))))"

definition committee_weight :: "'pk committee \<Rightarrow> authority_name \<Rightarrow> stake_unit" where
  "committee_weight c author =
     (case binary_search_by_key author (c_voting_rights c) of
        None \<Rightarrow> 0
      | Some idx \<Rightarrow> snd (c_voting_rights c ! idx))"

definition committee_threshold :: "bool \<Rightarrow> stake_unit" where
  "committee_threshold strength = (if strength then QUORUM_THRESHOLD else VALIDITY_THRESHOLD)"

definition num_members :: "'pk committee \<Rightarrow> nat" where
  "num_members c = length (c_voting_rights c)"

definition committee_names :: "'pk committee \<Rightarrow> authority_name list" where
  "committee_names c = map fst (c_voting_rights c)"

definition committee_stakes :: "'pk committee \<Rightarrow> stake_unit list" where
  "committee_stakes c = map snd (c_voting_rights c)"

definition authority_exists :: "'pk committee \<Rightarrow> authority_name \<Rightarrow> bool" where
  "authority_exists c name = (binary_search_by_key name (c_voting_rights c) \<noteq> None)"

definition committee_eq :: "'pk committee \<Rightarrow> 'pk committee \<Rightarrow> bool" where
  "committee_eq c d \<longleftrightarrow> c_epoch c = c_epoch d \<and> c_voting_rights c = c_voting_rights d"

subsection \<open>Sampling\<close>

text \<open>
  \<open>SliceRandom::choose_multiple_weighted\<close> of the \<open>rand\<close> crate is the parameter \<open>pick\<close>: from
  the generator's state, a slice and a count it returns the chosen entries and the new state,
  or \<^const>\<open>None\<close> for its error value, which the source unwraps.
\<close>

type_synonym 'g weighted_pick =
  "'g \<Rightarrow> (authority_name \<times> stake_unit) list \<Rightarrow> nat \<Rightarrow> ((authority_name \<times> stake_unit) list \<times> 'g) option"

definition choose_multiple_weighted ::
  "'g weighted_pick \<Rightarrow> (authority_name \<times> stake_unit) list \<Rightarrow> nat \<Rightarrow> 'g \<Rightarrow>
     (authority_name list \<times> 'g) option" where
  "choose_multiple_weighted pick entries amount rng = do {
     (chosen, rng) \<leftarrow> pick rng entries amount;
     Some (map fst chosen, rng)
   }"

definition committee_sample :: "'g weighted_pick \<Rightarrow> 'pk committee \<Rightarrow> 'g \<Rightarrow> authority_name option" where
  "committee_sample pick c rng = do {
     (names, _) \<leftarrow> choose_multiple_weighted pick (c_voting_rights c) 1 rng;
     (case names of [] \<Rightarrow> panic | a # _ \<Rightarrow> Some a)
   }"

definition shuffle_by_stake_with_rng ::
  "'g weighted_pick \<Rightarrow> 'pk committee \<Rightarrow> authority_name set option \<Rightarrow> authority_name set option \<Rightarrow>
     'g \<Rightarrow> (authority_name list \<times> 'g) option" where
  "shuffle_by_stake_with_rng pick c preferences restrict_to rng =
     (let restricted = filter (\<lambda>(name, _).
            case restrict_to of Some r \<Rightarrow> name \<in> r | None \<Rightarrow> True) (c_voting_rights c);
          (preferred, rest) = (case preferences of
            Some p \<Rightarrow> partition (\<lambda>(name, _). name \<in> p) restricted
          | None \<Rightarrow> ([], restricted))
      in do {
        (first, rng) \<leftarrow> choose_multiple_weighted pick preferred (length preferred) rng;
        (second, rng) \<leftarrow> choose_multiple_weighted pick rest (length rest) rng;
        Some (first @ second, rng)
      })"

subsection \<open>Well-formed committees\<close>

text \<open>
  What \<open>Committee::new\<close> establishes: entries in strict key order, total voting power exactly
  10,000, an index map that inverts the entry order and a public key for every member.
\<close>

definition committee_wf :: "'pk committee \<Rightarrow> bool" where
  "committee_wf c \<longleftrightarrow>
     btree_inv (c_voting_rights c) \<and>
     sum_list (map (unat \<circ> snd) (c_voting_rights c)) = unat TOTAL_VOTING_POWER \<and>
     map_of (c_index_map c) =
       map_of (zip (committee_names c) [0..<length (c_voting_rights c)]) \<and>
     dom (map_of (c_expanded_keys c)) = set (committee_names c)"

lemma expand_all_Some:
  "expand_all expand_key vr = Some keys \<Longrightarrow>
     map fst keys = map fst vr \<and> (\<forall>(a, k) \<in> set keys. expand_key a = Some k)"
proof (induction vr arbitrary: keys)
  case Nil
  then show ?case by simp
next
  case (Cons e vr)
  obtain a s where e: "e = (a, s)" by (cases e)
  from Cons.prems obtain k ks where
    "expand_key a = Some k" "expand_all expand_key vr = Some ks" "keys = (a, k) # ks"
    by (auto simp: e bind_eq_Some_conv)
  with Cons.IH [of ks] show ?case by (simp add: e)
qed

lemma committee_new_Some:
  assumes "committee_new expand_key ep vr = Some c" and "btree_inv vr"
  shows "c_epoch c = ep" "c_voting_rights c = vr"
    and "sum_list (map snd vr) = TOTAL_VOTING_POWER"
    and "\<exists>keys. expand_all expand_key vr = Some keys \<and> c_expanded_keys c = hash_collect keys"
    and "c_index_map c = hash_collect (zip (map fst vr) [0..<length vr])"
proof -
  have sorted: "sort_key fst vr = vr"
    using btree_inv_sorted [OF assms(2)] by (simp add: sort_key_id_if_sorted)
  from assms(1) obtain keys where
    *: "sum_list (map snd vr) = TOTAL_VOTING_POWER" "expand_all expand_key vr = Some keys"
      "c = \<lparr>c_epoch = ep, c_voting_rights = vr, c_expanded_keys = hash_collect keys,
             c_index_map = hash_collect (zip (map fst vr) [0..<length vr])\<rparr>"
    by (auto simp: committee_new_def load_inner_def sorted Let_def bind_eq_Some_conv)
  from * show "c_epoch c = ep" "c_voting_rights c = vr"
    "sum_list (map snd vr) = TOTAL_VOTING_POWER"
    "\<exists>keys. expand_all expand_key vr = Some keys \<and> c_expanded_keys c = hash_collect keys"
    "c_index_map c = hash_collect (zip (map fst vr) [0..<length vr])"
    by simp_all
qed

lemma committee_new_wf:
  assumes "committee_new expand_key ep vr = Some c" and "btree_inv vr"
    and "sum_list (map (unat \<circ> snd) vr) < 2 ^ 64"
  shows "committee_wf c"
proof -
  note new = committee_new_Some [OF assms(1,2)]
  have "sum_list (map unat (map snd vr)) = unat (sum_list (map snd vr))"
    using assms(3) by (subst unat_sum_list_exact) simp_all
  then have total: "sum_list (map (unat \<circ> snd) vr) = unat TOTAL_VOTING_POWER"
    by (simp add: new(3))
  have d: "distinct (map fst (zip (map fst vr) [0..<length vr]))"
    using btree_inv_distinct [OF assms(2)] by simp
  obtain keys where keys: "expand_all expand_key vr = Some keys" "c_expanded_keys c = hash_collect keys"
    using new(4) by blast
  then have "map fst keys = map fst vr"
    using expand_all_Some by blast
  then have "dom (map_of (c_expanded_keys c)) = set (map fst vr)"
    by (simp add: keys(2) hash_collect_lookup dom_map_of_conv_image_fst flip: set_map)
  with total d show ?thesis
    by (simp add: committee_wf_def committee_names_def new assms(2) hash_collect_distinct)
qed

lemma committee_weight_lookup:
  assumes "committee_wf c"
  shows "committee_weight c a = (case map_of (c_voting_rights c) a of None \<Rightarrow> 0 | Some s \<Rightarrow> s)"
proof -
  have "btree_inv (c_voting_rights c)"
    using assms by (simp add: committee_wf_def)
  from binary_search_by_key_lookup [OF this, of a] show ?thesis
    by (cases "binary_search_by_key a (c_voting_rights c)")
      (auto simp: committee_weight_def split: option.splits)
qed

lemma committee_weight_member:
  assumes "committee_wf c" and "(a, s) \<in> set (c_voting_rights c)"
  shows "committee_weight c a = s"
  using assms btree_inv_distinct [of "c_voting_rights c"]
  by (simp add: committee_weight_lookup committee_wf_def)

lemma committee_weight_nonmember:
  assumes "committee_wf c" and "a \<notin> set (committee_names c)"
  shows "committee_weight c a = 0"
  using assms map_of_eq_None_iff [of "c_voting_rights c" a]
  by (auto simp: committee_weight_lookup committee_names_def split: option.splits)

lemma committee_total_stake:
  assumes "committee_wf c"
  shows "sum (\<lambda>a. unat (committee_weight c a)) (set (committee_names c)) = unat TOTAL_VOTING_POWER"
proof -
  let ?vr = "c_voting_rights c"
  have d: "distinct (map fst ?vr)"
    using assms btree_inv_distinct by (auto simp: committee_wf_def)
  have "sum (\<lambda>a. unat (committee_weight c a)) (set (committee_names c)) =
      sum_list (map (\<lambda>a. unat (committee_weight c a)) (map fst ?vr))"
    unfolding committee_names_def by (rule sum_list_distinct_conv_sum_set [OF d, symmetric])
  also have "\<dots> = sum_list (map (unat \<circ> snd) ?vr)"
    using committee_weight_member [OF assms] by (intro arg_cong [of _ _ sum_list]) auto
  finally show ?thesis
    using assms by (simp add: committee_wf_def)
qed

interpretation sui: stake_system
  "\<lambda>c :: 'pk committee. set (committee_names c)"
  "\<lambda>c a. unat (committee_weight c a)"
  "\<lambda>c. unat TOTAL_VOTING_POWER"
  "\<lambda>c. unat (committee_threshold True)"
  "\<lambda>c. unat (committee_threshold False)"
  committee_wf
  by unfold_locales
    (simp_all add: committee_total_stake committee_threshold_def voting_constants)

lemma committee_index_map:
  assumes "committee_wf c"
  shows "map_of (c_index_map c) a = Some i \<longleftrightarrow>
    i < length (c_voting_rights c) \<and> fst (c_voting_rights c ! i) = a"
proof -
  let ?vr = "c_voting_rights c"
  have d: "distinct (map fst ?vr)"
    using assms btree_inv_distinct by (auto simp: committee_wf_def)
  have "map_of (c_index_map c) a = Some i \<longleftrightarrow> (a, i) \<in> set (zip (map fst ?vr) [0..<length ?vr])"
    using assms d by (simp add: committee_wf_def committee_names_def)
  also have "\<dots> \<longleftrightarrow> i < length ?vr \<and> fst (?vr ! i) = a"
    by (auto simp: in_set_zip intro: exI [of _ i])
  finally show ?thesis .
qed

subsection \<open>Properties of the committee\<close>

text \<open>A committee of four authorities with equal stake, on which the properties are exercised.\<close>

definition four_authorities :: "nat committee" where
  "four_authorities =
     \<lparr>c_epoch = 7,
      c_voting_rights = [(1, 2500), (2, 2500), (3, 2500), (4, 2500)],
      c_expanded_keys = [(1, 11), (2, 12), (3, 13), (4, 14)],
      c_index_map = [(1, 0), (2, 1), (3, 2), (4, 3)]\<rparr>"

lemma four_authorities_new:
  "committee_new (\<lambda>a. Some (a + 10)) 7 [(1, 2500), (2, 2500), (3, 2500), (4, 2500)] =
     Some four_authorities"
  by code_simp

lemma four_authorities_wf: "committee_wf four_authorities"
  by (rule committee_new_wf [OF four_authorities_new]) (simp_all add: btree_inv_def)

text \<open>
  C25.  \<open>authority_index\<close> and \<open>authority_by_index\<close> are inverse to each other on every committee
  built by \<open>Committee::new\<close> (with at most \<open>2 ^ 32\<close> members): the 32-bit positions recorded in a
  certificate's bitmap denote exactly the members.
\<close>

theorem authority_index_roundtrip:
  assumes "committee_new expand_key ep vr = Some c" and "btree_inv vr"
    and "sum_list (map (unat \<circ> snd) vr) < 2 ^ 64" and "length vr \<le> 2 ^ 32"
  shows "authority_index c a = Some i \<longleftrightarrow> authority_by_index c i = Some a"
proof -
  have wf: "committee_wf c" by (rule committee_new_wf [OF assms(1-3)])
  have len: "length (c_voting_rights c) \<le> 2 ^ 32"
    using assms(4) by (simp add: committee_new_Some(2) [OF assms(1,2)])
  have "authority_index c a = Some i \<longleftrightarrow>
      (\<exists>n < length (c_voting_rights c). fst (c_voting_rights c ! n) = a \<and> i = of_nat n)"
    by (auto simp: authority_index_def committee_index_map [OF wf])
  also have "\<dots> \<longleftrightarrow> unat i < length (c_voting_rights c) \<and> fst (c_voting_rights c ! unat i) = a"
    using len by (auto simp: unat_of_nat intro: exI [of _ "unat i"])
  finally show ?thesis by (auto simp: authority_by_index_def)
qed

theorem authority_index_roundtrip_witness:
  "authority_index four_authorities 3 = Some 2 \<longleftrightarrow> authority_by_index four_authorities 2 = Some 3"
  by (rule authority_index_roundtrip [OF four_authorities_new]) (simp_all add: btree_inv_def)

text \<open>
  C26.  \<open>shuffle_by_stake_with_rng\<close> returns every authority allowed by \<open>restrict_to\<close> exactly once,
  the preferred ones before all others, for any generator whose weighted choice of all elements
  of a slice returns a rearrangement of the slice.
\<close>

theorem shuffle_by_stake_permutes:
  assumes pick: "\<And>rng xs. \<exists>ys rng'. pick rng xs (length xs) = Some (ys, rng') \<and> mset ys = mset xs"
    and wf: "committee_wf c"
  shows "\<exists>first second rng'.
      shuffle_by_stake_with_rng pick c preferences restrict_to rng = Some (first @ second, rng') \<and>
      distinct (first @ second) \<and>
      set (first @ second) =
        {a \<in> set (committee_names c). case restrict_to of None \<Rightarrow> True | Some r \<Rightarrow> a \<in> r} \<and>
      (\<forall>a \<in> set first. case preferences of None \<Rightarrow> False | Some p \<Rightarrow> a \<in> p) \<and>
      (\<forall>a \<in> set second. case preferences of None \<Rightarrow> True | Some p \<Rightarrow> a \<notin> p)"
proof -
  define restricted where "restricted = filter (\<lambda>(name, _).
    case restrict_to of Some r \<Rightarrow> name \<in> r | None \<Rightarrow> True) (c_voting_rights c)"
  define preferred where "preferred = (case preferences of
    Some p \<Rightarrow> filter (\<lambda>(name, _). name \<in> p) restricted | None \<Rightarrow> [])"
  define rest where "rest = (case preferences of
    Some p \<Rightarrow> filter (\<lambda>(name, _). name \<notin> p) restricted | None \<Rightarrow> restricted)"
  obtain ys rng1 where ys: "pick rng preferred (length preferred) = Some (ys, rng1)"
    "mset ys = mset preferred" using pick by blast
  obtain zs rng2 where zs: "pick rng1 rest (length rest) = Some (zs, rng2)" "mset zs = mset rest"
    using pick by blast
  have mset: "mset (ys @ zs) = mset restricted"
    by (auto simp: ys(2) zs(2) preferred_def rest_def case_prod_unfold mset_filter
        multiset_partition [of "mset restricted", symmetric] split: option.splits)
  have "shuffle_by_stake_with_rng pick c preferences restrict_to rng =
      Some (map fst ys @ map fst zs, rng2)"
    using ys(1) zs(1)
    unfolding shuffle_by_stake_with_rng_def restricted_def [symmetric] choose_multiple_weighted_def
    by (cases preferences) (simp_all add: preferred_def rest_def case_prod_unfold comp_def)
  moreover have "distinct (map fst restricted)"
    using wf btree_inv_distinct [of "c_voting_rights c"]
    by (simp add: committee_wf_def restricted_def distinct_map_filter)
  then have "distinct (map fst ys @ map fst zs)"
    using arg_cong [OF mset, of "image_mset fst"]
    by (metis map_append mset_eq_imp_distinct_iff mset_map)
  moreover have "set (map fst ys @ map fst zs) = fst ` set restricted"
    using arg_cong [OF mset, of set_mset] by (simp flip: image_Un)
  then have "set (map fst ys @ map fst zs) =
      {a \<in> set (committee_names c). case restrict_to of None \<Rightarrow> True | Some r \<Rightarrow> a \<in> r}"
    by (cases restrict_to) (force simp: restricted_def committee_names_def)+
  moreover have sets: "set ys = set preferred" "set zs = set rest"
    using arg_cong [OF ys(2), of set_mset] arg_cong [OF zs(2), of set_mset] by simp_all
  have "\<forall>a \<in> set (map fst ys). case preferences of None \<Rightarrow> False | Some p \<Rightarrow> a \<in> p"
    "\<forall>a \<in> set (map fst zs). case preferences of None \<Rightarrow> True | Some p \<Rightarrow> a \<notin> p"
    by (cases preferences; auto simp: sets preferred_def rest_def)+
  ultimately show ?thesis
    by (intro exI [of _ "map fst ys"] exI [of _ "map fst zs"] exI [of _ rng2] conjI)
qed

theorem shuffle_by_stake_permutes_witness:
  "\<exists>first second rng'.
      shuffle_by_stake_with_rng (\<lambda>rng xs n. Some (rev xs, rng + 1)) four_authorities
        (Some {2}) (Some {1, 2, 4}) (0 :: nat) = Some (first @ second, rng') \<and>
      distinct (first @ second) \<and>
      set (first @ second) = {a \<in> set (committee_names four_authorities).
        case Some {1, 2, 4} of None \<Rightarrow> True | Some r \<Rightarrow> a \<in> r} \<and>
      (\<forall>a \<in> set first. case Some {2} of None \<Rightarrow> False | Some p \<Rightarrow> a \<in> p) \<and>
      (\<forall>a \<in> set second. case Some {2} of None \<Rightarrow> True | Some p \<Rightarrow> a \<notin> p)"
  by (rule shuffle_by_stake_permutes [OF _ four_authorities_wf]) simp

lemma expand_all_iff: "(\<exists>keys. expand_all expand_key vr = Some keys) \<longleftrightarrow> (\<forall>(a, s) \<in> set vr. expand_key a \<noteq> None)"
  by (induction expand_key vr rule: expand_all.induct) (auto simp: bind_eq_Some_conv)

text \<open>
  C27.  The stakes are summed with wrapping 64-bit addition before the comparison with
  \<open>TOTAL_VOTING_POWER\<close>.  In a build without overflow checks \<open>Committee::new\<close> therefore accepts a map
  of voting rights exactly when all keys decode and the true sum of the stakes is 10,000 modulo
  \<open>2 ^ 64\<close>.  The instance below has two authorities with about \<open>2 ^ 63\<close> stake each, either of which
  alone exceeds the quorum threshold: two disjoint quorums.
\<close>

theorem committee_new_accepts_wrapped_total:
  assumes "btree_inv vr"
  shows "(\<exists>c. committee_new expand_key ep vr = Some c) \<longleftrightarrow>
    (\<forall>(a, s) \<in> set vr. expand_key a \<noteq> None) \<and> sum_list (map (unat \<circ> snd) vr) mod 2 ^ 64 = 10000"
proof -
  have sorted: "sort_key fst vr = vr"
    using btree_inv_sorted [OF assms] by (simp add: sort_key_id_if_sorted)
  have "unat (sum_list (map snd vr)) = sum_list (map (unat \<circ> snd) vr) mod 2 ^ 64"
    using unat_sum_list_mod [of "map snd vr"] by simp
  then have total: "sum_list (map snd vr) = TOTAL_VOTING_POWER \<longleftrightarrow> sum_list (map (unat \<circ> snd) vr) mod 2 ^ 64 = 10000"
    by (simp add: word_unat_eq_iff voting_constants)
  have "sum_list (map snd vr) = 0" if "\<forall>e \<in> set vr. snd e = 0"
    using that by (induction vr) auto
  then have nonzero: "\<exists>e \<in> set vr. snd e \<noteq> 0" if "sum_list (map snd vr) = TOTAL_VOTING_POWER"
    using that by (auto simp: voting_constants)
  show ?thesis
    unfolding total [symmetric] expand_all_iff [symmetric]
    using nonzero by (auto simp: committee_new_def load_inner_def sorted Let_def bind_eq_Some_conv rust_assert_def)
qed

theorem committee_new_accepts_wrapped_total_witness:
  "\<exists>c. committee_new Some 0 [(1, 2 ^ 63), (2, 2 ^ 63 + 10000)] = Some c \<and>
     committee_threshold True \<le> committee_weight c 1 \<and> committee_threshold True \<le> committee_weight c 2"
proof -
  let ?vr = "[(1, 2 ^ 63), (2, 2 ^ 63 + 10000)] :: (authority_name \<times> stake_unit) list"
  have vr: "btree_inv ?vr" by (simp add: btree_inv_def)
  then obtain c where c: "committee_new Some 0 ?vr = Some c"
    using committee_new_accepts_wrapped_total [OF vr, of Some 0] by auto
  note rights = committee_new_Some(2) [OF c vr]
  have "committee_weight c 1 = 2 ^ 63" "committee_weight c 2 = 2 ^ 63 + 10000"
    unfolding committee_weight_def rights by code_simp+
  with c show ?thesis by (simp add: committee_threshold_def voting_constants)
qed

end
