(* ===== verification/Authority_Signatures.thy ===== *)
theory Authority_Signatures
  imports Sui_Committee
begin

section \<open>Authority signatures and quorum certificates\<close>

text \<open>
  Models \<open>VerificationObligation\<close>, \<open>AuthoritySignInfo\<close> and \<open>AuthorityQuorumSignInfo\<close> of
  \<open>src/crates/sui-types/src/crypto.rs\<close>.  The BLS primitives of \<open>fastcrypto\<close> and the BCS
  encoding of a message under its intent and epoch are the fields of the parameter
  \<open>crypto\<close>; nothing is assumed of them here.  A \<open>RoaringBitmap\<close> of signers is a bitmap of
  committee indexes.
\<close>

record ('sig, 'agg, 'pk, 'msg, 'bytes) crypto =
  agg_default :: 'agg
  agg_add_signature :: "'agg \<Rightarrow> 'sig \<Rightarrow> 'agg option"
  agg_add_aggregate :: "'agg \<Rightarrow> 'agg \<Rightarrow> 'agg option"
  agg_aggregate :: "'sig list \<Rightarrow> 'agg option"
  batch_verify :: "'agg list \<Rightarrow> 'pk list list \<Rightarrow> 'bytes list \<Rightarrow> bool"
  intent_bytes :: "'msg \<Rightarrow> epoch_id \<Rightarrow> 'bytes"

record 'sig authority_sign_info =
  si_epoch :: epoch_id
  si_authority :: authority_name
  si_signature :: 'sig

record 'agg authority_quorum_sign_info =
  qs_epoch :: epoch_id
  qs_signature :: 'agg
  qs_signers_map :: "u32 bitmap"

text \<open>\<open>PartialEq for AuthoritySignInfo\<close> ignores the signature.\<close>

definition sign_info_eq :: "'sig authority_sign_info \<Rightarrow> 'sig authority_sign_info \<Rightarrow> bool" where
  "sign_info_eq a b \<longleftrightarrow> si_epoch a = si_epoch b \<and> si_authority a = si_authority b"

subsection \<open>Verification obligations\<close>

record ('agg, 'pk, 'bytes) verification_obligation =
  vo_messages :: "'bytes list"
  vo_signatures :: "'agg list"
  vo_public_keys :: "'pk list list"

definition obligation_default :: "('agg, 'pk, 'bytes) verification_obligation" where
  "obligation_default = \<lparr>vo_messages = [], vo_signatures = [], vo_public_keys = []\<rparr>"

definition add_message ::
  "('sig, 'agg, 'pk, 'msg, 'bytes) crypto \<Rightarrow> 'msg \<Rightarrow> epoch_id \<Rightarrow>
     ('agg, 'pk, 'bytes) verification_obligation \<Rightarrow> nat \<times> ('agg, 'pk, 'bytes) verification_obligation" where
  "add_message cr msg epoch ob =
     (let ob = ob\<lparr>vo_signatures := vo_signatures ob @ [agg_default cr],
                  vo_public_keys := vo_public_keys ob @ [[]],
                  vo_messages := vo_messages ob @ [intent_bytes cr msg epoch]\<rparr>
      in (length (vo_messages ob) - 1, ob))"

definition push_public_key ::
  "nat \<Rightarrow> 'pk \<Rightarrow> ('agg, 'pk, 'bytes) verification_obligation \<Rightarrow> ('agg, 'pk, 'bytes) verification_obligation" where
  "push_public_key idx pk ob =
     ob\<lparr>vo_public_keys := (vo_public_keys ob)[idx := vo_public_keys ob ! idx @ [pk]]\<rparr>"

definition add_signature_and_public_key ::
  "('sig, 'agg, 'pk, 'msg, 'bytes) crypto \<Rightarrow> 'sig \<Rightarrow> 'pk \<Rightarrow> nat \<Rightarrow>
     ('agg, 'pk, 'bytes) verification_obligation \<Rightarrow>
     sui_error + ('agg, 'pk, 'bytes) verification_obligation" where
  "add_signature_and_public_key cr signature pk idx ob =
     (if \<not> idx < length (vo_public_keys ob) then Inl InvalidAuthenticator
      else let ob = push_public_key idx pk ob in
        if \<not> idx < length (vo_signatures ob) then Inl InvalidAuthenticator
        else case agg_add_signature cr (vo_signatures ob ! idx) signature of
            None \<Rightarrow> Inl (InvalidSignature ''Failed to add signature to obligation'')
          | Some agg \<Rightarrow> Inr (ob\<lparr>vo_signatures := (vo_signatures ob)[idx := agg]\<rparr>))"

definition verify_all ::
  "('sig, 'agg, 'pk, 'msg, 'bytes) crypto \<Rightarrow> ('agg, 'pk, 'bytes) verification_obligation \<Rightarrow>
     sui_error + unit" where
  "verify_all cr ob =
     (if batch_verify cr (vo_signatures ob) (vo_public_keys ob) (vo_messages ob) then Inr ()
      else Inl (InvalidSignature ''Failed to batch verify aggregated auth sig''))"

subsection \<open>One authority's signature\<close>

definition sign_info_add_to_obligation ::
  "('sig, 'agg, 'pk, 'msg, 'bytes) crypto \<Rightarrow> 'sig authority_sign_info \<Rightarrow> 'pk committee \<Rightarrow> nat \<Rightarrow>
     ('agg, 'pk, 'bytes) verification_obligation \<Rightarrow>
     sui_error + ('agg, 'pk, 'bytes) verification_obligation" where
  "sign_info_add_to_obligation cr si c idx ob =
     (if si_epoch si \<noteq> c_epoch c then Inl (WrongEpoch (c_epoch c) (si_epoch si))
      else if \<not> 0 < committee_weight c (si_authority si)
      then Inl (UnknownSigner (Some (si_authority si)) None)
      else if \<not> idx < length (vo_public_keys ob) then Inl InvalidAddress
      else case public_key c (si_authority si) of
          Inl e \<Rightarrow> Inl e
        | Inr pk \<Rightarrow>
            (let ob = push_public_key idx pk ob in
             if \<not> idx < length (vo_signatures ob) then Inl InvalidAddress
             else case agg_add_signature cr (vo_signatures ob ! idx) (si_signature si) of
                 None \<Rightarrow> Inl (InvalidSignature ''Fail to aggregator auth sig'')
               | Some agg \<Rightarrow> Inr (ob\<lparr>vo_signatures := (vo_signatures ob)[idx := agg]\<rparr>)))"

definition sign_info_verify_secure ::
  "('sig, 'agg, 'pk, 'msg, 'bytes) crypto \<Rightarrow> 'sig authority_sign_info \<Rightarrow> 'msg \<Rightarrow> 'pk committee \<Rightarrow>
     sui_error + unit" where
  "sign_info_verify_secure cr si data c =
     (let (idx, ob) = add_message cr data (si_epoch si) obligation_default in
      case sign_info_add_to_obligation cr si c idx ob of
        Inl e \<Rightarrow> Inl e
      | Inr ob \<Rightarrow> verify_all cr ob)"

subsection \<open>Quorum certificates\<close>

text \<open>The loop over the signers: weights are summed and public keys collected.\<close>

fun add_signers ::
  "'pk committee \<Rightarrow> u32 list \<Rightarrow> stake_unit \<Rightarrow> 'pk list \<Rightarrow> sui_error + (stake_unit \<times> 'pk list)" where
  "add_signers c [] weight pks = Inr (weight, pks)"
| "add_signers c (i # is) weight pks =
     (case authority_by_index c i of
        None \<Rightarrow> Inl (UnknownSigner None (Some i))
      | Some authority \<Rightarrow>
          (let voting_rights = committee_weight c authority in
           if \<not> 0 < voting_rights then Inl (UnknownSigner (Some authority) (Some i))
           else case public_key c authority of
               Inl e \<Rightarrow> Inl e
             | Inr pk \<Rightarrow> add_signers c is (weight + voting_rights) (pks @ [pk])))"

definition quorum_add_to_obligation ::
  "bool \<Rightarrow> ('sig, 'agg, 'pk, 'msg, 'bytes) crypto \<Rightarrow> 'agg authority_quorum_sign_info \<Rightarrow>
     'pk committee \<Rightarrow> nat \<Rightarrow> ('agg, 'pk, 'bytes) verification_obligation \<Rightarrow>
     sui_error + ('agg, 'pk, 'bytes) verification_obligation" where
  "quorum_add_to_obligation strong cr qs c idx ob =
     (if qs_epoch qs \<noteq> c_epoch c then Inl (WrongEpoch (c_epoch c) (qs_epoch qs))
      else if \<not> idx < length (vo_signatures ob) then Inl InvalidAuthenticator
      else case agg_add_aggregate cr (vo_signatures ob ! idx) (qs_signature qs) of
          None \<Rightarrow> Inl (InvalidSignature ''Signature Aggregation failed'')
        | Some agg \<Rightarrow>
            (let ob = ob\<lparr>vo_signatures := (vo_signatures ob)[idx := agg]\<rparr> in
             if \<not> idx < length (vo_public_keys ob) then Inl InvalidAuthenticator
             else case add_signers c (qs_signers_map qs) 0 (vo_public_keys ob ! idx) of
                 Inl e \<Rightarrow> Inl e
               | Inr (weight, pks) \<Rightarrow>
                   if \<not> committee_threshold strong \<le> weight then Inl CertificateRequiresQuorum
                   else Inr (ob\<lparr>vo_public_keys := (vo_public_keys ob)[idx := pks]\<rparr>)))"

definition quorum_verify_secure ::
  "bool \<Rightarrow> ('sig, 'agg, 'pk, 'msg, 'bytes) crypto \<Rightarrow> 'agg authority_quorum_sign_info \<Rightarrow> 'msg \<Rightarrow>
     'pk committee \<Rightarrow> sui_error + unit" where
  "quorum_verify_secure strong cr qs data c =
     (let (idx, ob) = add_message cr data (qs_epoch qs) obligation_default in
      case quorum_add_to_obligation strong cr qs c idx ob of
        Inl e \<Rightarrow> Inl e
      | Inr ob \<Rightarrow> verify_all cr ob)"

fun signer_bitmap ::
  "'pk committee \<Rightarrow> authority_name list \<Rightarrow> u32 bitmap \<Rightarrow> sui_error + u32 bitmap" where
  "signer_bitmap c [] bm = Inr bm"
| "signer_bitmap c (pk # pks) bm =
     (case authority_index c pk of
        None \<Rightarrow> Inl (UnknownSigner (Some pk) None)
      | Some i \<Rightarrow> signer_bitmap c pks (bitmap_insert i bm))"

definition new_from_auth_sign_infos ::
  "bool \<Rightarrow> ('sig, 'agg, 'pk, 'msg, 'bytes) crypto \<Rightarrow> 'sig authority_sign_info list \<Rightarrow>
     'pk committee \<Rightarrow> sui_error + 'agg authority_quorum_sign_info" where
  "new_from_auth_sign_infos strong cr infos c =
     (if \<not> (\<forall>a \<in> set infos. si_epoch a = c_epoch c)
      then Inl (InvalidSignature ''All signatures must be from the same epoch as the committee'')
      else let total_stake = sum_list (map (\<lambda>a. committee_weight c (si_authority a)) infos) in
        if \<not> committee_threshold strong \<le> total_stake
        then Inl (InvalidSignature ''Signatures don't have enough stake to form a quorum'')
        else let signatures = btree_collect (map (\<lambda>a. (si_authority a, si_signature a)) infos) in
          case signer_bitmap c (map fst signatures) [] of
            Inl e \<Rightarrow> Inl e
          | Inr bm \<Rightarrow>
              (case agg_aggregate cr (map snd signatures) of
                 None \<Rightarrow> Inl (InvalidSignature ''aggregation failed'')
               | Some agg \<Rightarrow>
                   Inr \<lparr>qs_epoch = c_epoch c, qs_signature = agg, qs_signers_map = bm\<rparr>))"

fun quorum_authorities ::
  "'agg authority_quorum_sign_info \<Rightarrow> 'pk committee \<Rightarrow> (sui_error + authority_name) list" where
  "quorum_authorities qs c =
     map (\<lambda>i. case authority_by_index c i of None \<Rightarrow> Inl InvalidAuthenticator | Some a \<Rightarrow> Inr a)
       (qs_signers_map qs)"

subsection \<open>What a verified certificate guarantees\<close>

definition quorum_signers :: "'agg authority_quorum_sign_info \<Rightarrow> 'pk committee \<Rightarrow> authority_name set" where
  "quorum_signers qs c = {a. \<exists>i \<in> set (qs_signers_map qs). authority_by_index c i = Some a}"

lemma authority_by_index_name:
  "authority_by_index c i = Some a \<Longrightarrow> a \<in> set (committee_names c)"
  by (auto simp: authority_by_index_def committee_names_def split: if_splits)

lemma authority_by_index_inj:
  assumes "committee_wf c" and "authority_by_index c i = Some a" and "authority_by_index c j = Some a"
  shows "i = j"
proof -
  have "distinct (map fst (c_voting_rights c))"
    using assms(1) btree_inv_distinct by (auto simp: committee_wf_def)
  moreover have "unat i < length (c_voting_rights c)" "unat j < length (c_voting_rights c)"
    "fst (c_voting_rights c ! unat i) = fst (c_voting_rights c ! unat j)"
    using assms(2,3) by (auto simp: authority_by_index_def split: if_splits)
  ultimately have "unat i = unat j"
    by (simp add: distinct_conv_nth) (metis nth_map)
  then show ?thesis by (simp add: word_unat_eq_iff)
qed

lemma add_signers_ok:
  assumes "add_signers c is w pks = Inr (w', pks')"
  shows "\<exists>as. map (authority_by_index c) is = map Some as \<and>
      w' = w + sum_list (map (committee_weight c) as) \<and>
      (\<forall>a \<in> set as. 0 < committee_weight c a) \<and>
      (\<exists>ks. map (public_key c) as = map Inr ks \<and> pks' = pks @ ks)"
  using assms
proof (induction "is" arbitrary: w pks)
  case Nil
  then show ?case by (intro exI [of _ "[]"]) simp
next
  case (Cons i "is")
  from Cons.prems obtain a pk where
    a: "authority_by_index c i = Some a" "0 < committee_weight c a" "public_key c a = Inr pk"
    and rest: "add_signers c is (w + committee_weight c a) (pks @ [pk]) = Inr (w', pks')"
    by (auto simp: Let_def split: option.splits if_splits sum.splits)
  from Cons.IH [OF rest] obtain as ks where
    "map (authority_by_index c) is = map Some as"
    "w' = w + committee_weight c a + sum_list (map (committee_weight c) as)"
    "\<forall>a \<in> set as. 0 < committee_weight c a"
    "map (public_key c) as = map Inr ks" "pks' = pks @ [pk] @ ks"
    by auto
  with a show ?case
    by (intro exI [of _ "a # as"]) (auto simp: add.assoc intro: exI [of _ "pk # ks"])
qed

text \<open>
  The wrapping sum of the signers' weights is exact, because the signers are distinct members
  of a committee of total stake 10,000.
\<close>

lemma distinct_members_weight:
  assumes "committee_wf c" and "distinct as" and "set as \<subseteq> set (committee_names c)"
  shows "unat (sum_list (map (committee_weight c) as)) =
      sum (\<lambda>a. unat (committee_weight c a)) (set as)"
    and "sum (\<lambda>a. unat (committee_weight c a)) (set as) \<le> 10000"
proof -
  have sum: "sum_list (map unat (map (committee_weight c) as)) =
      sum (\<lambda>a. unat (committee_weight c a)) (set as)"
    using assms(2) by (simp add: sum_list_distinct_conv_sum_set comp_def)
  have "sum (\<lambda>a. unat (committee_weight c a)) (set as) \<le>
      sum (\<lambda>a. unat (committee_weight c a)) (set (committee_names c))"
    using assms(3) by (intro sum_mono2) auto
  then show le: "sum (\<lambda>a. unat (committee_weight c a)) (set as) \<le> 10000"
    by (simp add: committee_total_stake [OF assms(1)] voting_constants)
  with sum have "sum_list (map unat (map (committee_weight c) as)) < 2 ^ LENGTH(64)"
    by simp
  from unat_sum_list_exact [OF this] show
    "unat (sum_list (map (committee_weight c) as)) = sum (\<lambda>a. unat (committee_weight c a)) (set as)"
    by (simp only: sum)
qed

lemma quorum_verify_secure_ok:
  assumes "quorum_verify_secure strong cr qs data c = Inr u"
  shows "qs_epoch qs = c_epoch c"
    and "\<exists>w pks. add_signers c (qs_signers_map qs) 0 [] = Inr (w, pks) \<and>
      committee_threshold strong \<le> w \<and>
      (\<exists>agg. agg_add_aggregate cr (agg_default cr) (qs_signature qs) = Some agg \<and>
        batch_verify cr [agg] [pks] [intent_bytes cr data (c_epoch c)])"
proof -
  from assms obtain ob where
    ob: "quorum_add_to_obligation strong cr qs c 0 \<lparr>vo_messages = [intent_bytes cr data (qs_epoch qs)],
      vo_signatures = [agg_default cr], vo_public_keys = [[]]\<rparr> = Inr ob" "verify_all cr ob = Inr u"
    by (simp add: quorum_verify_secure_def add_message_def obligation_default_def split: sum.splits)
  show ep: "qs_epoch qs = c_epoch c"
    using ob(1) by (simp add: quorum_add_to_obligation_def split: if_splits)
  with ob(1) obtain agg w pks where *:
    "agg_add_aggregate cr (agg_default cr) (qs_signature qs) = Some agg"
    "add_signers c (qs_signers_map qs) 0 [] = Inr (w, pks)" "committee_threshold strong \<le> w"
    "ob = \<lparr>vo_messages = [intent_bytes cr data (qs_epoch qs)],
      vo_signatures = [agg], vo_public_keys = [pks]\<rparr>"
    by (simp add: quorum_add_to_obligation_def Let_def split: option.splits sum.splits prod.splits if_splits)
  then show "\<exists>w pks. add_signers c (qs_signers_map qs) 0 [] = Inr (w, pks) \<and>
      committee_threshold strong \<le> w \<and>
      (\<exists>agg. agg_add_aggregate cr (agg_default cr) (qs_signature qs) = Some agg \<and>
        batch_verify cr [agg] [pks] [intent_bytes cr data (c_epoch c)])"
    using ob(2) ep by (auto simp: verify_all_def split: if_splits)
qed

lemma signers_distinct:
  assumes "committee_wf c" and "bitmap_inv is" and "map (authority_by_index c) is = map Some as"
  shows "distinct as"
  unfolding distinct_conv_nth
proof (intro allI impI)
  have len: "length as = length is"
    using arg_cong [OF assms(3), of length] by simp
  fix i j assume ij: "i < length as" "j < length as" "i \<noteq> j"
  then have ne: "is ! i \<noteq> is ! j"
    using assms(2) len by (simp add: bitmap_inv_def nth_eq_iff_index_eq)
  have "authority_by_index c (is ! n) = Some (as ! n)" if "n < length as" for n
    using arg_cong [OF assms(3), of "\<lambda>xs. xs ! n"] that len by simp
  with ij ne authority_by_index_inj [OF assms(1)] show "as ! i \<noteq> as ! j" by metis
qed

lemma quorum_signers_stake:
  assumes "committee_wf c" and "bitmap_inv (qs_signers_map qs)"
    and "quorum_verify_secure strong cr qs data c = Inr u"
  shows "quorum_signers qs c \<subseteq> set (committee_names c)"
    and "unat (committee_threshold strong) \<le>
      sum (\<lambda>a. unat (committee_weight c a)) (quorum_signers qs c)"
proof -
  show sub: "quorum_signers qs c \<subseteq> set (committee_names c)"
    by (auto simp: quorum_signers_def dest: authority_by_index_name)
  obtain w pks where w: "add_signers c (qs_signers_map qs) 0 [] = Inr (w, pks)"
    "committee_threshold strong \<le> w"
    using quorum_verify_secure_ok(2) [OF assms(3)] by blast
  from add_signers_ok [OF w(1)] obtain as where
    as: "map (authority_by_index c) (qs_signers_map qs) = map Some as"
      "w = sum_list (map (committee_weight c) as)"
    by auto
  have set_as: "set as = quorum_signers qs c"
  proof -
    have "Some ` set as = authority_by_index c ` set (qs_signers_map qs)"
      using arg_cong [OF as(1), of set] by simp
    then show ?thesis by (force simp: quorum_signers_def)
  qed
  have "distinct as" by (rule signers_distinct [OF assms(1,2) as(1)])
  from distinct_members_weight(1) [OF assms(1) this] sub set_as as(2) w(2)
  show "unat (committee_threshold strong) \<le>
      sum (\<lambda>a. unat (committee_weight c a)) (quorum_signers qs c)"
    by (simp add: word_le_nat_alt)
qed

subsection \<open>Properties of verified certificates\<close>

text \<open>
  An instance of the cryptography: a signature is valid when it equals the signer's public
  key, aggregates are sums, and a batch is valid when every aggregate is the sum of its keys.
\<close>

definition toy_crypto :: "(nat, nat, nat, string, string \<times> epoch_id) crypto" where
  "toy_crypto =
     \<lparr>agg_default = 0,
      agg_add_signature = (\<lambda>agg sig. Some (agg + sig)),
      agg_add_aggregate = (\<lambda>agg sig. Some (agg + sig)),
      agg_aggregate = (\<lambda>sigs. Some (sum_list sigs)),
      batch_verify = (\<lambda>aggs pks msgs. aggs = map sum_list pks),
      intent_bytes = (\<lambda>msg epoch. (msg, epoch))\<rparr>"

text \<open>
  C17.  A quorum certificate that passes \<open>verify_secure\<close> is of the committee's epoch, every bit of
  its signer map denotes a committee member, those members hold at least the threshold stake,
  and the aggregate signature was checked against exactly the members' public keys and the
  message in that epoch.
\<close>

theorem verified_certificate_has_quorum:
  assumes "committee_wf c" and "bitmap_inv (qs_signers_map qs)"
    and "quorum_verify_secure strong cr qs data c = Inr ()"
  shows "qs_epoch qs = c_epoch c \<and>
    (\<exists>signers pks agg.
       map (authority_by_index c) (qs_signers_map qs) = map Some signers \<and>
       distinct signers \<and> set signers \<subseteq> set (committee_names c) \<and>
       unat (committee_threshold strong) \<le> (\<Sum>a\<leftarrow>signers. unat (committee_weight c a)) \<and>
       map (public_key c) signers = map Inr pks \<and>
       agg_add_aggregate cr (agg_default cr) (qs_signature qs) = Some agg \<and>
       batch_verify cr [agg] [pks] [intent_bytes cr data (c_epoch c)])"
proof -
  obtain w pks agg where w: "add_signers c (qs_signers_map qs) 0 [] = Inr (w, pks)"
    "committee_threshold strong \<le> w"
    "agg_add_aggregate cr (agg_default cr) (qs_signature qs) = Some agg"
    "batch_verify cr [agg] [pks] [intent_bytes cr data (c_epoch c)]"
    using quorum_verify_secure_ok(2) [OF assms(3)] by blast
  from add_signers_ok [OF w(1)] obtain as where
    as: "map (authority_by_index c) (qs_signers_map qs) = map Some as"
      "w = sum_list (map (committee_weight c) as)" "map (public_key c) as = map Inr pks"
    by auto
  have d: "distinct as" by (rule signers_distinct [OF assms(1,2) as(1)])
  have sub: "set as \<subseteq> set (committee_names c)"
    using arg_cong [OF as(1), of set] authority_by_index_name [of c] by (force simp: image_iff)
  have "unat (committee_threshold strong) \<le> (\<Sum>a\<leftarrow>as. unat (committee_weight c a))"
    using distinct_members_weight(1) [OF assms(1) d sub] w(2) d
    by (simp add: as(2) word_le_nat_alt distinct_sum_list_set)
  then show ?thesis
    using quorum_verify_secure_ok(1) [OF assms(3)] as(1,3) d sub w(3,4) by blast
qed

theorem verified_certificate_has_quorum_witness:
  "qs_epoch \<lparr>qs_epoch = 7, qs_signature = 39 :: nat, qs_signers_map = [1, 2, 3]\<rparr> = c_epoch four_authorities \<and>
    (\<exists>signers pks agg.
       map (authority_by_index four_authorities) [1, 2, 3] = map Some signers \<and>
       distinct signers \<and> set signers \<subseteq> set (committee_names four_authorities) \<and>
       unat (committee_threshold True) \<le> (\<Sum>a\<leftarrow>signers. unat (committee_weight four_authorities a)) \<and>
       map (public_key four_authorities) signers = map Inr pks \<and>
       agg_add_aggregate toy_crypto (agg_default toy_crypto) 39 = Some agg \<and>
       batch_verify toy_crypto [agg] [pks] [intent_bytes toy_crypto ''tx'' (c_epoch four_authorities)])"
proof -
  have "bitmap_inv (qs_signers_map \<lparr>qs_epoch = 7, qs_signature = 39 :: nat, qs_signers_map = [1, 2, 3]\<rparr>)"
    by (simp add: bitmap_inv_def)
  moreover have "quorum_verify_secure True toy_crypto
      \<lparr>qs_epoch = 7, qs_signature = 39 :: nat, qs_signers_map = [1, 2, 3]\<rparr> ''tx'' four_authorities = Inr ()"
    by code_simp
  ultimately show ?thesis
    using verified_certificate_has_quorum [OF four_authorities_wf] by fastforce
qed

text \<open>
  C1.  Two certificates that verify at quorum strength against the same committee, for
  whatever messages, share a signer outside any coalition whose stake is below the validity
  threshold: no two conflicting certificates can exist unless an honest authority signed both.
\<close>

theorem certificates_share_honest_signer:
  assumes "committee_new expand_key ep vr = Some c" and "btree_inv vr"
    and "sum_list (map (unat \<circ> snd) vr) < 2 ^ 64"
    and "bitmap_inv (qs_signers_map q1)" and "bitmap_inv (qs_signers_map q2)"
    and "quorum_verify_secure True cr q1 data1 c = Inr ()"
    and "quorum_verify_secure True cr q2 data2 c = Inr ()"
    and "finite F" and "(\<Sum>a\<in>F. unat (committee_weight c a)) < unat VALIDITY_THRESHOLD"
  shows "\<exists>a \<in> quorum_signers q1 c \<inter> quorum_signers q2 c. a \<in> set (committee_names c) \<and> a \<notin> F"
proof -
  have wf: "committee_wf c" by (rule committee_new_wf [OF assms(1-3)])
  note s1 = quorum_signers_stake [OF wf assms(4,6)]
  note s2 = quorum_signers_stake [OF wf assms(5,7)]
  have "\<exists>a \<in> quorum_signers q1 c \<inter> quorum_signers q2 c. a \<notin> F"
    using assms(9) by (intro sui.honest_in_both [OF wf s1(1) s2(1) s1(2) s2(2) _ assms(8)])
      (simp add: committee_threshold_def)
  with s1(1) show ?thesis by blast
qed

theorem certificates_share_honest_signer_witness:
  "\<exists>a \<in> quorum_signers \<lparr>qs_epoch = 7, qs_signature = 36 :: nat, qs_signers_map = [0, 1, 2]\<rparr> four_authorities \<inter>
      quorum_signers \<lparr>qs_epoch = 7, qs_signature = 39 :: nat, qs_signers_map = [1, 2, 3]\<rparr> four_authorities.
      a \<in> set (committee_names four_authorities) \<and> a \<notin> {2}"
proof (rule certificates_share_honest_signer [OF four_authorities_new])
  show "quorum_verify_secure True toy_crypto
      \<lparr>qs_epoch = 7, qs_signature = 36 :: nat, qs_signers_map = [0, 1, 2]\<rparr> ''tx1'' four_authorities = Inr ()"
    by code_simp
  show "quorum_verify_secure True toy_crypto
      \<lparr>qs_epoch = 7, qs_signature = 39 :: nat, qs_signers_map = [1, 2, 3]\<rparr> ''tx2'' four_authorities = Inr ()"
    by code_simp
  show "(\<Sum>a\<in>{2}. unat (committee_weight four_authorities a)) < unat VALIDITY_THRESHOLD"
    by code_simp
qed (simp_all add: btree_inv_def bitmap_inv_def)

end
