(* ===== verification/Stake_Aggregator.thy ===== *)
theory Stake_Aggregator
  imports Authority_Signatures
begin

section \<open>Aggregating votes into certificates\<close>

text \<open>
  Models \<open>src/crates/sui-core/src/stake_aggregator.rs\<close>: \<open>StakeAggregator\<close> with its generic and
  its signature-checking insert, \<open>MultiStakeAggregator\<close> and \<open>GenericMultiStakeAggregator\<close>.  The
  const generic \<open>STRENGTH\<close> is the boolean argument \<open>strength\<close>.  The equality on vote payloads
  (\<open>S: Eq\<close>) is an argument because \<open>AuthoritySignInfo\<close> has its own.
\<close>

datatype 'cert insert_result =
    QuorumReached 'cert
  | Failed sui_error
  | NotEnoughVotes stake_unit "authority_name list"

fun is_quorum_reached :: "'cert insert_result \<Rightarrow> bool" where
  "is_quorum_reached (QuorumReached _) = True"
| "is_quorum_reached _ = False"

record ('s, 'pk) stake_aggregator =
  sa_data :: "(authority_name, 's) hash_map"
  sa_total_votes :: stake_unit
  sa_committee :: "'pk committee"

definition stake_aggregator_new :: "'pk committee \<Rightarrow> ('s, 'pk) stake_aggregator" where
  "stake_aggregator_new c = \<lparr>sa_data = [], sa_total_votes = 0, sa_committee = c\<rparr>"

definition contains_key :: "('s, 'pk) stake_aggregator \<Rightarrow> authority_name \<Rightarrow> bool" where
  "contains_key agg authority = (map_of (sa_data agg) authority \<noteq> None)"

definition has_quorum :: "bool \<Rightarrow> ('s, 'pk) stake_aggregator \<Rightarrow> bool" where
  "has_quorum strength agg = (committee_threshold strength \<le> sa_total_votes agg)"

definition validator_sig_count :: "('s, 'pk) stake_aggregator \<Rightarrow> nat" where
  "validator_sig_count agg = length (sa_data agg)"

definition insert_generic ::
  "bool \<Rightarrow> ('s \<Rightarrow> 's \<Rightarrow> bool) \<Rightarrow> authority_name \<Rightarrow> 's \<Rightarrow> ('s, 'pk) stake_aggregator \<Rightarrow>
     (authority_name, 's) hash_map insert_result \<times> ('s, 'pk) stake_aggregator" where
  "insert_generic strength eq authority s agg =
     (case map_of (sa_data agg) authority of
        Some old \<Rightarrow> (Failed (StakeAggregatorRepeatedSigner authority (eq old s)), agg)
      | None \<Rightarrow>
          (let agg = agg\<lparr>sa_data := AList.update authority s (sa_data agg)\<rparr>;
               votes = committee_weight (sa_committee agg) authority
           in if 0 < votes then
                (let agg = agg\<lparr>sa_total_votes := sa_total_votes agg + votes\<rparr> in
                 if committee_threshold strength \<le> sa_total_votes agg
                 then (QuorumReached (sa_data agg), agg)
                 else (NotEnoughVotes 0 [], agg))
              else (Failed InvalidAuthenticator, agg)))"

definition stake_aggregator_from_iter ::
  "bool \<Rightarrow> ('s \<Rightarrow> 's \<Rightarrow> bool) \<Rightarrow> 'pk committee \<Rightarrow> (authority_name \<times> 's) list \<Rightarrow>
     ('s, 'pk) stake_aggregator" where
  "stake_aggregator_from_iter strength eq c votes =
     fold (\<lambda>(authority, s) agg. snd (insert_generic strength eq authority s agg)) votes
       (stake_aggregator_new c)"

subsection \<open>Inserting a signed message\<close>

text \<open>
  The fallback loop: every recorded signature is verified on its own, and the invalid ones are
  removed together with their stake.
\<close>

fun drop_bad_votes ::
  "('sig, 'agg, 'pk, 'msg, 'bytes) crypto \<Rightarrow> 'msg \<Rightarrow>
     (authority_name \<times> 'sig authority_sign_info) list \<Rightarrow>
     ('sig authority_sign_info, 'pk) stake_aggregator \<Rightarrow> stake_unit \<Rightarrow> authority_name list \<Rightarrow>
     stake_unit \<times> authority_name list \<times> ('sig authority_sign_info, 'pk) stake_aggregator" where
  "drop_bad_votes cr data [] agg bad_votes bad_authorities = (bad_votes, bad_authorities, agg)"
| "drop_bad_votes cr data ((name, si) # rest) agg bad_votes bad_authorities =
     (case sign_info_verify_secure cr si data (sa_committee agg) of
        Inl err \<Rightarrow>
          (let votes = committee_weight (sa_committee agg) name;
               agg = agg\<lparr>sa_data := AList.delete name (sa_data agg),
                         sa_total_votes := sa_total_votes agg - votes\<rparr>
           in drop_bad_votes cr data rest agg (bad_votes + votes) (bad_authorities @ [name]))
      | Inr u \<Rightarrow> drop_bad_votes cr data rest agg bad_votes bad_authorities)"

definition stake_insert ::
  "bool \<Rightarrow> ('sig, 'agg, 'pk, 'msg, 'bytes) crypto \<Rightarrow> 'msg \<Rightarrow> 'sig authority_sign_info \<Rightarrow>
     ('sig authority_sign_info, 'pk) stake_aggregator \<Rightarrow>
     'agg authority_quorum_sign_info insert_result \<times>
     ('sig authority_sign_info, 'pk) stake_aggregator" where
  "stake_insert strength cr data si agg =
     (if c_epoch (sa_committee agg) \<noteq> si_epoch si
      then (Failed (WrongEpoch (c_epoch (sa_committee agg)) (si_epoch si)), agg)
      else case insert_generic strength sign_info_eq (si_authority si) si agg of
          (QuorumReached _, agg) \<Rightarrow>
            (case new_from_auth_sign_infos strength cr (map snd (sa_data agg)) (sa_committee agg) of
               Inr aggregated \<Rightarrow>
                 (case quorum_verify_secure strength cr aggregated data (sa_committee agg) of
                    Inr u \<Rightarrow> (QuorumReached aggregated, agg)
                  | Inl e \<Rightarrow>
                      (let (bad_votes, bad_authorities, agg) =
                             drop_bad_votes cr data (sa_data agg) agg 0 []
                       in (NotEnoughVotes bad_votes bad_authorities, agg)))
             | Inl error \<Rightarrow> (Failed error, agg))
        | (Failed error, agg) \<Rightarrow> (Failed error, agg)
        | (NotEnoughVotes bad_votes bad_authorities, agg) \<Rightarrow>
            (NotEnoughVotes bad_votes bad_authorities, agg))"

subsection \<open>Several values at once\<close>

record ('k, 'v, 'sig, 'pk) multi_stake_aggregator =
  ms_committee :: "'pk committee"
  ms_stake_maps :: "('k, 'v \<times> ('sig authority_sign_info, 'pk) stake_aggregator) hash_map"

definition multi_new :: "'pk committee \<Rightarrow> ('k, 'v, 'sig, 'pk) multi_stake_aggregator" where
  "multi_new c = \<lparr>ms_committee = c, ms_stake_maps = []\<rparr>"

definition unique_key_count :: "('k, 'v, 'sig, 'pk) multi_stake_aggregator \<Rightarrow> nat" where
  "unique_key_count m = length (ms_stake_maps m)"

definition multi_total_votes :: "('k, 'v, 'sig, 'pk) multi_stake_aggregator \<Rightarrow> stake_unit" where
  "multi_total_votes m = sum_list (map (\<lambda>(_, _, agg). sa_total_votes agg) (ms_stake_maps m))"

definition multi_insert ::
  "bool \<Rightarrow> ('sig, 'agg, 'pk, 'msg, 'bytes) crypto \<Rightarrow> 'k \<Rightarrow> 'msg \<Rightarrow> 'sig authority_sign_info \<Rightarrow>
     ('k, 'msg, 'sig, 'pk) multi_stake_aggregator \<Rightarrow>
     'agg authority_quorum_sign_info insert_result \<times> ('k, 'msg, 'sig, 'pk) multi_stake_aggregator" where
  "multi_insert strength cr k data si m =
     (case map_of (ms_stake_maps m) k of
        Some (v, entry) \<Rightarrow>
          (let (result, entry) = stake_insert strength cr data si entry
           in (result, m\<lparr>ms_stake_maps := AList.update k (v, entry) (ms_stake_maps m)\<rparr>))
      | None \<Rightarrow>
          (let (result, new_entry) =
                 stake_insert strength cr data si (stake_aggregator_new (ms_committee m))
           in case result of
                Failed _ \<Rightarrow> (result, m)
              | _ \<Rightarrow> (result,
                  m\<lparr>ms_stake_maps := AList.update k (data, new_entry) (ms_stake_maps m)\<rparr>)))"

definition get_all_unique_values ::
  "('k::linorder, 'v, 'sig, 'pk) multi_stake_aggregator \<Rightarrow>
     ('k, authority_name list \<times> stake_unit) btree_map" where
  "get_all_unique_values m =
     btree_collect (map (\<lambda>(k, _, s). (k, map fst (sa_data s), sa_total_votes s)) (ms_stake_maps m))"

record ('k, 'pk) generic_multi_stake_aggregator =
  gm_committee :: "'pk committee"
  gm_stake_maps :: "('k, (unit, 'pk) stake_aggregator) hash_map"
  gm_votes_per_authority :: "(authority_name, u64) hash_map"

definition generic_multi_new :: "'pk committee \<Rightarrow> ('k, 'pk) generic_multi_stake_aggregator" where
  "generic_multi_new c =
     \<lparr>gm_committee = c, gm_stake_maps = [], gm_votes_per_authority = []\<rparr>"

definition votes_for_authority ::
  "('k, 'pk) generic_multi_stake_aggregator \<Rightarrow> authority_name \<Rightarrow> u64" where
  "votes_for_authority g authority =
     (case map_of (gm_votes_per_authority g) authority of None \<Rightarrow> 0 | Some n \<Rightarrow> n)"

definition generic_multi_insert ::
  "bool \<Rightarrow> authority_name \<Rightarrow> 'k \<Rightarrow> ('k, 'pk) generic_multi_stake_aggregator \<Rightarrow>
     (authority_name, unit) hash_map insert_result \<times> ('k, 'pk) generic_multi_stake_aggregator" where
  "generic_multi_insert strength authority k g =
     (let agg = (case map_of (gm_stake_maps g) k of
                   Some agg \<Rightarrow> agg
                 | None \<Rightarrow> stake_aggregator_new (gm_committee g));
          votes = (if \<not> contains_key agg authority
                   then AList.update authority (votes_for_authority g authority + 1)
                     (gm_votes_per_authority g)
                   else gm_votes_per_authority g);
          (result, agg) = insert_generic strength (\<lambda>_ _. True) authority () agg
      in (result, g\<lparr>gm_votes_per_authority := votes,
                    gm_stake_maps := AList.update k agg (gm_stake_maps g)\<rparr>))"

definition has_quorum_for_key ::
  "bool \<Rightarrow> ('k, 'pk) generic_multi_stake_aggregator \<Rightarrow> 'k \<Rightarrow> bool" where
  "has_quorum_for_key strength g k =
     (case map_of (gm_stake_maps g) k of
        Some entry \<Rightarrow> has_quorum strength entry
      | None \<Rightarrow> False)"

subsection \<open>The invariant of an aggregator\<close>

definition voters :: "('s, 'pk) stake_aggregator \<Rightarrow> authority_name set" where
  "voters agg = fst ` set (sa_data agg)"

definition voters_stake :: "'pk committee \<Rightarrow> authority_name set \<Rightarrow> nat" where
  "voters_stake c A = sum (\<lambda>a. unat (committee_weight c a)) A"

definition agg_inv :: "'pk committee \<Rightarrow> ('s, 'pk) stake_aggregator \<Rightarrow> bool" where
  "agg_inv c agg \<longleftrightarrow>
     sa_committee agg = c \<and> hash_inv (sa_data agg) \<and>
     unat (sa_total_votes agg) = voters_stake c (voters agg)"

lemma finite_voters [simp]: "finite (voters agg)"
  by (simp add: voters_def)

lemma map_of_voters: "map_of (sa_data agg) a = None \<longleftrightarrow> a \<notin> voters agg"
  by (simp add: voters_def map_of_eq_None_iff)

lemma voters_stake_insert:
  "finite A \<Longrightarrow> a \<notin> A \<Longrightarrow> voters_stake c (insert a A) = unat (committee_weight c a) + voters_stake c A"
  by (simp add: voters_stake_def)

lemma voters_stake_bound:
  assumes "committee_wf c" and "finite A"
  shows "voters_stake c A \<le> 10000"
proof -
  have "voters_stake c A = voters_stake c (A \<inter> set (committee_names c))"
    unfolding voters_stake_def
    using assms committee_weight_nonmember [OF assms(1)]
    by (intro sum.mono_neutral_right) auto
  also have "\<dots> \<le> sum (\<lambda>a. unat (committee_weight c a)) (set (committee_names c))"
    unfolding voters_stake_def by (intro sum_mono2) auto
  finally show ?thesis
    by (simp add: committee_total_stake [OF assms(1)] voting_constants)
qed

lemma agg_inv_new: "agg_inv c (stake_aggregator_new c)"
  by (simp add: agg_inv_def stake_aggregator_new_def hash_inv_def voters_def voters_stake_def)

text \<open>The four ways \<open>insert_generic\<close> can end.\<close>

lemma insert_generic_cases:
  assumes "insert_generic strength eq a s agg = (r, agg')"
  obtains (repeated) old where "map_of (sa_data agg) a = Some old" and "agg' = agg"
      and "r = Failed (StakeAggregatorRepeatedSigner a (eq old s))"
  | (unknown) "a \<notin> voters agg" and "committee_weight (sa_committee agg) a = 0"
      and "r = Failed InvalidAuthenticator"
      and "agg' = agg\<lparr>sa_data := AList.update a s (sa_data agg)\<rparr>"
  | (counted) "a \<notin> voters agg" and "0 < committee_weight (sa_committee agg) a"
      and "agg' = agg\<lparr>sa_data := AList.update a s (sa_data agg),
        sa_total_votes := sa_total_votes agg + committee_weight (sa_committee agg) a\<rparr>"
      and "r = (if committee_threshold strength \<le> sa_total_votes agg'
                then QuorumReached (sa_data agg') else NotEnoughVotes 0 [])"
proof (cases "map_of (sa_data agg) a")
  case (Some old)
  with assms show ?thesis by (intro repeated) (auto simp: insert_generic_def)
next
  case None
  then have fresh: "a \<notin> voters agg" by (simp add: map_of_voters)
  show ?thesis
  proof (cases "0 < committee_weight (sa_committee agg) a")
    case True
    with None fresh assms show ?thesis
      by (intro counted) (auto simp: insert_generic_def Let_def split: if_splits)
  next
    case False
    with None fresh assms show ?thesis
      by (intro unknown) (auto simp: insert_generic_def Let_def word_gt_0)
  qed
qed

lemma voters_update: "voters (agg\<lparr>sa_data := AList.update a s (sa_data agg)\<rparr>) = insert a (voters agg)"
  by (simp add: voters_def dom_update flip: dom_map_of_conv_image_fst)
    (simp add: dom_map_of_conv_image_fst update_conv' dom_fun_upd)

lemma insert_generic_committee:
  "insert_generic strength eq a s agg = (r, agg') \<Longrightarrow> sa_committee agg' = sa_committee agg"
  by (erule insert_generic_cases) auto

lemma insert_generic_inv:
  assumes "agg_inv c agg" and "committee_wf c"
    and "insert_generic strength eq a s agg = (r, agg')"
  shows "agg_inv c agg'"
  using assms(3)
proof (cases rule: insert_generic_cases)
  case repeated
  with assms(1) show ?thesis by simp
next
  case unknown
  then show ?thesis
    using assms(1) voters_update [of a s agg]
    by (simp add: agg_inv_def hash_inv_def distinct_update voters_stake_insert)
next
  case counted
  let ?agg = "agg\<lparr>sa_data := AList.update a s (sa_data agg)\<rparr>"
  have c: "sa_committee agg = c" using assms(1) by (simp add: agg_inv_def)
  have v: "voters agg' = insert a (voters agg)"
    using counted(3) voters_update [of a s agg] by (simp add: voters_def)
  then have stake: "voters_stake c (voters agg') =
      unat (committee_weight c a) + unat (sa_total_votes agg)"
    using counted(1) assms(1) by (simp add: voters_stake_insert agg_inv_def)
  have "unat (committee_weight c a) + unat (sa_total_votes agg) \<le> 10000"
    using voters_stake_bound [OF assms(2), of "voters agg'"] stake by simp
  then have "unat (sa_total_votes agg + committee_weight c a) =
      unat (committee_weight c a) + unat (sa_total_votes agg)"
    by (simp add: unat_word_ariths)
  with stake counted(3) c assms(1) show ?thesis
    by (simp add: agg_inv_def hash_inv_def distinct_update)
qed


definition bad_voters ::
  "('sig, 'agg, 'pk, 'msg, 'bytes) crypto \<Rightarrow> 'msg \<Rightarrow> 'pk committee \<Rightarrow>
     (authority_name \<times> 'sig authority_sign_info) list \<Rightarrow> authority_name set" where
  "bad_voters cr data c entries =
     {n. \<exists>si. (n, si) \<in> set entries \<and> isl (sign_info_verify_secure cr si data c)}"

lemma voters_delete: "voters (agg\<lparr>sa_data := AList.delete a (sa_data agg)\<rparr>) = voters agg - {a}"
  by (auto simp: voters_def AList.delete_eq)

lemma bad_voters_sub: "bad_voters cr data c entries \<subseteq> fst ` set entries"
  by (force simp: bad_voters_def)

lemma drop_bad_votes_spec:
  assumes "agg_inv c agg" and "committee_wf c"
    and "distinct (map fst entries)" and "fst ` set entries \<subseteq> voters agg"
    and "drop_bad_votes cr data entries agg bv ba = (bv', ba', agg')"
    and "unat bv + voters_stake c (bad_voters cr data c entries) \<le> 10000"
  shows "agg_inv c agg' \<and> voters agg' = voters agg - bad_voters cr data c entries \<and>
    set ba' = set ba \<union> bad_voters cr data c entries \<and>
    unat bv' = unat bv + voters_stake c (bad_voters cr data c entries)"
  using assms
proof (induction entries arbitrary: agg bv ba)
  case Nil
  then show ?case by (simp add: bad_voters_def voters_stake_def)
next
  case (Cons e entries)
  obtain n si where e: "e = (n, si)" by (cases e)
  have c: "sa_committee agg = c" using Cons.prems(1) by (simp add: agg_inv_def)
  have fresh: "n \<notin> bad_voters cr data c entries"
    using Cons.prems(3) bad_voters_sub [of cr data c entries] by (auto simp: e)
  show ?case
  proof (cases "sign_info_verify_secure cr si data c")
    case (Inr u)
    then have bad: "bad_voters cr data c ((n, si) # entries) = bad_voters cr data c entries"
      by (auto simp: bad_voters_def)
    from Inr Cons.prems show ?thesis
      using Cons.IH [of agg bv ba] by (simp add: e c bad)
  next
    case (Inl err)
    let ?v = "committee_weight c n"
    let ?agg = "agg\<lparr>sa_data := AList.delete n (sa_data agg), sa_total_votes := sa_total_votes agg - ?v\<rparr>"
    have bad: "bad_voters cr data c (e # entries) = insert n (bad_voters cr data c entries)"
      using Inl by (auto simp: e bad_voters_def)
    have fin: "finite (bad_voters cr data c entries)"
      by (rule finite_subset [OF bad_voters_sub]) simp
    have v: "voters ?agg = voters agg - {n}"
      using voters_delete [of n agg] by (simp add: voters_def)
    have "n \<in> voters agg" using Cons.prems(4) by (simp add: e)
    then have split: "voters_stake c (voters agg) = unat ?v + voters_stake c (voters agg - {n})"
      by (simp add: voters_stake_def sum.remove)
    then have "?v \<le> sa_total_votes agg"
      using Cons.prems(1) by (simp add: agg_inv_def word_le_nat_alt)
    then have total: "unat (sa_total_votes agg - ?v) = voters_stake c (voters ?agg)"
      using Cons.prems(1) split v by (simp add: agg_inv_def unat_sub)
    have inv: "agg_inv c ?agg"
      using Cons.prems(1) total
      by (simp add: agg_inv_def hash_inv_def distinct_delete v voters_def)
    have stake: "voters_stake c (bad_voters cr data c (e # entries)) =
        unat ?v + voters_stake c (bad_voters cr data c entries)"
      by (simp add: bad voters_stake_insert [OF fin fresh])
    then have bv: "unat (bv + ?v) = unat bv + unat ?v"
      using Cons.prems(6) by (simp add: unat_word_ariths)
    have "fst ` set entries \<subseteq> voters ?agg"
      using Cons.prems(3,4) v by (auto simp: e)
    moreover have "drop_bad_votes cr data entries ?agg (bv + ?v) (ba @ [n]) = (bv', ba', agg')"
      using Cons.prems(5) Inl by (simp add: e c Let_def)
    moreover have "unat (bv + ?v) + voters_stake c (bad_voters cr data c entries) \<le> 10000"
      using Cons.prems(6) stake bv by simp
    ultimately have "agg_inv c agg' \<and> voters agg' = voters ?agg - bad_voters cr data c entries \<and>
        set ba' = set (ba @ [n]) \<union> bad_voters cr data c entries \<and>
        unat bv' = unat (bv + ?v) + voters_stake c (bad_voters cr data c entries)"
      using Cons.IH [OF inv Cons.prems(2)] Cons.prems(3) by simp
    then show ?thesis
      using v bad stake bv by auto
  qed
qed

text \<open>What the entries of a reachable aggregator look like, and the outcomes of an insert.\<close>

definition signed_entries :: "('sig authority_sign_info, 'pk) stake_aggregator \<Rightarrow> bool" where
  "signed_entries agg \<longleftrightarrow>
     (\<forall>(a, si) \<in> set (sa_data agg). si_authority si = a \<and> si_epoch si = c_epoch (sa_committee agg))"

lemma fst_set_btree_collect: "fst ` set (btree_collect kvs) = fst ` set kvs"
proof -
  have "dom (map_of (btree_collect kvs)) = dom (map_of (rev kvs))"
    by (simp add: btree_collect_lookup)
  then show ?thesis by (simp add: dom_map_of_conv_image_fst)
qed

lemma signer_bitmap_ok:
  assumes "signer_bitmap c pks bm = Inr bm'" and "bitmap_inv bm"
  shows "bitmap_inv bm' \<and> set bm' = set bm \<union> {i. \<exists>a \<in> set pks. authority_index c a = Some i} \<and>
    (\<forall>a \<in> set pks. authority_index c a \<noteq> None)"
  using assms
proof (induction pks arbitrary: bm)
  case Nil
  then show ?case by simp
next
  case (Cons a pks)
  then obtain i where i: "authority_index c a = Some i" "signer_bitmap c pks (bitmap_insert i bm) = Inr bm'"
    by (auto split: option.splits)
  from Cons.IH [OF i(2)] Cons.prems(2) i(1) show ?case by auto
qed

lemma authority_index_None:
  "committee_wf c \<Longrightarrow> authority_index c a = None \<longleftrightarrow> a \<notin> set (committee_names c)"
proof -
  assume wf: "committee_wf c"
  have "authority_index c a = None \<longleftrightarrow> (\<forall>i. map_of (c_index_map c) a \<noteq> Some i)"
    by (simp add: authority_index_def)
  also have "\<dots> \<longleftrightarrow> (\<forall>i < length (c_voting_rights c). fst (c_voting_rights c ! i) \<noteq> a)"
    by (simp add: committee_index_map [OF wf])
  also have "\<dots> \<longleftrightarrow> a \<notin> set (committee_names c)"
    using all_set_conv_all_nth [of "c_voting_rights c" "\<lambda>e. fst e \<noteq> a"]
    by (auto simp: committee_names_def)
  finally show ?thesis .
qed

lemma authority_index_inverse:
  assumes "committee_wf c" and "length (c_voting_rights c) \<le> 2 ^ 32"
    and "authority_index c a = Some i"
  shows "authority_by_index c i = Some a"
proof -
  obtain n where n: "map_of (c_index_map c) a = Some n" "i = of_nat n"
    using assms(3) by (auto simp: authority_index_def)
  then have "n < length (c_voting_rights c)" "fst (c_voting_rights c ! n) = a"
    using committee_index_map [OF assms(1)] by auto
  moreover have "unat i = n"
    using n(2) assms(2) \<open>n < length (c_voting_rights c)\<close> by (simp add: unat_of_nat)
  ultimately show ?thesis by (simp add: authority_by_index_def)
qed

lemma new_from_auth_sign_infos_ok:
  assumes "new_from_auth_sign_infos strength cr infos c = Inr q"
    and "committee_wf c" and "length (c_voting_rights c) \<le> 2 ^ 32"
  shows "qs_epoch q = c_epoch c" and "bitmap_inv (qs_signers_map q)"
    and "quorum_signers q c = si_authority ` set infos"
    and "si_authority ` set infos \<subseteq> set (committee_names c)"
proof -
  let ?sigs = "btree_collect (map (\<lambda>a. (si_authority a, si_signature a)) infos)"
  obtain bm where bm: "signer_bitmap c (map fst ?sigs) [] = Inr bm"
    "qs_signers_map q = bm" "qs_epoch q = c_epoch c"
    using assms(1)
    by (auto simp: new_from_auth_sign_infos_def Let_def split: if_splits sum.splits option.splits)
  then show "qs_epoch q = c_epoch c" by simp
  have keys: "set (map fst ?sigs) = si_authority ` set infos"
    by (simp add: fst_set_btree_collect image_image)
  from signer_bitmap_ok [OF bm(1)] have ok: "bitmap_inv bm"
    "set bm = {i. \<exists>a \<in> si_authority ` set infos. authority_index c a = Some i}"
    "\<forall>a \<in> si_authority ` set infos. authority_index c a \<noteq> None"
    unfolding keys by simp_all
  then show "bitmap_inv (qs_signers_map q)" by (simp add: bm(2))
  show "si_authority ` set infos \<subseteq> set (committee_names c)"
    using ok(3) authority_index_None [OF assms(2)] by blast
  have "\<exists>i \<in> set bm. authority_by_index c i = Some a" if "a \<in> si_authority ` set infos" for a
    using that ok(2,3) authority_index_inverse [OF assms(2,3)] by blast
  moreover have "a \<in> si_authority ` set infos"
    if "i \<in> set bm" and "authority_by_index c i = Some a" for i a
    using that ok(2) authority_index_inverse [OF assms(2,3)] by auto
  ultimately show "quorum_signers q c = si_authority ` set infos"
    by (auto simp: quorum_signers_def bm(2))
qed

text \<open>The ways \<open>StakeAggregator::insert\<close> can end.\<close>

lemma stake_insert_cases:
  assumes "stake_insert strength cr data si agg = (r, agg')"
  obtains (wrong_epoch) "c_epoch (sa_committee agg) \<noteq> si_epoch si" and "agg' = agg"
      and "r = Failed (WrongEpoch (c_epoch (sa_committee agg)) (si_epoch si))"
  | (not_added) g where "c_epoch (sa_committee agg) = si_epoch si"
      and "insert_generic strength sign_info_eq (si_authority si) si agg = (g, agg')"
      and "\<not> is_quorum_reached g" and "\<not> is_quorum_reached r"
      and "\<And>e. g = Failed e \<Longrightarrow> r = Failed e"
      and "\<And>b bs. g = NotEnoughVotes b bs \<Longrightarrow> r = NotEnoughVotes b bs"
  | (no_certificate) d e where "c_epoch (sa_committee agg) = si_epoch si"
      and "insert_generic strength sign_info_eq (si_authority si) si agg = (QuorumReached d, agg')"
      and "new_from_auth_sign_infos strength cr (map snd (sa_data agg')) (sa_committee agg') = Inl e"
      and "r = Failed e"
  | (certificate) d q where "c_epoch (sa_committee agg) = si_epoch si"
      and "insert_generic strength sign_info_eq (si_authority si) si agg = (QuorumReached d, agg')"
      and "new_from_auth_sign_infos strength cr (map snd (sa_data agg')) (sa_committee agg') = Inr q"
      and "quorum_verify_secure strength cr q data (sa_committee agg') = Inr ()"
      and "r = QuorumReached q"
  | (bad_signatures) d q e agg1 bv ba where "c_epoch (sa_committee agg) = si_epoch si"
      and "insert_generic strength sign_info_eq (si_authority si) si agg = (QuorumReached d, agg1)"
      and "new_from_auth_sign_infos strength cr (map snd (sa_data agg1)) (sa_committee agg1) = Inr q"
      and "quorum_verify_secure strength cr q data (sa_committee agg1) = Inl e"
      and "drop_bad_votes cr data (sa_data agg1) agg1 0 [] = (bv, ba, agg')"
      and "r = NotEnoughVotes bv ba"
proof (cases "c_epoch (sa_committee agg) = si_epoch si")
  case False
  with assms show ?thesis by (intro wrong_epoch) (auto simp: stake_insert_def)
next
  case True
  obtain g agg1 where g: "insert_generic strength sign_info_eq (si_authority si) si agg = (g, agg1)"
    by (metis surj_pair)
  note ins = assms [unfolded stake_insert_def g prod.case]
  show ?thesis
  proof (cases g)
    case (Failed e)
    with ins g True show ?thesis by (intro not_added) auto
  next
    case (NotEnoughVotes b bs)
    with ins g True show ?thesis by (intro not_added) auto
  next
    case (QuorumReached d)
    show ?thesis
    proof (cases "new_from_auth_sign_infos strength cr (map snd (sa_data agg1)) (sa_committee agg1)")
      case (Inl e)
      with ins g True QuorumReached show ?thesis by (intro no_certificate) auto
    next
      case q: (Inr q)
      show ?thesis
      proof (cases "quorum_verify_secure strength cr q data (sa_committee agg1)")
        case (Inr u)
        with ins g True QuorumReached q show ?thesis by (intro certificate) auto
      next
        case (Inl e)
        obtain bv ba agg2 where "drop_bad_votes cr data (sa_data agg1) agg1 0 [] = (bv, ba, agg2)"
          by (metis surj_pair)
        with ins g True QuorumReached q Inl show ?thesis
          by (intro bad_signatures) auto
      qed
    qed
  qed
qed

lemma insert_generic_signed:
  assumes "signed_entries agg" and "c_epoch (sa_committee agg) = si_epoch si"
    and "insert_generic strength eq (si_authority si) si agg = (r, agg')"
  shows "signed_entries agg'"
  using assms(3)
proof (cases rule: insert_generic_cases)
  case repeated
  with assms(1) show ?thesis by simp
next
  case unknown
  with assms(1,2) show ?thesis
    by (auto simp: signed_entries_def voters_def hash_update_fresh)
next
  case counted
  with assms(1,2) show ?thesis
    by (auto simp: signed_entries_def voters_def hash_update_fresh)
qed

lemma drop_bad_votes_data:
  "drop_bad_votes cr data entries agg bv ba = (bv', ba', agg') \<Longrightarrow>
     set (sa_data agg') \<subseteq> set (sa_data agg) \<and> sa_committee agg' = sa_committee agg"
proof (induction entries arbitrary: agg bv ba)
  case Nil
  then show ?case by simp
next
  case (Cons e entries)
  obtain n si where e: "e = (n, si)" by (cases e)
  show ?case
  proof (cases "sign_info_verify_secure cr si data (sa_committee agg)")
    case (Inl err)
    with Cons.prems have "drop_bad_votes cr data entries
        (agg\<lparr>sa_data := AList.delete n (sa_data agg),
             sa_total_votes := sa_total_votes agg - committee_weight (sa_committee agg) n\<rparr>)
        (bv + committee_weight (sa_committee agg) n) (ba @ [n]) = (bv', ba', agg')"
      by (simp add: e Let_def)
    from Cons.IH [OF this] show ?thesis by (auto simp: AList.delete_eq)
  next
    case (Inr u)
    with Cons.prems have "drop_bad_votes cr data entries agg bv ba = (bv', ba', agg')"
      by (simp add: e)
    from Cons.IH [OF this] show ?thesis .
  qed
qed

lemma stake_insert_inv:
  assumes "agg_inv c agg" and "signed_entries agg" and "committee_wf c"
    and "stake_insert strength cr data si agg = (r, agg')"
  shows "agg_inv c agg' \<and> signed_entries agg'"
  using assms(4)
proof (cases rule: stake_insert_cases)
  case wrong_epoch
  with assms show ?thesis by simp
next
  case (not_added g)
  show ?thesis
    using insert_generic_inv [OF assms(1,3) not_added(2)]
      insert_generic_signed [OF assms(2) not_added(1,2)] ..
next
  case (no_certificate d e)
  show ?thesis
    using insert_generic_inv [OF assms(1,3) no_certificate(2)]
      insert_generic_signed [OF assms(2) no_certificate(1,2)] ..
next
  case (certificate d q)
  show ?thesis
    using insert_generic_inv [OF assms(1,3) certificate(2)]
      insert_generic_signed [OF assms(2) certificate(1,2)] ..
next
  case (bad_signatures d q e agg1 bv ba)
  have inv1: "agg_inv c agg1" and signed1: "signed_entries agg1"
    using insert_generic_inv [OF assms(1,3) bad_signatures(2)]
      insert_generic_signed [OF assms(2) bad_signatures(1,2)] .
  have c1: "sa_committee agg1 = c" using inv1 by (simp add: agg_inv_def)
  have "voters_stake c (bad_voters cr data c (sa_data agg1)) \<le> 10000"
    by (intro voters_stake_bound [OF assms(3)] finite_subset [OF bad_voters_sub]) simp
  then have "agg_inv c agg'"
    using drop_bad_votes_spec [OF inv1 assms(3) _ _ bad_signatures(5)] inv1
    by (simp add: agg_inv_def hash_inv_def voters_def)
  moreover have "signed_entries agg'"
    using drop_bad_votes_data [OF bad_signatures(5)] signed1
    by (auto simp: signed_entries_def)
  ultimately show ?thesis by simp
qed

text \<open>The states an aggregator goes through, for any sequence of inserted messages.\<close>

inductive agg_reachable ::
  "bool \<Rightarrow> ('sig, 'agg, 'pk, 'msg, 'bytes) crypto \<Rightarrow> 'pk committee \<Rightarrow>
     ('sig authority_sign_info, 'pk) stake_aggregator \<Rightarrow> bool"
  for strength cr c where
  start: "agg_reachable strength cr c (stake_aggregator_new c)"
| step: "agg_reachable strength cr c agg \<Longrightarrow>
     stake_insert strength cr data si agg = (r, agg') \<Longrightarrow> agg_reachable strength cr c agg'"

lemma agg_reachable_inv:
  assumes "agg_reachable strength cr c agg" and "committee_wf c"
  shows "agg_inv c agg \<and> signed_entries agg"
  using assms
proof (induction rule: agg_reachable.induct)
  case start
  then show ?case
    by (simp add: agg_inv_new) (simp add: signed_entries_def stake_aggregator_new_def)
next
  case (step agg data si r agg')
  from step.IH [OF step.prems] show ?case
    by (intro stake_insert_inv [OF _ _ step.prems step.hyps(2)]) simp_all
qed

lemma signed_entries_authorities:
  "signed_entries agg \<Longrightarrow> si_authority ` set (map snd (sa_data agg)) = voters agg"
  by (force simp: signed_entries_def voters_def)

lemma certificate_signers:
  assumes "agg_reachable strength cr c agg" and "committee_wf c"
    and "length (c_voting_rights c) \<le> 2 ^ 32"
    and "stake_insert strength cr data si agg = (QuorumReached q, agg')"
  shows "quorum_verify_secure strength cr q data c = Inr ()"
    and "bitmap_inv (qs_signers_map q)" and "quorum_signers q c = voters agg'"
proof -
  have inv: "agg_inv c agg'" "signed_entries agg'"
    using agg_reachable_inv [OF agg_reachable.step [OF assms(1,4)] assms(2)] by simp_all
  then have c: "sa_committee agg' = c" by (simp add: agg_inv_def)
  from assms(4) have ok: "new_from_auth_sign_infos strength cr (map snd (sa_data agg')) c = Inr q \<and>
    quorum_verify_secure strength cr q data c = Inr ()"
    by (cases rule: stake_insert_cases) (simp_all add: c)
  then show "quorum_verify_secure strength cr q data c = Inr ()" by simp
  note new = new_from_auth_sign_infos_ok [OF conjunct1 [OF ok] assms(2,3)]
  from new(2) show "bitmap_inv (qs_signers_map q)" .
  from new(3) show "quorum_signers q c = voters agg'"
    by (simp only: signed_entries_authorities [OF inv(2)])
qed

lemma poisoned_step:
  assumes "agg_inv c agg" and "signed_entries agg" and "committee_wf c"
    and "a \<in> voters agg" and "a \<notin> set (committee_names c)"
    and "stake_insert strength cr data si agg = (r, agg')"
  shows "\<not> is_quorum_reached r \<and> a \<in> voters agg'"
proof -
  have mono: "a \<in> voters agg1"
    if "insert_generic strength sign_info_eq (si_authority si) si agg = (g, agg1)" for g agg1
    using that
  proof (cases rule: insert_generic_cases)
    case unknown
    then show ?thesis using assms(4) voters_update [of "si_authority si" si agg] by simp
  next
    case counted
    then show ?thesis
      using assms(4) voters_update [of "si_authority si" si agg] by (simp add: voters_def)
  qed (use assms(4) in simp)
  have stuck: "\<exists>e. new_from_auth_sign_infos strength cr (map snd (sa_data agg1)) (sa_committee agg1) = Inl e"
    if ins: "insert_generic strength sign_info_eq (si_authority si) si agg = (g, agg1)"
      and ep: "c_epoch (sa_committee agg) = si_epoch si" for g agg1
  proof (cases "new_from_auth_sign_infos strength cr (map snd (sa_data agg1)) (sa_committee agg1)")
    case (Inr q)
    let ?infos = "map snd (sa_data agg1)"
    let ?sigs = "btree_collect (map (\<lambda>a. (si_authority a, si_signature a)) ?infos)"
    have "signed_entries agg1" using insert_generic_signed [OF assms(2) ep ins] .
    then have "si_authority ` set ?infos = voters agg1" by (rule signed_entries_authorities)
    then have keys: "set (map fst ?sigs) = voters agg1"
      by (simp add: fst_set_btree_collect image_image)
    have c1: "sa_committee agg1 = c"
      using insert_generic_committee [OF ins] assms(1) by (simp add: agg_inv_def)
    from Inr obtain bm where "signer_bitmap c (map fst ?sigs) [] = Inr bm"
      by (auto simp: new_from_auth_sign_infos_def Let_def c1 split: if_splits sum.splits)
    from signer_bitmap_ok [OF this] have "\<forall>a \<in> voters agg1. authority_index c a \<noteq> None"
      unfolding keys by simp
    with mono [OF ins] have "authority_index c a \<noteq> None" by blast
    with assms(5) show ?thesis by (simp add: authority_index_None [OF assms(3)])
  qed simp
  from assms(6) show ?thesis
  proof (cases rule: stake_insert_cases)
    case wrong_epoch
    with assms(4) show ?thesis by simp
  next
    case (not_added g)
    from mono [OF not_added(2)] not_added(4) show ?thesis by simp
  next
    case (no_certificate d e)
    from mono [OF no_certificate(2)] no_certificate(4) show ?thesis by simp
  next
    case (certificate d q)
    from stuck [OF certificate(2,1)] certificate(3) show ?thesis by simp
  next
    case (bad_signatures d q e agg1 bv ba)
    from stuck [OF bad_signatures(2,1)] bad_signatures(3) show ?thesis by simp
  qed
qed

fun stake_insert_all ::
  "bool \<Rightarrow> ('sig, 'agg, 'pk, 'msg, 'bytes) crypto \<Rightarrow> ('msg \<times> 'sig authority_sign_info) list \<Rightarrow>
     ('sig authority_sign_info, 'pk) stake_aggregator \<Rightarrow>
     'agg authority_quorum_sign_info insert_result list \<times>
     ('sig authority_sign_info, 'pk) stake_aggregator" where
  "stake_insert_all strength cr [] agg = ([], agg)"
| "stake_insert_all strength cr ((data, si) # rest) agg =
     (let (r, agg) = stake_insert strength cr data si agg;
          (rs, agg) = stake_insert_all strength cr rest agg
      in (r # rs, agg))"

lemma poisoned_run:
  assumes "agg_inv c agg" and "signed_entries agg" and "committee_wf c"
    and "a \<in> voters agg" and "a \<notin> set (committee_names c)"
  shows "\<forall>r \<in> set (fst (stake_insert_all strength cr msgs agg)). \<not> is_quorum_reached r"
  using assms
proof (induction msgs arbitrary: agg)
  case Nil
  then show ?case by simp
next
  case (Cons m msgs)
  obtain data si where m: "m = (data, si)" by (cases m)
  obtain r agg' where ins: "stake_insert strength cr data si agg = (r, agg')"
    by (metis surj_pair)
  have step: "\<not> is_quorum_reached r" "a \<in> voters agg'"
    using poisoned_step [OF Cons.prems ins] by simp_all
  have "agg_inv c agg' \<and> signed_entries agg'"
    using stake_insert_inv [OF Cons.prems(1-3) ins] .
  with step Cons.IH [of agg'] Cons.prems(3,5) show ?case
    by (simp add: m ins Let_def case_prod_beta)
qed

subsection \<open>Counting votes per authority\<close>

definition voted_keys :: "('k, 'pk) generic_multi_stake_aggregator \<Rightarrow> authority_name \<Rightarrow> 'k set" where
  "voted_keys g a = {k. \<exists>agg. map_of (gm_stake_maps g) k = Some agg \<and> a \<in> voters agg}"

definition gm_inv :: "('k, 'pk) generic_multi_stake_aggregator \<Rightarrow> bool" where
  "gm_inv g \<longleftrightarrow> hash_inv (gm_stake_maps g) \<and> hash_inv (gm_votes_per_authority g) \<and>
     (\<forall>a. unat (votes_for_authority g a) = card (voted_keys g a) mod 2 ^ 64)"

lemma gm_inv_new: "gm_inv (generic_multi_new c)"
  by (simp add: gm_inv_def generic_multi_new_def hash_inv_def votes_for_authority_def voted_keys_def)

lemma insert_generic_voters:
  assumes "insert_generic strength eq a s agg = (r, agg')"
  shows "voters agg' = insert a (voters agg)"
  using assms
proof (cases rule: insert_generic_cases)
  case (repeated old)
  then have "a \<in> voters agg"
    using map_of_voters [of agg a] by auto
  with repeated show ?thesis by auto
next
  case unknown
  then show ?thesis using voters_update [of a s agg] by simp
next
  case counted
  then show ?thesis using voters_update [of a s agg] by (simp add: voters_def)
qed

lemma finite_voted_keys: "finite {k. \<exists>agg. map_of m k = Some agg \<and> P agg}"
  by (rule finite_subset [of _ "dom (map_of m)"]) (auto simp: finite_dom_map_of)

lemma generic_multi_insert_state:
  fixes g :: "('k, 'pk) generic_multi_stake_aggregator"
  assumes "generic_multi_insert strength a k g = (r, g')"
  obtains agg agg' :: "(unit, 'pk) stake_aggregator" where
    "gm_stake_maps g' = AList.update k agg' (gm_stake_maps g)"
    "gm_votes_per_authority g' =
      (if a \<notin> voters agg then AList.update a (votes_for_authority g a + 1) (gm_votes_per_authority g)
       else gm_votes_per_authority g)"
    "voters agg' = insert a (voters agg)" "\<And>b. k \<in> voted_keys g b \<longleftrightarrow> b \<in> voters agg"
proof -
  define agg where "agg = (case map_of (gm_stake_maps g) k of
      Some agg \<Rightarrow> agg | None \<Rightarrow> stake_aggregator_new (gm_committee g))"
  obtain r' agg' where ins: "insert_generic strength (\<lambda>_ _. True) a () agg = (r', agg')"
    by (metis surj_pair)
  have "contains_key agg a \<longleftrightarrow> a \<in> voters agg"
    using map_of_voters [of agg a] by (auto simp: contains_key_def)
  then have "gm_stake_maps g' = AList.update k agg' (gm_stake_maps g)"
    "gm_votes_per_authority g' =
      (if a \<notin> voters agg then AList.update a (votes_for_authority g a + 1) (gm_votes_per_authority g)
       else gm_votes_per_authority g)"
    using assms ins by (auto simp: generic_multi_insert_def Let_def agg_def [symmetric])
  moreover have "k \<in> voted_keys g b \<longleftrightarrow> b \<in> voters agg" for b
    by (auto simp: voted_keys_def agg_def stake_aggregator_new_def voters_def split: option.splits)
  ultimately show ?thesis
    by (rule that [OF _ _ insert_generic_voters [OF ins]])
qed

lemma generic_multi_insert_voted_keys:
  assumes "generic_multi_insert strength a k g = (r, g')"
  shows "voted_keys g' b = (if a = b then insert k (voted_keys g b) else voted_keys g b)"
proof -
  from assms obtain agg agg' :: "(unit, 'b) stake_aggregator" where
    "gm_stake_maps g' = AList.update k agg' (gm_stake_maps g)"
    "voters agg' = insert a (voters agg)" "k \<in> voted_keys g b \<longleftrightarrow> b \<in> voters agg"
    by (rule generic_multi_insert_state) blast
  then show ?thesis by (auto simp: voted_keys_def update_conv')
qed

lemma generic_multi_insert_inv:
  assumes "gm_inv g" and "generic_multi_insert strength a k g = (r, g')"
  shows "gm_inv g'"
proof -
  note inv = assms(1) [unfolded gm_inv_def]
  note keys = generic_multi_insert_voted_keys [OF assms(2)]
  from assms(2) obtain agg agg' :: "(unit, 'b) stake_aggregator" where
    g': "gm_stake_maps g' = AList.update k agg' (gm_stake_maps g)"
      "gm_votes_per_authority g' =
        (if a \<notin> voters agg then AList.update a (votes_for_authority g a + 1) (gm_votes_per_authority g)
         else gm_votes_per_authority g)"
    and old: "\<And>b. k \<in> voted_keys g b \<longleftrightarrow> b \<in> voters agg"
    by (rule generic_multi_insert_state) blast
  have "unat (votes_for_authority g' b) = card (voted_keys g' b) mod 2 ^ 64" for b
  proof (cases "b = a \<and> a \<notin> voters agg")
    case True
    then have "votes_for_authority g' b = votes_for_authority g a + 1"
      by (simp add: votes_for_authority_def g' update_conv')
    moreover have "finite (voted_keys g a)"
      unfolding voted_keys_def by (rule finite_voted_keys)
    then have "card (voted_keys g' b) = Suc (card (voted_keys g a))"
      using True old [of a] by (simp add: keys card_insert_if)
    ultimately show ?thesis
      using inv by (simp add: unat_word_ariths mod_simps)
  next
    case False
    then have "votes_for_authority g' b = votes_for_authority g b"
      by (auto simp: votes_for_authority_def g' update_conv')
    moreover have "voted_keys g' b = voted_keys g b"
      using False old [of b] by (auto simp: keys)
    ultimately show ?thesis using inv by simp
  qed
  then show ?thesis
    using inv by (simp add: gm_inv_def g' hash_inv_def distinct_update)
qed

lemma remaining_verified:
  assumes "drop_bad_votes cr data entries agg bv ba = (bv', ba', agg')"
    and "(n, si) \<in> set entries" and "(n, si) \<in> set (sa_data agg')"
  shows "\<not> isl (sign_info_verify_secure cr si data (sa_committee agg))"
  using assms
proof (induction entries arbitrary: agg bv ba)
  case Nil
  then show ?case by simp
next
  case (Cons e entries)
  obtain m sj where e: "e = (m, sj)" by (cases e)
  show ?case
  proof (cases "sign_info_verify_secure cr sj data (sa_committee agg)")
    case (Inr u)
    with Cons.prems(1) have "drop_bad_votes cr data entries agg bv ba = (bv', ba', agg')"
      by (simp add: e)
    from Cons.IH [OF this _ Cons.prems(3)] Cons.prems(2) Inr show ?thesis by (auto simp: e)
  next
    case (Inl err)
    let ?agg = "agg\<lparr>sa_data := AList.delete m (sa_data agg),
        sa_total_votes := sa_total_votes agg - committee_weight (sa_committee agg) m\<rparr>"
    have rest: "drop_bad_votes cr data entries ?agg
        (bv + committee_weight (sa_committee agg) m) (ba @ [m]) = (bv', ba', agg')"
      using Cons.prems(1) Inl by (simp add: e Let_def)
    then have "(n, si) \<in> set (AList.delete m (sa_data agg))"
      using drop_bad_votes_data [OF rest] Cons.prems(3) by auto
    then have "n \<noteq> m" by (auto simp: AList.delete_eq)
    with Cons.prems(2) have "(n, si) \<in> set entries" by (simp add: e)
    from Cons.IH [OF rest this Cons.prems(3)] show ?thesis by simp
  qed
qed

subsection \<open>Properties of the aggregators\<close>

definition vote :: "authority_name \<Rightarrow> nat \<Rightarrow> nat authority_sign_info" where
  "vote a sig = \<lparr>si_epoch = 7, si_authority = a, si_signature = sig\<rparr>"

text \<open>The aggregator of \<^const>\<open>four_authorities\<close> after the votes of a list have been inserted.\<close>

definition after_votes ::
  "nat authority_sign_info list \<Rightarrow> (nat authority_sign_info, nat) stake_aggregator" where
  "after_votes votes =
     snd (stake_insert_all True toy_crypto (map (Pair ''tx'') votes) (stake_aggregator_new four_authorities))"

lemma stake_insert_all_reachable:
  "agg_reachable strength cr c agg \<Longrightarrow>
     agg_reachable strength cr c (snd (stake_insert_all strength cr msgs agg))"
proof (induction msgs arbitrary: agg)
  case Nil
  then show ?case by simp
next
  case (Cons m msgs)
  obtain data si where m: "m = (data, si)" by (cases m)
  obtain r agg' where ins: "stake_insert strength cr data si agg = (r, agg')"
    by (metis surj_pair)
  from Cons.IH [OF agg_reachable.step [OF Cons.prems ins]] show ?case
    by (simp add: m ins Let_def case_prod_beta)
qed

lemma after_votes_reachable: "agg_reachable True toy_crypto four_authorities (after_votes votes)"
  unfolding after_votes_def by (rule stake_insert_all_reachable) (rule agg_reachable.start)

text \<open>
  C18.  In every state an aggregator can reach, whatever is inserted and however often bad
  signatures are purged, the 64-bit \<open>total_votes\<close> is the exact stake of the recorded voters, and
  no authority is recorded twice.
\<close>

theorem aggregator_total_is_stake_of_voters:
  assumes "committee_wf c" and "agg_reachable strength cr c agg"
  shows "distinct (map fst (sa_data agg)) \<and>
    unat (sa_total_votes agg) = (\<Sum>a\<in>voters agg. unat (committee_weight c a)) \<and>
    unat (sa_total_votes agg) \<le> unat TOTAL_VOTING_POWER"
  using agg_reachable_inv [OF assms(2,1)] voters_stake_bound [OF assms(1), of "voters agg"]
  by (simp add: agg_inv_def hash_inv_def voters_stake_def voting_constants)

theorem aggregator_total_is_stake_of_voters_witness:
  "distinct (map fst (sa_data (after_votes [vote 1 11, vote 3 13]))) \<and>
    unat (sa_total_votes (after_votes [vote 1 11, vote 3 13])) =
      (\<Sum>a\<in>voters (after_votes [vote 1 11, vote 3 13]). unat (committee_weight four_authorities a)) \<and>
    unat (sa_total_votes (after_votes [vote 1 11, vote 3 13])) \<le> unat TOTAL_VOTING_POWER"
  by (rule aggregator_total_is_stake_of_voters [OF four_authorities_wf after_votes_reachable])

text \<open>
  C20.  When \<open>insert\<close> reports \<open>QuorumReached\<close>, the certificate it returns verifies against the
  committee for the inserted message, its signers are exactly the recorded voters, and their
  stake reaches the threshold.
\<close>

theorem reached_quorum_is_valid_certificate:
  assumes "committee_wf c" and "length (c_voting_rights c) \<le> 2 ^ 32"
    and "agg_reachable strength cr c agg"
    and "stake_insert strength cr data si agg = (QuorumReached q, agg')"
  shows "quorum_verify_secure strength cr q data c = Inr () \<and>
    quorum_signers q c = voters agg' \<and> si_authority si \<in> voters agg' \<and>
    unat (committee_threshold strength) \<le> (\<Sum>a\<in>voters agg'. unat (committee_weight c a))"
proof -
  note cert = certificate_signers [OF assms(3,1,2,4)]
  obtain d where "insert_generic strength sign_info_eq (si_authority si) si agg = (QuorumReached d, agg')"
    using assms(4) by (cases rule: stake_insert_cases) auto
  from insert_generic_voters [OF this] have "si_authority si \<in> voters agg'" by simp
  with cert quorum_signers_stake(2) [OF assms(1) cert(2,1)] show ?thesis by simp
qed

theorem reached_quorum_is_valid_certificate_witness:
  "\<exists>q agg'. stake_insert True toy_crypto ''tx'' (vote 4 14) (after_votes [vote 1 11, vote 3 13]) =
      (QuorumReached q, agg') \<and>
    quorum_verify_secure True toy_crypto q ''tx'' four_authorities = Inr () \<and>
    quorum_signers q four_authorities = voters agg' \<and> 4 \<in> voters agg' \<and>
    unat (committee_threshold True) \<le> (\<Sum>a\<in>voters agg'. unat (committee_weight four_authorities a))"
proof -
  let ?i = "stake_insert True toy_crypto ''tx'' (vote 4 14) (after_votes [vote 1 11, vote 3 13])"
  have "is_quorum_reached (fst ?i)" by code_simp
  then obtain q agg' where q: "?i = (QuorumReached q, agg')"
    by (metis is_quorum_reached.elims(2) prod.collapse)
  have "length (c_voting_rights four_authorities) \<le> 2 ^ 32" by (simp add: four_authorities_def)
  from reached_quorum_is_valid_certificate [OF four_authorities_wf this after_votes_reachable q] q
  show ?thesis by (simp add: vote_def)
qed

text \<open>
  C21.  When the aggregate signature does not verify, the recorded signatures are checked one by
  one: those that fail are removed and reported with their exact stake, those that pass are kept.
\<close>

theorem bad_votes_are_purged:
  assumes "committee_wf c" and "agg_reachable strength cr c agg"
    and "insert_generic strength sign_info_eq (si_authority si) si agg = (QuorumReached d, agg1)"
    and "si_epoch si = c_epoch c"
    and "new_from_auth_sign_infos strength cr (map snd (sa_data agg1)) c = Inr q"
    and "quorum_verify_secure strength cr q data c = Inl e"
  shows "\<exists>bad_votes bad agg'.
      stake_insert strength cr data si agg = (NotEnoughVotes bad_votes bad, agg') \<and>
      set bad = {a. \<exists>v. (a, v) \<in> set d \<and> isl (sign_info_verify_secure cr v data c)} \<and>
      voters agg' = voters agg1 - set bad \<and>
      unat bad_votes = (\<Sum>a\<in>set bad. unat (committee_weight c a)) \<and>
      (\<forall>(a, v) \<in> set (sa_data agg'). sign_info_verify_secure cr v data c = Inr ())"
proof -
  have inv: "agg_inv c agg" using agg_reachable_inv [OF assms(2,1)] by simp
  have c: "sa_committee agg = c" using inv by (simp add: agg_inv_def)
  have inv1: "agg_inv c agg1" by (rule insert_generic_inv [OF inv assms(1,3)])
  have c1: "sa_committee agg1 = c" using inv1 by (simp add: agg_inv_def)
  have d: "d = sa_data agg1"
    using assms(3) by (cases rule: insert_generic_cases) (auto split: if_splits)
  obtain bv ba agg' where drop: "drop_bad_votes cr data (sa_data agg1) agg1 0 [] = (bv, ba, agg')"
    by (metis surj_pair)
  have bound: "voters_stake c (bad_voters cr data c (sa_data agg1)) \<le> 10000"
    by (intro voters_stake_bound [OF assms(1)] finite_subset [OF bad_voters_sub]) simp
  have res: "stake_insert strength cr data si agg = (NotEnoughVotes bv ba, agg')"
    using assms(3-6) by (simp add: stake_insert_def c c1 drop)
  have "sign_info_verify_secure cr v data c = Inr ()" if "(a, v) \<in> set (sa_data agg')" for a v
  proof -
    have "(a, v) \<in> set (sa_data agg1)"
      using drop_bad_votes_data [OF drop] that by blast
    from remaining_verified [OF drop this that] show ?thesis
      by (cases "sign_info_verify_secure cr v data c") (auto simp: c1)
  qed
  then have good: "\<forall>(a, v) \<in> set (sa_data agg'). sign_info_verify_secure cr v data c = Inr ()"
    by blast
  have spec: "voters agg' = voters agg1 - bad_voters cr data c (sa_data agg1)"
    "set ba = bad_voters cr data c (sa_data agg1)"
    "unat bv = voters_stake c (bad_voters cr data c (sa_data agg1))"
    using drop_bad_votes_spec [OF inv1 assms(1) _ _ drop] bound inv1
    by (simp_all add: agg_inv_def hash_inv_def voters_def)
  show ?thesis
    using res good spec(1,3)
    by (intro exI [of _ bv] exI [of _ ba] exI [of _ agg'] conjI)
      (simp_all add: spec(2) voters_stake_def bad_voters_def d)
qed

theorem bad_votes_are_purged_witness:
  "\<exists>bad_votes bad agg'.
      stake_insert True toy_crypto ''tx'' (vote 4 14) (after_votes [vote 1 11, vote 3 99]) =
        (NotEnoughVotes bad_votes bad, agg') \<and>
      set bad = {a. \<exists>v. (a, v) \<in> set [(1, vote 1 11), (3, vote 3 99), (4, vote 4 14)] \<and>
        isl (sign_info_verify_secure toy_crypto v ''tx'' four_authorities)} \<and>
      voters agg' = {1, 3, 4} - set bad \<and>
      unat bad_votes = (\<Sum>a\<in>set bad. unat (committee_weight four_authorities a)) \<and>
      (\<forall>(a, v) \<in> set (sa_data agg'). sign_info_verify_secure toy_crypto v ''tx'' four_authorities = Inr ())"
proof -
  let ?agg1 = "\<lparr>sa_data = [(1, vote 1 11), (3, vote 3 99), (4, vote 4 14)],
    sa_total_votes = 7500, sa_committee = four_authorities\<rparr>"
  have ins: "insert_generic True sign_info_eq (si_authority (vote 4 14)) (vote 4 14)
      (after_votes [vote 1 11, vote 3 99]) =
      (QuorumReached [(1, vote 1 11), (3, vote 3 99), (4, vote 4 14)], ?agg1)"
    by code_simp
  have epoch: "si_epoch (vote 4 14) = c_epoch four_authorities"
    by code_simp
  have new: "new_from_auth_sign_infos True toy_crypto (map snd (sa_data ?agg1)) four_authorities =
      Inr \<lparr>qs_epoch = 7, qs_signature = 124, qs_signers_map = [0, 2, 3]\<rparr>"
    by code_simp
  have bad: "quorum_verify_secure True toy_crypto
      \<lparr>qs_epoch = 7, qs_signature = 124, qs_signers_map = [0, 2, 3]\<rparr> ''tx'' four_authorities =
      Inl (InvalidSignature ''Failed to batch verify aggregated auth sig'')"
    by code_simp
  have voters: "voters ?agg1 = {1, 3, 4}" by (simp add: voters_def)
  show ?thesis
    using bad_votes_are_purged [OF four_authorities_wf after_votes_reachable ins epoch new bad]
    unfolding voters .
qed

text \<open>
  C22.  A vote that names an authority outside the committee is refused with
  \<open>InvalidAuthenticator\<close>, but only after it was recorded: the vote stays in the aggregator, which
  counts no stake for it.  From then on no sequence of further votes makes the aggregator produce a
  certificate: \<open>new_from_auth_sign_infos\<close> finds no index for the recorded outsider.
\<close>

theorem outsider_vote_blocks_certificates:
  assumes "committee_wf c" and "agg_reachable strength cr c agg"
    and "si_authority si \<notin> set (committee_names c)" and "si_epoch si = c_epoch c"
    and "\<not> contains_key agg (si_authority si)"
  shows "\<exists>agg'. stake_insert strength cr data si agg = (Failed InvalidAuthenticator, agg') \<and>
    map_of (sa_data agg') (si_authority si) = Some si \<and> sa_total_votes agg' = sa_total_votes agg \<and>
    (\<forall>msgs. \<forall>r \<in> set (fst (stake_insert_all strength cr msgs agg')). \<not> is_quorum_reached r)"
proof -
  have inv: "agg_inv c agg" "signed_entries agg"
    using agg_reachable_inv [OF assms(2,1)] by simp_all
  have c: "sa_committee agg = c" using inv by (simp add: agg_inv_def)
  let ?agg' = "agg\<lparr>sa_data := AList.update (si_authority si) si (sa_data agg)\<rparr>"
  have w: "committee_weight c (si_authority si) = 0"
    by (rule committee_weight_nonmember [OF assms(1,3)])
  have ins: "stake_insert strength cr data si agg = (Failed InvalidAuthenticator, ?agg')"
    using assms(4,5)
    by (simp add: stake_insert_def insert_generic_def contains_key_def c w Let_def)
  have recorded: "map_of (sa_data ?agg') (si_authority si) = Some si \<and> sa_total_votes ?agg' = sa_total_votes agg"
    by (simp add: update_conv')
  have "agg_inv c ?agg'" "signed_entries ?agg'"
    using stake_insert_inv [OF inv assms(1) ins] by simp_all
  from poisoned_run [OF this assms(1) _ assms(3)] ins recorded show ?thesis
    using voters_update [of "si_authority si" si agg] by blast
qed

theorem outsider_vote_blocks_certificates_witness:
  "\<exists>agg'. stake_insert True toy_crypto ''tx'' (vote 9 19) (after_votes [vote 1 11]) =
      (Failed InvalidAuthenticator, agg') \<and> map_of (sa_data agg') 9 = Some (vote 9 19) \<and>
    (\<forall>msgs. \<forall>r \<in> set (fst (stake_insert_all True toy_crypto msgs agg')). \<not> is_quorum_reached r)"
proof -
  have a: "si_authority (vote 9 19) = 9" by code_simp
  have "si_authority (vote 9 19) \<notin> set (committee_names four_authorities)"
    "si_epoch (vote 9 19) = c_epoch four_authorities"
    "\<not> contains_key (after_votes [vote 1 11]) (si_authority (vote 9 19))" by code_simp+
  from outsider_vote_blocks_certificates [OF four_authorities_wf after_votes_reachable this] show ?thesis
    unfolding a by blast
qed

text \<open>
  C23.  A second vote of a recorded authority is refused, the state is unchanged, and the flag
  \<open>conflicting_sig\<close> of the error is \<open>true\<close> whatever the two signatures are, identical ones included.
\<close>

theorem repeated_signer_always_flagged:
  assumes "committee_wf c" and "agg_reachable strength cr c agg"
    and "si_authority si \<in> voters agg" and "si_epoch si = c_epoch c"
  shows "stake_insert strength cr data si agg =
    (Failed (StakeAggregatorRepeatedSigner (si_authority si) True), agg)"
proof -
  have inv: "agg_inv c agg" "signed_entries agg"
    using agg_reachable_inv [OF assms(2,1)] by simp_all
  obtain old where old: "map_of (sa_data agg) (si_authority si) = Some old"
    using assms(3) map_of_voters [of agg "si_authority si"] by auto
  have "si_authority old = si_authority si" "si_epoch old = c_epoch c"
    using inv map_of_SomeD [OF old] by (auto simp: signed_entries_def agg_inv_def)
  with old inv(1) assms(4) show ?thesis
    by (simp add: stake_insert_def insert_generic_def sign_info_eq_def agg_inv_def)
qed

theorem repeated_signer_always_flagged_witness:
  "stake_insert True toy_crypto ''tx'' (vote 1 11) (after_votes [vote 1 11]) =
    (Failed (StakeAggregatorRepeatedSigner 1 True), after_votes [vote 1 11])"
proof -
  have "1 \<in> voters (after_votes [vote 1 11])" unfolding voters_def by code_simp
  then show ?thesis
    using repeated_signer_always_flagged [OF four_authorities_wf after_votes_reachable, of "vote 1 11"]
    by (simp add: vote_def four_authorities_def)
qed

text \<open>
  C24.  \<open>GenericMultiStakeAggregator\<close> counts, for every authority, the number of keys it has voted
  for (modulo \<open>2 ^ 64\<close>), whatever sequence of votes is inserted, repeated votes included.
\<close>

theorem generic_multi_counts_voted_keys:
  fixes votes :: "(authority_name \<times> 'k) list" and c :: "'pk committee"
  shows "unat (votes_for_authority
       (fold (\<lambda>(a, k) g. snd (generic_multi_insert strength a k g)) votes (generic_multi_new c)) a) =
     card {k. (a, k) \<in> set votes} mod 2 ^ 64"
proof -
  define run where
    "run = (\<lambda>votes (g :: ('k, 'pk) generic_multi_stake_aggregator).
       fold (\<lambda>(a, k) g. snd (generic_multi_insert strength a k g)) votes g)"
  have "gm_inv (run votes g) \<and> voted_keys (run votes g) a = voted_keys g a \<union> {k. (a, k) \<in> set votes}"
    if "gm_inv g" for g :: "('k, 'pk) generic_multi_stake_aggregator"
    using that
  proof (induction votes arbitrary: g)
    case Nil
    then show ?case by (simp add: run_def)
  next
    case (Cons v votes)
    obtain b k where v: "v = (b, k)" by (cases v)
    obtain r g' where ins: "generic_multi_insert strength b k g = (r, g')" by (metis surj_pair)
    have "gm_inv g'" by (rule generic_multi_insert_inv [OF Cons.prems ins])
    moreover have "voted_keys g' a = (if b = a then insert k (voted_keys g a) else voted_keys g a)"
      using generic_multi_insert_voted_keys [OF ins] .
    ultimately show ?case
      using Cons.IH [of g'] by (auto simp: run_def v ins)
  qed
  from this [OF gm_inv_new, of c] show ?thesis
    by (simp add: run_def gm_inv_def voted_keys_def generic_multi_new_def)
qed

text \<open>
  C28.  \<open>MultiStakeAggregator::insert\<close> of the first vote for a key leaves the aggregator unchanged
  when the vote is refused: no entry is created from a vote that was never checked.
\<close>

theorem multi_insert_failure_creates_no_entry:
  assumes "map_of (ms_stake_maps m) k = None"
    and "multi_insert strength cr k data si m = (Failed e, m')"
  shows "m' = m"
  using assms by (auto simp: multi_insert_def Let_def split: prod.splits insert_result.splits)

theorem multi_insert_failure_creates_no_entry_witness:
  "\<exists>e m'. multi_insert True toy_crypto (0 :: nat) ''tx'' (vote 9 19) (multi_new four_authorities) =
     (Failed e, m') \<and> m' = multi_new four_authorities"
proof -
  have "fst (multi_insert True toy_crypto (0 :: nat) ''tx'' (vote 9 19) (multi_new four_authorities)) =
      Failed InvalidAuthenticator"
    by code_simp
  then obtain m' where m': "multi_insert True toy_crypto (0 :: nat) ''tx'' (vote 9 19)
      (multi_new four_authorities) = (Failed InvalidAuthenticator, m')"
    by (metis prod.collapse)
  from multi_insert_failure_creates_no_entry [OF _ this] m' show ?thesis
    by (simp add: multi_new_def)
qed

end
