(* ===== verification/Move_Gas_Algebra.thy ===== *)
theory Move_Gas_Algebra
  imports Sui_Prelude
begin

section \<open>Gas quantities\<close>

text \<open>
  Models \<open>src/external-crates/move/move-core/types/src/gas_algebra.rs\<close>.  A \<open>GasQuantity<U>\<close> is its
  64-bit value; the phantom unit is only a type-level tag.  Addition and multiplication
  saturate, and unit conversions compute in 128 bits and clamp to the 64-bit range.
\<close>

type_synonym gas_quantity = u64
type_synonym internal_gas = u64
type_synonym abstract_memory_size = u64

definition saturating_mul :: "'a::len word \<Rightarrow> 'a word \<Rightarrow> 'a word" where
  "saturating_mul a b = (case checked_mul a b of Some c \<Rightarrow> c | None \<Rightarrow> - 1)"

definition gas_add :: "gas_quantity \<Rightarrow> gas_quantity \<Rightarrow> gas_quantity" where
  "gas_add a b = saturating_add a b"

definition gas_checked_sub :: "gas_quantity \<Rightarrow> gas_quantity \<Rightarrow> gas_quantity option" where
  "gas_checked_sub a b = checked_sub a b"

definition gas_saturating_sub :: "gas_quantity \<Rightarrow> gas_quantity \<Rightarrow> gas_quantity" where
  "gas_saturating_sub a b = saturating_sub a b"

definition mul_impl :: "gas_quantity \<Rightarrow> gas_quantity \<Rightarrow> gas_quantity" where
  "mul_impl x y = saturating_mul x y"

text \<open>The 128-bit intermediate products of the source cannot wrap; \<open>clamp_u64\<close> is its final test.\<close>

definition clamp_u64 :: "u128 \<Rightarrow> u64" where
  "clamp_u64 res = (if ucast (- 1 :: u64) < res then - 1 else ucast res)"

definition apply_ratio_round_down :: "u64 \<Rightarrow> u64 \<Rightarrow> u64 \<Rightarrow> u64 option" where
  "apply_ratio_round_down val nominator denominator = do {
     rust_assert (nominator \<noteq> 0);
     rust_assert (denominator \<noteq> 0);
     let res = (ucast val * ucast nominator) div (ucast denominator :: u128);
     Some (clamp_u64 res)
   }"

definition apply_ratio_round_up :: "u64 \<Rightarrow> u64 \<Rightarrow> u64 \<Rightarrow> u64 option" where
  "apply_ratio_round_up val nominator denominator = do {
     rust_assert (nominator \<noteq> 0);
     rust_assert (denominator \<noteq> 0);
     let n = (ucast val * ucast nominator :: u128);
     let d = (ucast denominator :: u128);
     let res = n div d + (if n mod d = 0 then 0 else 1);
     Some (clamp_u64 res)
   }"

definition to_unit :: "u64 \<Rightarrow> gas_quantity \<Rightarrow> gas_quantity option" where
  "to_unit multiplier q = do {
     rust_assert (multiplier \<noteq> 0);
     Some (saturating_mul q multiplier)
   }"

definition to_unit_round_down :: "u64 \<Rightarrow> u64 \<Rightarrow> gas_quantity \<Rightarrow> gas_quantity option" where
  "to_unit_round_down nominator denominator q = apply_ratio_round_down q nominator denominator"

definition to_unit_round_up :: "u64 \<Rightarrow> u64 \<Rightarrow> gas_quantity \<Rightarrow> gas_quantity option" where
  "to_unit_round_up nominator denominator q = apply_ratio_round_up q nominator denominator"

subsection \<open>Exactness\<close>

lemma unat_saturating_mul [rust_arith]:
  "unat (saturating_mul (a :: 'a::len word) b) = min (unat a * unat b) (2 ^ LENGTH('a) - 1)"
proof (cases "checked_mul a b")
  case None
  moreover from None have "2 ^ LENGTH('a) \<le> unat a * unat b"
    by (simp add: checked_mul_eq_None)
  ultimately show ?thesis
    by (simp add: saturating_mul_def unsigned_minus_1_eq_mask mask_eq_exp_minus_1)
next
  case (Some c)
  then have c: "unat c = unat a * unat b"
    by (simp add: checked_mul_eq_Some)
  have "unat c < 2 ^ LENGTH('a)"
    by (rule unat_less_pow)
  with Some c show ?thesis
    by (simp add: saturating_mul_def)
qed

lemma unat_ucast_u128: "unat (ucast (a :: u64) :: u128) = unat a"
  using unat_u64_less [of a] by (simp add: unsigned_ucast_eq take_bit_nat_eq_self)

lemma unat_clamp_u64: "unat (clamp_u64 r) = min (unat r) (2 ^ 64 - 1)"
proof (cases "unat r < 2 ^ 64")
  case True
  then have "unat (ucast r :: u64) = unat r"
    by (simp add: unsigned_ucast_eq take_bit_nat_eq_self)
  with True show ?thesis
    by (auto simp: clamp_u64_def word_less_nat_alt unat_ucast_u128 unsigned_minus_1_eq_mask
        mask_eq_exp_minus_1)
next
  case False
  then show ?thesis
    by (auto simp: clamp_u64_def word_less_nat_alt unat_ucast_u128 unsigned_minus_1_eq_mask
        mask_eq_exp_minus_1)
qed

lemma unat_u128_product:
  "unat (ucast (a :: u64) * ucast (b :: u64) :: u128) = unat a * unat b"
proof -
  have "unat a * unat b < 2 ^ 64 * 2 ^ 64"
    using unat_u64_less [of a] unat_u64_less [of b] by (intro mult_strict_mono) simp_all
  then show ?thesis
    by (simp add: unat_word_ariths unat_ucast_u128)
qed

lemma apply_ratio_round_down_exact [rust_arith]:
  assumes "nominator \<noteq> 0" and "denominator \<noteq> 0"
  shows "\<exists>r. apply_ratio_round_down val nominator denominator = Some r \<and>
    unat r = min (unat val * unat nominator div unat denominator) (2 ^ 64 - 1)"
  using assms
  by (simp add: apply_ratio_round_down_def rust_assert_def Let_def unat_clamp_u64 unat_div
      unat_u128_product unat_ucast_u128)

end
