(* ===== verification/Move_Values.thy ===== *)
theory Move_Values
  imports Move_Gas_Algebra
begin

section \<open>The size of Move values\<close>

text \<open>
  Models the view of runtime values that the gas meter charges for:
  \<open>src/external-crates/move/move-vm/types/src/views.rs\<close> (\<open>ValueVisitor\<close> and the two size
  accumulators) and the traversals of
  \<open>src/external-crates/move/move-vm/types/src/values/values_impl.rs\<close>.  A traversal only reads,
  so an \<open>Rc<RefCell<_>>\<close> is its content.  Visiting an invalid value or a \<open>Locals\<close> container and
  indexing out of range panic (\<^const>\<open>None\<close>).  The sizes of type tags are those of
  \<open>move-core/types\<close>.
\<close>

type_synonym u8 = "8 word"
type_synonym u16 = "16 word"
type_synonym u256 = "256 word"
type_synonym account_address = "256 word"

datatype global_data_status = Clean | Dirty

datatype value_impl =
    Invalid
  | U8 u8 | U16 u16 | U32 "32 word" | U64 u64 | U128 u128 | U256 u256
  | Bool bool
  | Address account_address
  | Container container
  | ContainerRef container_ref
  | IndexedRef container_ref nat
and container =
    Locals "value_impl list"
  | Vec "value_impl list"
  | Struct "value_impl list"
  | VecU8 "u8 list" | VecU16 "u16 list" | VecU32 "32 word list" | VecU64 "u64 list"
  | VecU128 "u128 list" | VecU256 "u256 list"
  | VecBool "bool list"
  | VecAddress "account_address list"
and container_ref =
    Local container
  | Global global_data_status container

subsection \<open>Visitors\<close>

record 's value_visitor =
  visit_u8 :: "nat \<Rightarrow> u8 \<Rightarrow> 's \<Rightarrow> 's"
  visit_u16 :: "nat \<Rightarrow> u16 \<Rightarrow> 's \<Rightarrow> 's"
  visit_u32 :: "nat \<Rightarrow> 32 word \<Rightarrow> 's \<Rightarrow> 's"
  visit_u64 :: "nat \<Rightarrow> u64 \<Rightarrow> 's \<Rightarrow> 's"
  visit_u128 :: "nat \<Rightarrow> u128 \<Rightarrow> 's \<Rightarrow> 's"
  visit_u256 :: "nat \<Rightarrow> u256 \<Rightarrow> 's \<Rightarrow> 's"
  visit_bool :: "nat \<Rightarrow> bool \<Rightarrow> 's \<Rightarrow> 's"
  visit_address :: "nat \<Rightarrow> account_address \<Rightarrow> 's \<Rightarrow> 's"
  visit_struct :: "nat \<Rightarrow> nat \<Rightarrow> 's \<Rightarrow> bool \<times> 's"
  visit_vec :: "nat \<Rightarrow> nat \<Rightarrow> 's \<Rightarrow> bool \<times> 's"
  visit_ref :: "nat \<Rightarrow> bool \<Rightarrow> 's \<Rightarrow> bool \<times> 's"
  visit_vec_u8 :: "nat \<Rightarrow> u8 list \<Rightarrow> 's \<Rightarrow> 's"
  visit_vec_u16 :: "nat \<Rightarrow> u16 list \<Rightarrow> 's \<Rightarrow> 's"
  visit_vec_u32 :: "nat \<Rightarrow> 32 word list \<Rightarrow> 's \<Rightarrow> 's"
  visit_vec_u64 :: "nat \<Rightarrow> u64 list \<Rightarrow> 's \<Rightarrow> 's"
  visit_vec_u128 :: "nat \<Rightarrow> u128 list \<Rightarrow> 's \<Rightarrow> 's"
  visit_vec_u256 :: "nat \<Rightarrow> u256 list \<Rightarrow> 's \<Rightarrow> 's"
  visit_vec_bool :: "nat \<Rightarrow> bool list \<Rightarrow> 's \<Rightarrow> 's"
  visit_vec_address :: "nat \<Rightarrow> account_address list \<Rightarrow> 's \<Rightarrow> 's"

definition index :: "nat \<Rightarrow> 'a list \<Rightarrow> 'a option" where
  "index idx xs = (if idx < length xs then Some (xs ! idx) else panic)"

text \<open>
  \<open>visit_impl\<close> of values, containers and references.  A container is visited either as a
  whole (\<open>Container::visit_impl\<close>, target \<^const>\<open>None\<close>) or at one index
  (\<open>Container::visit_indexed\<close>, target \<^term>\<open>Some idx\<close>); a reference passes the target on.  The
  visits of the elements are given as a list of functions, which \<open>visit_all\<close> runs in order.
\<close>

type_synonym 's visit = "'s value_visitor \<Rightarrow> nat \<Rightarrow> 's \<Rightarrow> 's option"

fun visit_all :: "'s visit list \<Rightarrow> 's visit" where
  "visit_all [] vis depth s = Some s"
| "visit_all (f # fs) vis depth s = Option.bind (f vis depth s) (visit_all fs vis depth)"

definition visit_nth :: "'s visit list \<Rightarrow> nat \<Rightarrow> 's visit" where
  "visit_nth fs idx vis depth s = Option.bind (index idx fs) (\<lambda>f. f vis depth s)"

definition visit_elements ::
  "(nat \<Rightarrow> nat \<Rightarrow> 's \<Rightarrow> bool \<times> 's) \<Rightarrow> 's visit list \<Rightarrow> nat option \<Rightarrow> 's visit" where
  "visit_elements enter fs target vis depth s =
     (case target of
        None \<Rightarrow>
          (let (inside, s) = enter depth (length fs) s
           in if inside then visit_all fs vis (depth + 1) s else Some s)
      | Some idx \<Rightarrow> visit_nth fs idx vis (depth + 1) s)"

definition visit_primitive ::
  "(nat \<Rightarrow> 'a list \<Rightarrow> 's \<Rightarrow> 's) \<Rightarrow> (nat \<Rightarrow> 'a \<Rightarrow> 's \<Rightarrow> 's) \<Rightarrow> 'a list \<Rightarrow> nat option \<Rightarrow> nat \<Rightarrow> 's \<Rightarrow> 's option" where
  "visit_primitive whole single r target depth s =
     (case target of
        None \<Rightarrow> Some (whole depth r s)
      | Some idx \<Rightarrow> map_option (\<lambda>v. single (depth + 1) v s) (index idx r))"

definition visit_reference ::
  "(nat option \<Rightarrow> 's visit) \<Rightarrow> nat option \<Rightarrow> 's visit" where
  "visit_reference container target vis depth s =
     (let (inside, s) = visit_ref vis depth False s
      in if inside
         then container target vis (case target of None \<Rightarrow> depth + 1 | Some _ \<Rightarrow> depth) s
         else Some s)"

primrec value_visit_impl :: "value_impl \<Rightarrow> 's visit"
  and container_visit_impl :: "container \<Rightarrow> nat option \<Rightarrow> 's visit"
  and container_ref_visit_impl :: "container_ref \<Rightarrow> nat option \<Rightarrow> 's visit" where
  "value_visit_impl Invalid = (\<lambda>vis depth s. panic)"
| "value_visit_impl (U8 v) = (\<lambda>vis depth s. Some (visit_u8 vis depth v s))"
| "value_visit_impl (U16 v) = (\<lambda>vis depth s. Some (visit_u16 vis depth v s))"
| "value_visit_impl (U32 v) = (\<lambda>vis depth s. Some (visit_u32 vis depth v s))"
| "value_visit_impl (U64 v) = (\<lambda>vis depth s. Some (visit_u64 vis depth v s))"
| "value_visit_impl (U128 v) = (\<lambda>vis depth s. Some (visit_u128 vis depth v s))"
| "value_visit_impl (U256 v) = (\<lambda>vis depth s. Some (visit_u256 vis depth v s))"
| "value_visit_impl (Bool v) = (\<lambda>vis depth s. Some (visit_bool vis depth v s))"
| "value_visit_impl (Address v) = (\<lambda>vis depth s. Some (visit_address vis depth v s))"
| "value_visit_impl (Container c) = container_visit_impl c None"
| "value_visit_impl (ContainerRef r) = container_ref_visit_impl r None"
| "value_visit_impl (IndexedRef r idx) = container_ref_visit_impl r (Some idx)"
| "container_visit_impl (Locals r) = (\<lambda>target vis depth s.
     case target of
       None \<Rightarrow> panic
     | Some idx \<Rightarrow> visit_nth (map value_visit_impl r) idx vis (depth + 1) s)"
| "container_visit_impl (Vec r) = (\<lambda>target vis.
     visit_elements (visit_vec vis) (map value_visit_impl r) target vis)"
| "container_visit_impl (Struct r) = (\<lambda>target vis.
     visit_elements (visit_struct vis) (map value_visit_impl r) target vis)"
| "container_visit_impl (VecU8 r) =
     (\<lambda>target vis. visit_primitive (visit_vec_u8 vis) (visit_u8 vis) r target)"
| "container_visit_impl (VecU16 r) =
     (\<lambda>target vis. visit_primitive (visit_vec_u16 vis) (visit_u16 vis) r target)"
| "container_visit_impl (VecU32 r) =
     (\<lambda>target vis. visit_primitive (visit_vec_u32 vis) (visit_u32 vis) r target)"
| "container_visit_impl (VecU64 r) =
     (\<lambda>target vis. visit_primitive (visit_vec_u64 vis) (visit_u64 vis) r target)"
| "container_visit_impl (VecU128 r) =
     (\<lambda>target vis. visit_primitive (visit_vec_u128 vis) (visit_u128 vis) r target)"
| "container_visit_impl (VecU256 r) =
     (\<lambda>target vis. visit_primitive (visit_vec_u256 vis) (visit_u256 vis) r target)"
| "container_visit_impl (VecBool r) =
     (\<lambda>target vis. visit_primitive (visit_vec_bool vis) (visit_bool vis) r target)"
| "container_visit_impl (VecAddress r) =
     (\<lambda>target vis. visit_primitive (visit_vec_address vis) (visit_address vis) r target)"
| "container_ref_visit_impl (Local c) = visit_reference (container_visit_impl c)"
| "container_ref_visit_impl (Global status c) = visit_reference (container_visit_impl c)"

subsection \<open>The two size accumulators\<close>

definition LEGACY_CONST_SIZE :: abstract_memory_size where "LEGACY_CONST_SIZE = 16"
definition LEGACY_REFERENCE_SIZE :: abstract_memory_size where "LEGACY_REFERENCE_SIZE = 8"
definition LEGACY_STRUCT_SIZE :: abstract_memory_size where "LEGACY_STRUCT_SIZE = 2"

definition ADDRESS_LENGTH :: u64 where "ADDRESS_LENGTH = 32"

definition bytes_of :: "nat \<Rightarrow> 'a list \<Rightarrow> u64" where
  "bytes_of size_of vals = of_nat (size_of * length vals)"

definition legacy_size_acc :: "abstract_memory_size value_visitor" where
  "legacy_size_acc =
     \<lparr>visit_u8 = (\<lambda>_ _ acc. gas_add acc LEGACY_CONST_SIZE),
      visit_u16 = (\<lambda>_ _ acc. gas_add acc LEGACY_CONST_SIZE),
      visit_u32 = (\<lambda>_ _ acc. gas_add acc LEGACY_CONST_SIZE),
      visit_u64 = (\<lambda>_ _ acc. gas_add acc LEGACY_CONST_SIZE),
      visit_u128 = (\<lambda>_ _ acc. gas_add acc LEGACY_CONST_SIZE),
      visit_u256 = (\<lambda>_ _ acc. gas_add acc LEGACY_CONST_SIZE),
      visit_bool = (\<lambda>_ _ acc. gas_add acc LEGACY_CONST_SIZE),
      visit_address = (\<lambda>_ _ acc. gas_add acc ADDRESS_LENGTH),
      visit_struct = (\<lambda>_ _ acc. (True, gas_add acc LEGACY_STRUCT_SIZE)),
      visit_vec = (\<lambda>_ _ acc. (True, gas_add acc LEGACY_STRUCT_SIZE)),
      visit_ref = (\<lambda>_ _ acc. (False, gas_add acc LEGACY_REFERENCE_SIZE)),
      visit_vec_u8 = (\<lambda>_ vals acc. gas_add acc (bytes_of 1 vals)),
      visit_vec_u16 = (\<lambda>_ vals acc. gas_add acc (bytes_of 2 vals)),
      visit_vec_u32 = (\<lambda>_ vals acc. gas_add acc (bytes_of 4 vals)),
      visit_vec_u64 = (\<lambda>_ vals acc. gas_add acc (bytes_of 8 vals)),
      visit_vec_u128 = (\<lambda>_ vals acc. gas_add acc (bytes_of 16 vals)),
      visit_vec_u256 = (\<lambda>_ vals acc. gas_add acc (bytes_of 32 vals)),
      visit_vec_bool = (\<lambda>_ vals acc. gas_add acc (bytes_of 1 vals)),
      visit_vec_address = (\<lambda>_ vals acc. gas_add acc (bytes_of 32 vals))\<rparr>"

definition size_acc :: "abstract_memory_size value_visitor" where
  "size_acc =
     \<lparr>visit_u8 = (\<lambda>_ _ acc. gas_add acc LEGACY_CONST_SIZE),
      visit_u16 = (\<lambda>_ _ acc. gas_add acc LEGACY_CONST_SIZE),
      visit_u32 = (\<lambda>_ _ acc. gas_add acc LEGACY_CONST_SIZE),
      visit_u64 = (\<lambda>_ _ acc. gas_add acc LEGACY_CONST_SIZE),
      visit_u128 = (\<lambda>_ _ acc. gas_add acc LEGACY_CONST_SIZE),
      visit_u256 = (\<lambda>_ _ acc. gas_add acc LEGACY_CONST_SIZE),
      visit_bool = (\<lambda>_ _ acc. gas_add acc LEGACY_CONST_SIZE),
      visit_address = (\<lambda>_ _ acc. gas_add acc ADDRESS_LENGTH),
      visit_struct = (\<lambda>_ _ acc. (True, gas_add acc LEGACY_STRUCT_SIZE)),
      visit_vec = (\<lambda>_ _ acc. (True, gas_add acc LEGACY_STRUCT_SIZE)),
      visit_ref = (\<lambda>_ _ acc. (False, gas_add acc LEGACY_REFERENCE_SIZE)),
      visit_vec_u8 = (\<lambda>_ vals acc. gas_add (gas_add acc LEGACY_STRUCT_SIZE) (bytes_of 1 vals)),
      visit_vec_u16 = (\<lambda>_ vals acc. gas_add (gas_add acc LEGACY_STRUCT_SIZE) (bytes_of 2 vals)),
      visit_vec_u32 = (\<lambda>_ vals acc. gas_add (gas_add acc LEGACY_STRUCT_SIZE) (bytes_of 4 vals)),
      visit_vec_u64 = (\<lambda>_ vals acc. gas_add (gas_add acc LEGACY_STRUCT_SIZE) (bytes_of 8 vals)),
      visit_vec_u128 = (\<lambda>_ vals acc. gas_add (gas_add acc LEGACY_STRUCT_SIZE) (bytes_of 16 vals)),
      visit_vec_u256 = (\<lambda>_ vals acc. gas_add (gas_add acc LEGACY_STRUCT_SIZE) (bytes_of 32 vals)),
      visit_vec_bool = (\<lambda>_ vals acc. gas_add (gas_add acc LEGACY_STRUCT_SIZE) (bytes_of 1 vals)),
      visit_vec_address = (\<lambda>_ vals acc. gas_add (gas_add acc LEGACY_STRUCT_SIZE) (bytes_of 32 vals))\<rparr>"

definition legacy_abstract_memory_size :: "value_impl \<Rightarrow> abstract_memory_size option" where
  "legacy_abstract_memory_size v = value_visit_impl v legacy_size_acc 0 0"

definition value_abstract_memory_size :: "value_impl \<Rightarrow> abstract_memory_size option" where
  "value_abstract_memory_size v = value_visit_impl v size_acc 0 0"

subsection \<open>Type tags\<close>

datatype type_tag =
    TagBool | TagU8 | TagU64 | TagU128 | TagAddress | TagSigner
  | TagVector type_tag
  | TagStruct struct_tag
  | TagU16 | TagU32 | TagU256
and struct_tag = StructTag account_address string string "type_tag list"

definition TYPETAG_ENUM_ABSTRACT_SIZE :: abstract_memory_size where
  "TYPETAG_ENUM_ABSTRACT_SIZE = gas_add 8 16"

definition identifier_abstract_size :: "string \<Rightarrow> abstract_memory_size" where
  "identifier_abstract_size i = of_nat (length i)"

fun type_tag_abstract_size :: "type_tag \<Rightarrow> abstract_memory_size"
  and struct_tag_abstract_size :: "struct_tag \<Rightarrow> abstract_memory_size" where
  "type_tag_abstract_size (TagVector x) =
     gas_add TYPETAG_ENUM_ABSTRACT_SIZE (type_tag_abstract_size x)"
| "type_tag_abstract_size (TagStruct y) =
     gas_add TYPETAG_ENUM_ABSTRACT_SIZE (struct_tag_abstract_size y)"
| "type_tag_abstract_size _ = gas_add TYPETAG_ENUM_ABSTRACT_SIZE 0"
| "struct_tag_abstract_size (StructTag address module name type_params) =
     gas_add (gas_add (gas_add ADDRESS_LENGTH (identifier_abstract_size module))
         (identifier_abstract_size name))
       (foldl (\<lambda>accum val. gas_add accum (type_tag_abstract_size val)) 0 type_params)"

subsection \<open>The legacy size is a lower bound\<close>

text \<open>Both accumulators traverse a value alike; \<open>size_acc\<close> adds at least as much at every visit.\<close>

definition visits_le :: "abstract_memory_size visit \<Rightarrow> bool" where
  "visits_le f \<longleftrightarrow> (\<forall>depth s t. s \<le> t \<longrightarrow>
     rel_option (\<le>) (f legacy_size_acc depth s) (f size_acc depth t))"

lemma visits_leD:
  "visits_le f \<Longrightarrow> s \<le> t \<Longrightarrow> rel_option (\<le>) (f legacy_size_acc depth s) (f size_acc depth t)"
  by (simp add: visits_le_def)

lemma gas_add_mono: "a \<le> b \<Longrightarrow> gas_add a c \<le> gas_add b c"
  by (simp add: gas_add_def word_le_nat_alt unat_saturating_add)

lemma gas_add_twice_mono: "a \<le> b \<Longrightarrow> gas_add a c \<le> gas_add (gas_add b d) c"
  by (simp add: gas_add_def word_le_nat_alt unat_saturating_add)

lemma rel_option_bind:
  assumes "rel_option R x y" and "\<And>a b. R a b \<Longrightarrow> rel_option S (f a) (g b)"
  shows "rel_option S (Option.bind x f) (Option.bind y g)"
  using assms by (cases x; cases y) auto

lemma visits_le_all: "list_all visits_le fs \<Longrightarrow> visits_le (visit_all fs)"
proof (induction fs)
  case Nil
  then show ?case by (simp add: visits_le_def)
next
  case (Cons f fs)
  then have f: "visits_le f" and fs: "visits_le (visit_all fs)" by simp_all
  show ?case
    unfolding visits_le_def visit_all.simps
    by (intro allI impI rel_option_bind [OF visits_leD [OF f]] visits_leD [OF fs])
qed

lemma visits_le_nth: "list_all visits_le fs \<Longrightarrow> visits_le (visit_nth fs idx)"
  by (auto simp: visits_le_def visit_nth_def index_def list_all_length)

lemma visits_le_elements:
  assumes "list_all visits_le fs"
    and "\<And>depth n s t. s \<le> t \<Longrightarrow> fst (enter1 depth n s) = fst (enter2 depth n t) \<and>
      snd (enter1 depth n s) \<le> snd (enter2 depth n t)"
    and "s \<le> t"
  shows "rel_option (\<le>) (visit_elements enter1 fs target legacy_size_acc depth s)
    (visit_elements enter2 fs target size_acc depth t)"
  using visits_leD [OF visits_le_all [OF assms(1)]] visits_leD [OF visits_le_nth [OF assms(1)]]
    assms(2) [OF assms(3)] assms(3)
  by (cases target) (auto simp: visit_elements_def case_prod_unfold Let_def)

lemma visits_le_primitive:
  assumes "whole1 depth r s \<le> whole2 depth r t"
    and "\<And>v. single1 (depth + 1) v s \<le> single2 (depth + 1) v t"
  shows "rel_option (\<le>) (visit_primitive whole1 single1 r target depth s)
    (visit_primitive whole2 single2 r target depth t)"
  using assms by (auto simp: visit_primitive_def index_def split: option.split)

text \<open>References are not followed by either accumulator.\<close>

lemma visits_le_reference: "visits_le (visit_reference container target)"
  by (simp add: visits_le_def visit_reference_def legacy_size_acc_def size_acc_def gas_add_mono)

lemma acc_enter:
  "visit_vec legacy_size_acc depth n s = (True, gas_add s LEGACY_STRUCT_SIZE)"
  "visit_vec size_acc depth n s = (True, gas_add s LEGACY_STRUCT_SIZE)"
  "visit_struct legacy_size_acc depth n s = (True, gas_add s LEGACY_STRUCT_SIZE)"
  "visit_struct size_acc depth n s = (True, gas_add s LEGACY_STRUCT_SIZE)"
  by (simp_all add: legacy_size_acc_def size_acc_def)

lemma visits_le_value:
  "visits_le (value_visit_impl v)"
  "\<forall>target. visits_le (container_visit_impl c target)"
  "\<forall>target. visits_le (container_ref_visit_impl r target)"
proof (induction v and c and r)
  case (Locals x)
  then have "list_all visits_le (map value_visit_impl x)"
    by (simp add: list_all_iff)
  from visits_leD [OF visits_le_nth [OF this]] show ?case
    by (auto simp: visits_le_def split: option.split)
next
  case (Vec x)
  then have "list_all visits_le (map value_visit_impl x)"
    by (simp add: list_all_iff)
  then show ?case
    by (auto simp: visits_le_def acc_enter gas_add_mono intro!: visits_le_elements)
next
  case (Struct x)
  then have "list_all visits_le (map value_visit_impl x)"
    by (simp add: list_all_iff)
  then show ?case
    by (auto simp: visits_le_def acc_enter gas_add_mono intro!: visits_le_elements)
next
  case (Local x)
  show ?case by (simp add: visits_le_reference)
next
  case (Global x1 x2)
  show ?case by (simp add: visits_le_reference)
qed (auto simp: visits_le_def legacy_size_acc_def size_acc_def gas_add_mono gas_add_twice_mono
      intro!: visits_le_primitive)

text \<open>
  C34.  Every value that can be sized has both sizes, and the legacy size never exceeds the
  current one.
\<close>

theorem legacy_size_is_lower_bound:
  "rel_option (\<le>) (legacy_abstract_memory_size v) (value_abstract_memory_size v)"
  unfolding legacy_abstract_memory_size_def value_abstract_memory_size_def
  by (rule visits_leD [OF visits_le_value(1)]) simp

end
