(* ===== verification/Gas_Units.thy ===== *)
theory Gas_Units
  imports Rust_Collections Move_Values
begin

section \<open>Cost tables\<close>

text \<open>
  Models \<open>units_types.rs\<close>, \<open>gas_predicates.rs\<close> and the cost schedules of \<open>tables.rs\<close> under
  \<open>src/crates/sui-types/src/gas_model\<close>.  A tier table maps the start of a tier to the multiplier
  charged from there on.
\<close>

type_synonym tiers = "(u64, u64) btree_map"

record cost_table =
  instruction_tiers :: tiers
  stack_height_tiers :: tiers
  stack_size_tiers :: tiers

definition INSTRUCTION_TIER_DEFAULT :: u64 where "INSTRUCTION_TIER_DEFAULT = 1"
definition STACK_HEIGHT_TIER_DEFAULT :: u64 where "STACK_HEIGHT_TIER_DEFAULT = 1"
definition STACK_SIZE_TIER_DEFAULT :: u64 where "STACK_SIZE_TIER_DEFAULT = 1"

definition get_current_and_future_tier :: "tiers \<Rightarrow> u64 \<Rightarrow> u64 \<Rightarrow> u64 \<times> u64 option" where
  "get_current_and_future_tier tiers current dflt =
     (let current_cost =
            (case map_of tiers current of
               Some v \<Rightarrow> v
             | None \<Rightarrow> (case btree_last_below current tiers of Some (_, v) \<Rightarrow> v | None \<Rightarrow> dflt));
          next_tier_start = map_option fst (btree_first_above current tiers)
      in (current_cost, next_tier_start))"

definition instruction_tier :: "cost_table \<Rightarrow> u64 \<Rightarrow> u64 \<times> u64 option" where
  "instruction_tier t instr_count =
     get_current_and_future_tier (instruction_tiers t) instr_count INSTRUCTION_TIER_DEFAULT"

definition stack_height_tier :: "cost_table \<Rightarrow> u64 \<Rightarrow> u64 \<times> u64 option" where
  "stack_height_tier t stack_height =
     get_current_and_future_tier (stack_height_tiers t) stack_height STACK_HEIGHT_TIER_DEFAULT"

definition stack_size_tier :: "cost_table \<Rightarrow> u64 \<Rightarrow> u64 \<times> u64 option" where
  "stack_size_tier t stack_size =
     get_current_and_future_tier (stack_size_tiers t) stack_size STACK_SIZE_TIER_DEFAULT"

record gas_cost =
  instruction_gas :: u64
  memory_gas :: u64
  stack_height_gas :: u64

definition gas_cost_new :: "u64 \<Rightarrow> u64 \<Rightarrow> u64 \<Rightarrow> gas_cost" where
  "gas_cost_new i m h = \<lparr>instruction_gas = i, memory_gas = m, stack_height_gas = h\<rparr>"

definition gas_cost_total :: "gas_cost \<Rightarrow> u64" where
  "gas_cost_total c = instruction_gas c + memory_gas c + stack_height_gas c"

definition total_internal :: "gas_cost \<Rightarrow> internal_gas" where
  "total_internal c = instruction_gas c + memory_gas c + stack_height_gas c"

subsection \<open>The schedules\<close>

definition zero_cost_schedule :: cost_table where
  "zero_cost_schedule =
     (let zero_tier = btree_insert 0 0 []
      in \<lparr>instruction_tiers = zero_tier, stack_height_tiers = zero_tier, stack_size_tiers = zero_tier\<rparr>)"

definition unit_cost_schedule :: cost_table where
  "unit_cost_schedule =
     (let unit_tier = btree_insert 0 1 []
      in \<lparr>instruction_tiers = unit_tier, stack_height_tiers = unit_tier, stack_size_tiers = unit_tier\<rparr>)"

definition initial_cost_schedule_v1 :: cost_table where
  "initial_cost_schedule_v1 =
     \<lparr>instruction_tiers = btree_collect
        [(0, 1), (3000, 2), (6000, 3), (8000, 5), (9000, 9), (9500, 16), (10000, 29), (10500, 50)],
      stack_height_tiers = btree_collect
        [(0, 1), (400, 2), (800, 3), (1200, 5), (1500, 9), (1800, 16), (2000, 29), (2200, 50)],
      stack_size_tiers = btree_collect
        [(0, 1), (2000, 2), (5000, 3), (8000, 5), (10000, 9), (11000, 16), (11500, 29), (11500, 50)]\<rparr>"

definition initial_cost_schedule_v2 :: cost_table where
  "initial_cost_schedule_v2 =
     \<lparr>instruction_tiers = btree_collect
        [(0, 1), (3000, 2), (6000, 3), (8000, 5), (9000, 9), (9500, 16), (10000, 29), (10500, 50),
         (12000, 150), (15000, 250)],
      stack_height_tiers = btree_collect
        [(0, 1), (400, 2), (800, 3), (1200, 5), (1500, 9), (1800, 16), (2000, 29), (2200, 50),
         (3000, 150), (5000, 250)],
      stack_size_tiers = btree_collect
        [(0, 1), (2000, 2), (5000, 3), (8000, 5), (10000, 9), (11000, 16), (11500, 29), (11500, 50),
         (15000, 150), (20000, 250)]\<rparr>"

definition initial_cost_schedule_v3 :: cost_table where
  "initial_cost_schedule_v3 =
     \<lparr>instruction_tiers = btree_collect
        [(0, 1), (3000, 2), (6000, 3), (8000, 5), (9000, 9), (9500, 16), (10000, 29), (10500, 50),
         (15000, 100)],
      stack_height_tiers = btree_collect
        [(0, 1), (400, 2), (800, 3), (1200, 5), (1500, 9), (1800, 16), (2000, 29), (2200, 50),
         (5000, 100)],
      stack_size_tiers = btree_collect
        [(0, 1), (2000, 2), (5000, 3), (8000, 5), (10000, 9), (11000, 16), (11500, 29), (11500, 50),
         (20000, 100)]\<rparr>"

definition initial_cost_schedule_v4 :: cost_table where
  "initial_cost_schedule_v4 =
     \<lparr>instruction_tiers = btree_collect
        [(0, 1), (20000, 2), (50000, 10), (100000, 50), (200000, 100)],
      stack_height_tiers = btree_collect [(0, 1), (1000, 2), (10000, 10)],
      stack_size_tiers = btree_collect
        [(0, 1), (100000, 2), (500000, 5), (1000000, 100)]\<rparr>"

definition initial_cost_schedule_v5 :: cost_table where
  "initial_cost_schedule_v5 =
     \<lparr>instruction_tiers = btree_collect
        [(0, 1), (20000, 2), (50000, 10), (100000, 50), (200000, 100), (10000000, 1000)],
      stack_height_tiers = btree_collect [(0, 1), (1000, 2), (10000, 10)],
      stack_size_tiers = btree_collect
        [(0, 1), (100000, 2), (500000, 5), (1000000, 100), (100000000, 1000)]\<rparr>"

subsection \<open>Predicates on the gas model version\<close>

definition dont_charge_budget_on_storage_oog :: "u64 \<Rightarrow> bool" where
  "dont_charge_budget_on_storage_oog v \<longleftrightarrow> 4 \<le> v"

definition gas_price_too_high :: "u64 \<Rightarrow> bool" where
  "gas_price_too_high v \<longleftrightarrow> 4 \<le> v"

definition charge_input_as_memory :: "u64 \<Rightarrow> bool" where
  "charge_input_as_memory v \<longleftrightarrow> v = 4"

definition use_legacy_abstract_size :: "u64 \<Rightarrow> bool" where
  "use_legacy_abstract_size v \<longleftrightarrow> v \<le> 7"

definition charge_upgrades :: "u64 \<Rightarrow> bool" where
  "charge_upgrades v \<longleftrightarrow> 7 \<le> v"

definition cost_table_for_version :: "u64 \<Rightarrow> cost_table" where
  "cost_table_for_version gas_model =
     (if gas_model \<le> 3 then initial_cost_schedule_v1
      else if gas_model = 4 then initial_cost_schedule_v2
      else if gas_model = 5 then initial_cost_schedule_v3
      else if gas_model \<le> 7 then initial_cost_schedule_v4
      else initial_cost_schedule_v5)"

subsection \<open>What a tier lookup returns\<close>

text \<open>
  The reference: the multiplier of the last tier that starts at or below the current value.
\<close>

definition tier_multiplier :: "tiers \<Rightarrow> u64 \<Rightarrow> u64 \<Rightarrow> u64" where
  "tier_multiplier tiers current dflt =
     (case rev (filter (\<lambda>e. fst e \<le> current) tiers) of [] \<Rightarrow> dflt | (_, v) # _ \<Rightarrow> v)"

lemma last_filter_le:
  assumes "btree_inv tiers" and "map_of tiers j = Some v" and "j \<le> x"
    and "\<forall>i \<in> fst ` set tiers. i \<le> x \<longrightarrow> i \<le> j"
  shows "\<exists>es. rev (filter (\<lambda>e. fst e \<le> x) tiers) = (j, v) # es"
  using assms
proof (induction tiers)
  case Nil
  then show ?case by simp
next
  case (Cons e tiers)
  obtain k w where e: "e = (k, w)" by (cases e)
  show ?case
  proof (cases "k = j")
    case True
    have "filter (\<lambda>e. fst e \<le> x) tiers = []"
      using Cons.prems(1,4) by (auto simp: e True btree_inv_Cons filter_empty_conv dest: leD)
    with True Cons.prems show ?thesis by (simp add: e)
  next
    case False
    with Cons.prems have "map_of tiers j = Some v" by (simp add: e)
    moreover from Cons.prems have "btree_inv tiers" by (simp add: e btree_inv_Cons)
    ultimately obtain es where "rev (filter (\<lambda>e. fst e \<le> x) tiers) = (j, v) # es"
      using Cons.IH Cons.prems by auto
    then show ?thesis
      by (cases "k \<le> x") (auto simp: e intro: exI [of _ "es @ [(k, w)]"])
  qed
qed

lemma tier_lookup_fst:
  assumes "btree_inv tiers"
  shows "fst (get_current_and_future_tier tiers x dflt) = tier_multiplier tiers x dflt"
proof (cases "map_of tiers x")
  case (Some v)
  then show ?thesis
    using last_filter_le [OF assms Some, of x]
    by (auto simp: get_current_and_future_tier_def tier_multiplier_def)
next
  case None
  then have ne: "x \<notin> fst ` set tiers" by (simp add: map_of_eq_None_iff)
  show ?thesis
  proof (cases "btree_last_below x tiers")
    case below: None
    then have "filter (\<lambda>e. fst e \<le> x) tiers = []"
      using btree_last_below_None [OF assms below] ne
      by (force simp: filter_empty_conv)
    with None below show ?thesis
      by (simp add: get_current_and_future_tier_def tier_multiplier_def)
  next
    case (Some jv)
    obtain j v where jv: "jv = (j, v)" by (cases jv)
    from btree_last_below_Some [OF assms Some [unfolded jv]] ne
    have "\<exists>es. rev (filter (\<lambda>e. fst e \<le> x) tiers) = (j, v) # es"
      by (intro last_filter_le [OF assms]) (auto simp: order.order_iff_strict)
    with None Some show ?thesis
      by (auto simp: get_current_and_future_tier_def tier_multiplier_def jv)
  qed
qed

lemma tier_lookup_snd:
  assumes "btree_inv tiers"
  shows "snd (get_current_and_future_tier tiers x dflt) = Some n \<longleftrightarrow>
    n \<in> fst ` set tiers \<and> x < n \<and> (\<forall>i \<in> fst ` set tiers. x < i \<longrightarrow> n \<le> i)"
proof (cases "btree_first_above x tiers")
  case None
  then show ?thesis
    using btree_first_above_None [OF assms None]
    by (auto simp: get_current_and_future_tier_def)
next
  case (Some jv)
  obtain j v where jv: "jv = (j, v)" by (cases jv)
  note above = btree_first_above_Some [OF assms Some [unfolded jv]]
  then have "j \<in> fst ` set tiers"
    by (metis domI dom_map_of_conv_image_fst)
  with above show ?thesis
    by (auto simp: get_current_and_future_tier_def Some jv intro: order.antisym)
qed

lemma tier_lookup_some:
  assumes "btree_inv tiers" and "k \<in> fst ` set tiers" and "x < k"
  shows "\<exists>n. snd (get_current_and_future_tier tiers x dflt) = Some n"
  using btree_first_above_None [OF assms(1), of x] assms(2,3)
  by (cases "btree_first_above x tiers") (auto simp: get_current_and_future_tier_def dest: leD)

end
