(* ===== verification/Gas_Tables.thy ===== *)
theory Gas_Tables
  imports Gas_Units
begin

section \<open>The gas meter of the Move VM\<close>

text \<open>
  Models \<open>GasStatus\<close> and its \<open>GasMeter\<close> implementation in
  \<open>src/crates/sui-types/src/gas_model/tables.rs\<close>.  \<open>PartialVMResult<()>\<close> is \<open>status_code + unit\<close>;
  every operation returns it together with the new state, because a failing operation has
  already updated counters.  Operations that size a value return \<^const>\<open>None\<close> where sizing it
  panics.  The module is not under checked arithmetic: \<open>*\<close> and \<open>+\<close> wrap.  The profiler fields exist
  only in debug builds and are left out.
\<close>

datatype status_code = ARITHMETIC_OVERFLOW | PC_OVERFLOW | OUT_OF_GAS

definition VM_FLAT_FEE :: u64 where "VM_FLAT_FEE = 8000"
definition REFERENCE_SIZE :: abstract_memory_size where "REFERENCE_SIZE = 8"
definition STRUCT_SIZE :: abstract_memory_size where "STRUCT_SIZE = 2"
definition VEC_SIZE :: abstract_memory_size where "VEC_SIZE = 8"

record gas_status =
  gas_model_version :: u64
  cost_table_of :: cost_table
  gas_left :: internal_gas
  gas_price :: u64
  initial_budget :: internal_gas
  charging :: bool
  stack_height_high_water_mark :: u64
  stack_height_current :: u64
  stack_height_next_tier_start :: "u64 option"
  stack_height_current_tier_mult :: u64
  stack_size_high_water_mark :: u64
  stack_size_current :: u64
  stack_size_next_tier_start :: "u64 option"
  stack_size_current_tier_mult :: u64
  instructions_executed :: u64
  instructions_next_tier_start :: "u64 option"
  instructions_current_tier_mult :: u64

type_synonym vm_result = "(status_code + unit) \<times> gas_status"

definition INTERNAL_UNIT_MULTIPLIER :: u64 where "INTERNAL_UNIT_MULTIPLIER = 1000"

definition to_internal_units :: "u64 \<Rightarrow> internal_gas" where
  "to_internal_units val = val * INTERNAL_UNIT_MULTIPLIER"

text \<open>\<open>InternalGas::to_unit_round_down\<close> into \<open>Gas\<close>: the ratio is 1 to 1000.\<close>

definition internal_to_gas :: "internal_gas \<Rightarrow> u64 option" where
  "internal_to_gas = to_unit_round_down 1 1000"

definition gas_status_new :: "cost_table \<Rightarrow> u64 \<Rightarrow> u64 \<Rightarrow> u64 \<Rightarrow> gas_status option" where
  "gas_status_new table budget price version = do {
     rust_assert (0 < price);
     let budget_in_unit = budget div price;
     let left = to_internal_units budget_in_unit;
     let (height_mult, height_next) = stack_height_tier table 0;
     let (size_mult, size_next) = stack_size_tier table 0;
     let (instr_mult, instr_next) = instruction_tier table 0;
     Some \<lparr>gas_model_version = version, cost_table_of = table, gas_left = left, gas_price = price,
       initial_budget = left, charging = True,
       stack_height_high_water_mark = 0, stack_height_current = 0,
       stack_height_next_tier_start = height_next, stack_height_current_tier_mult = height_mult,
       stack_size_high_water_mark = 0, stack_size_current = 0,
       stack_size_next_tier_start = size_next, stack_size_current_tier_mult = size_mult,
       instructions_executed = 0,
       instructions_next_tier_start = instr_next, instructions_current_tier_mult = instr_mult\<rparr>
   }"

definition gas_status_new_unmetered :: gas_status where
  "gas_status_new_unmetered =
     \<lparr>gas_model_version = 4, cost_table_of = zero_cost_schedule, gas_left = 0, gas_price = 1,
      initial_budget = 0, charging = False,
      stack_height_high_water_mark = 0, stack_height_current = 0,
      stack_height_next_tier_start = None, stack_height_current_tier_mult = 0,
      stack_size_high_water_mark = 0, stack_size_current = 0,
      stack_size_next_tier_start = None, stack_size_current_tier_mult = 0,
      instructions_executed = 0,
      instructions_next_tier_start = None, instructions_current_tier_mult = 0\<rparr>"

definition to_mist :: "gas_status \<Rightarrow> internal_gas \<Rightarrow> u64 option" where
  "to_mist g val = map_option (\<lambda>gas. gas * gas_price g) (internal_to_gas val)"

subsection \<open>Counters\<close>

definition push_stack :: "u64 \<Rightarrow> gas_status \<Rightarrow> vm_result" where
  "push_stack pushes g =
     (case checked_add (stack_height_current g) pushes of
        None \<Rightarrow> (Inl ARITHMETIC_OVERFLOW, g)
      | Some new_height \<Rightarrow>
          (let g = (if stack_height_high_water_mark g < new_height
                    then g\<lparr>stack_height_high_water_mark := new_height\<rparr> else g);
               g = g\<lparr>stack_height_current := new_height\<rparr>
           in case stack_height_next_tier_start g of
                Some tier_next \<Rightarrow>
                  if tier_next < stack_height_current g then
                    (let (next_mul, next_tier) =
                           stack_height_tier (cost_table_of g) (stack_height_current g)
                     in (Inr (), g\<lparr>stack_height_current_tier_mult := next_mul,
                                   stack_height_next_tier_start := next_tier\<rparr>))
                  else (Inr (), g)
              | None \<Rightarrow> (Inr (), g)))"

definition pop_stack :: "u64 \<Rightarrow> gas_status \<Rightarrow> gas_status" where
  "pop_stack pops g = g\<lparr>stack_height_current := saturating_sub (stack_height_current g) pops\<rparr>"

definition increase_instruction_count :: "u64 \<Rightarrow> gas_status \<Rightarrow> vm_result" where
  "increase_instruction_count amount g =
     (case checked_add (instructions_executed g) amount of
        None \<Rightarrow> (Inl PC_OVERFLOW, g)
      | Some new_pc \<Rightarrow>
          (let g = g\<lparr>instructions_executed := new_pc\<rparr>
           in case instructions_next_tier_start g of
                Some tier_next \<Rightarrow>
                  if tier_next < instructions_executed g then
                    (let (instr_cost, next_tier) =
                           instruction_tier (cost_table_of g) (instructions_executed g)
                     in (Inr (), g\<lparr>instructions_current_tier_mult := instr_cost,
                                   instructions_next_tier_start := next_tier\<rparr>))
                  else (Inr (), g)
              | None \<Rightarrow> (Inr (), g)))"

definition increase_stack_size :: "u64 \<Rightarrow> gas_status \<Rightarrow> vm_result" where
  "increase_stack_size size_amount g =
     (case checked_add (stack_size_current g) size_amount of
        None \<Rightarrow> (Inl ARITHMETIC_OVERFLOW, g)
      | Some new_size \<Rightarrow>
          (let g = (if stack_size_high_water_mark g < new_size
                    then g\<lparr>stack_size_high_water_mark := new_size\<rparr> else g);
               g = g\<lparr>stack_size_current := new_size\<rparr>
           in case stack_size_next_tier_start g of
                Some tier_next \<Rightarrow>
                  if tier_next < stack_size_current g then
                    (let (next_mul, next_tier) =
                           stack_size_tier (cost_table_of g) (stack_size_current g)
                     in (Inr (), g\<lparr>stack_size_current_tier_mult := next_mul,
                                   stack_size_next_tier_start := next_tier\<rparr>))
                  else (Inr (), g)
              | None \<Rightarrow> (Inr (), g)))"

definition decrease_stack_size :: "u64 \<Rightarrow> gas_status \<Rightarrow> gas_status" where
  "decrease_stack_size size_amount g =
     (let new_size = saturating_sub (stack_size_current g) size_amount;
          g = (if stack_size_high_water_mark g < new_size
               then g\<lparr>stack_size_high_water_mark := new_size\<rparr> else g)
      in g\<lparr>stack_size_current := new_size\<rparr>)"

subsection \<open>Charging\<close>

definition deduct_gas :: "internal_gas \<Rightarrow> gas_status \<Rightarrow> vm_result" where
  "deduct_gas amount g =
     (if \<not> charging g then (Inr (), g)
      else case gas_checked_sub (gas_left g) amount of
          Some left \<Rightarrow> (Inr (), g\<lparr>gas_left := left\<rparr>)
        | None \<Rightarrow> (Inl OUT_OF_GAS, g\<lparr>gas_left := 0\<rparr>))"

definition deduct_units :: "u64 \<Rightarrow> gas_status \<Rightarrow> vm_result" where
  "deduct_units amount g = deduct_gas amount g"

definition set_metering :: "bool \<Rightarrow> gas_status \<Rightarrow> gas_status" where
  "set_metering enabled g = g\<lparr>charging := enabled\<rparr>"

text \<open>The \<open>?\<close> operator on a \<open>PartialVMResult\<close>.\<close>

definition and_then :: "vm_result \<Rightarrow> (gas_status \<Rightarrow> vm_result) \<Rightarrow> vm_result" where
  "and_then r f = (case r of (Inl e, g) \<Rightarrow> (Inl e, g) | (Inr u, g) \<Rightarrow> f g)"

text \<open>\<open>ok_or_else\<close> on a checked product.\<close>

definition or_overflow :: "u64 option \<Rightarrow> gas_status \<Rightarrow> (u64 \<Rightarrow> vm_result) \<Rightarrow> vm_result" where
  "or_overflow p g f = (case p of None \<Rightarrow> (Inl ARITHMETIC_OVERFLOW, g) | Some v \<Rightarrow> f v)"

definition charge :: "u64 \<Rightarrow> u64 \<Rightarrow> u64 \<Rightarrow> u64 \<Rightarrow> u64 \<Rightarrow> gas_status \<Rightarrow> vm_result" where
  "charge num_instructions pushes pops incr_size decr_size g =
     and_then (push_stack pushes g) (\<lambda>g.
     and_then (increase_instruction_count num_instructions g) (\<lambda>g.
     and_then (increase_stack_size incr_size g) (\<lambda>g.
       or_overflow (checked_mul (instructions_current_tier_mult g) num_instructions) g (\<lambda>i.
       or_overflow (checked_mul (stack_size_current_tier_mult g) incr_size) g (\<lambda>m.
       or_overflow (checked_mul (stack_height_current_tier_mult g) pushes) g (\<lambda>h.
         and_then (deduct_gas (total_internal (gas_cost_new i m h)) g) (\<lambda>g.
           (Inr (), pop_stack pops g))))))))"

definition gas_used_pre_gas_price :: "gas_status \<Rightarrow> u64 option" where
  "gas_used_pre_gas_price g =
     (case gas_checked_sub (initial_budget g) (gas_left g) of
        Some val \<Rightarrow> internal_to_gas val
      | None \<Rightarrow> internal_to_gas (initial_budget g))"

definition status_remaining_gas :: "gas_status \<Rightarrow> u64 option" where
  "status_remaining_gas g = internal_to_gas (gas_left g)"

definition charge_bytes :: "u64 \<Rightarrow> u64 \<Rightarrow> gas_status \<Rightarrow> vm_result" where
  "charge_bytes sz cost_per_byte g =
     (if charge_input_as_memory (gas_model_version g)
      then and_then (increase_stack_size sz g) (\<lambda>g.
             deduct_units (stack_size_current_tier_mult g * sz * cost_per_byte) g)
      else deduct_units (sz * cost_per_byte) g)"

definition abstract_memory_size :: "gas_status \<Rightarrow> value_impl \<Rightarrow> abstract_memory_size option" where
  "abstract_memory_size g val =
     (if use_legacy_abstract_size (gas_model_version g) then legacy_abstract_memory_size val
      else value_abstract_memory_size val)"

subsection \<open>Stack effects of the simple instructions\<close>

datatype runtime_type =
    TyBool | TyU8 | TyU64 | TyU128 | TyAddress | TySigner
  | TyVector runtime_type
  | TyStruct nat
  | TyStructInstantiation nat "runtime_type list"
  | TyReference runtime_type
  | TyMutableReference runtime_type
  | TyParam u16
  | TyU16 | TyU32 | TyU256

definition LEGACY_BASE_MEMORY_SIZE :: abstract_memory_size where
  "LEGACY_BASE_MEMORY_SIZE = 1"

primrec type_size :: "runtime_type \<Rightarrow> abstract_memory_size" where
  "type_size TyBool = LEGACY_BASE_MEMORY_SIZE"
| "type_size TyU8 = LEGACY_BASE_MEMORY_SIZE"
| "type_size TyU64 = LEGACY_BASE_MEMORY_SIZE"
| "type_size TyU128 = LEGACY_BASE_MEMORY_SIZE"
| "type_size TyAddress = LEGACY_BASE_MEMORY_SIZE"
| "type_size TySigner = LEGACY_BASE_MEMORY_SIZE"
| "type_size (TyVector ty) = gas_add LEGACY_BASE_MEMORY_SIZE (type_size ty)"
| "type_size (TyStruct idx) = LEGACY_BASE_MEMORY_SIZE"
| "type_size (TyStructInstantiation idx tys) =
     foldl gas_add LEGACY_BASE_MEMORY_SIZE (map type_size tys)"
| "type_size (TyReference ty) = gas_add LEGACY_BASE_MEMORY_SIZE (type_size ty)"
| "type_size (TyMutableReference ty) = gas_add LEGACY_BASE_MEMORY_SIZE (type_size ty)"
| "type_size (TyParam n) = LEGACY_BASE_MEMORY_SIZE"
| "type_size TyU16 = LEGACY_BASE_MEMORY_SIZE"
| "type_size TyU32 = LEGACY_BASE_MEMORY_SIZE"
| "type_size TyU256 = LEGACY_BASE_MEMORY_SIZE"

datatype simple_instruction =
    I_Nop | I_Ret | I_BrTrue | I_BrFalse | I_Branch
  | I_LdU8 | I_LdU64 | I_LdU128 | I_LdTrue | I_LdFalse
  | I_FreezeRef | I_MutBorrowLoc | I_ImmBorrowLoc
  | I_ImmBorrowField | I_MutBorrowField | I_ImmBorrowFieldGeneric | I_MutBorrowFieldGeneric
  | I_CastU8 | I_CastU64 | I_CastU128
  | I_Add | I_Sub | I_Mul | I_Mod | I_Div
  | I_BitOr | I_BitAnd | I_Xor | I_Shl | I_Shr
  | I_Or | I_And | I_Not | I_Lt | I_Gt | I_Le | I_Ge
  | I_Abort
  | I_LdU16 | I_LdU32 | I_LdU256 | I_CastU16 | I_CastU32 | I_CastU256

text \<open>The tuple is pops, pushes, stack size decrease, stack size increase.\<close>

definition get_simple_instruction_stack_change ::
  "simple_instruction \<Rightarrow> u64 \<times> u64 \<times> abstract_memory_size \<times> abstract_memory_size" where
  "get_simple_instruction_stack_change instr =
     (let binary = (2, 1, gas_add (type_size TyU8) (type_size TyU8), type_size TyU256);
          compare = (2, 1, gas_add (type_size TyU8) (type_size TyU8), type_size TyBool)
      in case instr of
        I_Nop \<Rightarrow> (0, 0, 0, 0) | I_Ret \<Rightarrow> (0, 0, 0, 0)
      | I_BrTrue \<Rightarrow> (1, 0, type_size TyBool, 0) | I_BrFalse \<Rightarrow> (1, 0, type_size TyBool, 0)
      | I_Branch \<Rightarrow> (0, 0, 0, 0)
      | I_LdU8 \<Rightarrow> (0, 1, 0, type_size TyU8)
      | I_LdU16 \<Rightarrow> (0, 1, 0, type_size TyU16)
      | I_LdU32 \<Rightarrow> (0, 1, 0, type_size TyU32)
      | I_LdU64 \<Rightarrow> (0, 1, 0, type_size TyU64)
      | I_LdU128 \<Rightarrow> (0, 1, 0, type_size TyU128)
      | I_LdU256 \<Rightarrow> (0, 1, 0, type_size TyU256)
      | I_LdTrue \<Rightarrow> (0, 1, 0, type_size TyBool) | I_LdFalse \<Rightarrow> (0, 1, 0, type_size TyBool)
      | I_FreezeRef \<Rightarrow> (1, 1, REFERENCE_SIZE, REFERENCE_SIZE)
      | I_ImmBorrowLoc \<Rightarrow> (0, 1, 0, REFERENCE_SIZE) | I_MutBorrowLoc \<Rightarrow> (0, 1, 0, REFERENCE_SIZE)
      | I_ImmBorrowField \<Rightarrow> (1, 1, REFERENCE_SIZE, REFERENCE_SIZE)
      | I_MutBorrowField \<Rightarrow> (1, 1, REFERENCE_SIZE, REFERENCE_SIZE)
      | I_ImmBorrowFieldGeneric \<Rightarrow> (1, 1, REFERENCE_SIZE, REFERENCE_SIZE)
      | I_MutBorrowFieldGeneric \<Rightarrow> (1, 1, REFERENCE_SIZE, REFERENCE_SIZE)
      | I_CastU8 \<Rightarrow> (1, 1, type_size TyU8, type_size TyU8)
      | I_CastU16 \<Rightarrow> (1, 1, type_size TyU8, type_size TyU16)
      | I_CastU32 \<Rightarrow> (1, 1, type_size TyU8, type_size TyU32)
      | I_CastU64 \<Rightarrow> (1, 1, type_size TyU8, type_size TyU64)
      | I_CastU128 \<Rightarrow> (1, 1, type_size TyU8, type_size TyU128)
      | I_CastU256 \<Rightarrow> (1, 1, type_size TyU8, type_size TyU256)
      | I_Add \<Rightarrow> binary | I_Sub \<Rightarrow> binary | I_Mul \<Rightarrow> binary | I_Mod \<Rightarrow> binary | I_Div \<Rightarrow> binary
      | I_BitOr \<Rightarrow> binary | I_BitAnd \<Rightarrow> binary | I_Xor \<Rightarrow> binary
      | I_Shl \<Rightarrow> binary | I_Shr \<Rightarrow> binary
      | I_Or \<Rightarrow> (2, 1, gas_add (type_size TyBool) (type_size TyBool), type_size TyBool)
      | I_And \<Rightarrow> (2, 1, gas_add (type_size TyBool) (type_size TyBool), type_size TyBool)
      | I_Lt \<Rightarrow> compare | I_Gt \<Rightarrow> compare | I_Le \<Rightarrow> compare | I_Ge \<Rightarrow> compare
      | I_Not \<Rightarrow> (1, 1, type_size TyBool, type_size TyBool)
      | I_Abort \<Rightarrow> (1, 0, type_size TyU64, 0))"

subsection \<open>The \<open>GasMeter\<close> operations\<close>

definition charge_simple_instr :: "simple_instruction \<Rightarrow> gas_status \<Rightarrow> vm_result" where
  "charge_simple_instr instr g =
     (let (pops, pushes, pop_size, push_size) = get_simple_instruction_stack_change instr
      in charge 1 pushes pops push_size pop_size g)"

definition charge_pop :: "value_impl \<Rightarrow> gas_status \<Rightarrow> vm_result option" where
  "charge_pop popped_val g = do {
     sz \<leftarrow> abstract_memory_size g popped_val;
     Some (charge 1 0 1 0 sz g)
   }"

fun add_sizes ::
  "gas_status \<Rightarrow> abstract_memory_size \<Rightarrow> value_impl list \<Rightarrow> abstract_memory_size option" where
  "add_sizes g acc [] = Some acc"
| "add_sizes g acc (v # vs) = do {
     sz \<leftarrow> abstract_memory_size g v;
     add_sizes g (gas_add acc sz) vs
   }"

definition charge_native_function ::
  "internal_gas \<Rightarrow> value_impl list option \<Rightarrow> gas_status \<Rightarrow> vm_result option" where
  "charge_native_function amount ret_vals g = do {
     let pushes = (case ret_vals of Some vs \<Rightarrow> of_nat (length vs) | None \<Rightarrow> 0);
     size_increase \<leftarrow> (case ret_vals of Some vs \<Rightarrow> add_sizes g 0 vs | None \<Rightarrow> Some 0);
     Some (and_then (charge 0 pushes 0 size_increase 0 g) (deduct_gas amount))
   }"

definition charge_native_function_before_execution ::
  "value_impl list \<Rightarrow> gas_status \<Rightarrow> vm_result option" where
  "charge_native_function_before_execution args g = do {
     let pops = of_nat (length args);
     stack_reduction_size \<leftarrow> add_sizes g pops args;
     Some (charge 1 0 pops 0 stack_reduction_size g)
   }"

definition charge_call :: "value_impl list \<Rightarrow> gas_status \<Rightarrow> vm_result option" where
  "charge_call args g = do {
     let pops = of_nat (length args);
     stack_reduction_size \<leftarrow> add_sizes g 0 args;
     Some (charge 1 0 pops 0 stack_reduction_size g)
   }"

definition charge_call_generic :: "value_impl list \<Rightarrow> gas_status \<Rightarrow> vm_result option" where
  "charge_call_generic args g = do {
     let pops = of_nat (length args);
     stack_reduction_size \<leftarrow> add_sizes g 0 args;
     Some (charge 1 0 pops 0 stack_reduction_size g)
   }"

definition charge_ld_const :: "u64 \<Rightarrow> gas_status \<Rightarrow> vm_result" where
  "charge_ld_const sz g = charge 1 1 0 sz 0 g"

definition charge_ld_const_after_deserialization :: "value_impl \<Rightarrow> gas_status \<Rightarrow> vm_result" where
  "charge_ld_const_after_deserialization val g = (Inr (), g)"

definition charge_copy_loc :: "value_impl \<Rightarrow> gas_status \<Rightarrow> vm_result option" where
  "charge_copy_loc val g = do {
     sz \<leftarrow> abstract_memory_size g val;
     Some (charge 1 1 0 sz 0 g)
   }"

definition charge_move_loc :: "value_impl \<Rightarrow> gas_status \<Rightarrow> vm_result option" where
  "charge_move_loc val g = do {
     sz \<leftarrow> abstract_memory_size g val;
     Some (charge 1 1 0 sz 0 g)
   }"

definition charge_store_loc :: "value_impl \<Rightarrow> gas_status \<Rightarrow> vm_result option" where
  "charge_store_loc val g = do {
     sz \<leftarrow> abstract_memory_size g val;
     Some (charge 1 0 1 0 sz g)
   }"

definition charge_pack :: "value_impl list \<Rightarrow> gas_status \<Rightarrow> vm_result" where
  "charge_pack args g = charge 1 1 (of_nat (length args)) STRUCT_SIZE 0 g"

definition charge_unpack :: "value_impl list \<Rightarrow> gas_status \<Rightarrow> vm_result" where
  "charge_unpack args g = charge 1 (of_nat (length args)) 1 0 STRUCT_SIZE g"

definition charge_read_ref :: "value_impl \<Rightarrow> gas_status \<Rightarrow> vm_result option" where
  "charge_read_ref ref_val g = do {
     sz \<leftarrow> abstract_memory_size g ref_val;
     Some (charge 1 1 1 sz REFERENCE_SIZE g)
   }"

definition charge_write_ref :: "value_impl \<Rightarrow> value_impl \<Rightarrow> gas_status \<Rightarrow> vm_result option" where
  "charge_write_ref new_val old_val g = do {
     new_size \<leftarrow> abstract_memory_size g new_val;
     old_size \<leftarrow> abstract_memory_size g old_val;
     Some (charge 1 1 2 new_size old_size g)
   }"

definition charge_eq :: "value_impl \<Rightarrow> value_impl \<Rightarrow> gas_status \<Rightarrow> vm_result option" where
  "charge_eq lhs rhs g = do {
     l \<leftarrow> abstract_memory_size g lhs;
     r \<leftarrow> abstract_memory_size g rhs;
     let size_reduction = gas_add l r;
     Some (charge 1 1 2 (gas_add (type_size TyBool) size_reduction) size_reduction g)
   }"

definition charge_neq :: "value_impl \<Rightarrow> value_impl \<Rightarrow> gas_status \<Rightarrow> vm_result option" where
  "charge_neq lhs rhs g = do {
     l \<leftarrow> abstract_memory_size g lhs;
     r \<leftarrow> abstract_memory_size g rhs;
     let size_reduction = gas_add l r;
     Some (charge 1 1 2 (type_size TyBool) size_reduction g)
   }"

definition charge_load_resource :: "gas_status \<Rightarrow> vm_result" where
  "charge_load_resource g = (Inr (), g)"

definition charge_borrow_global :: "gas_status \<Rightarrow> vm_result" where
  "charge_borrow_global g = charge 1 1 1 REFERENCE_SIZE (type_size TyAddress) g"

definition charge_exists :: "gas_status \<Rightarrow> vm_result" where
  "charge_exists g = charge 1 1 1 (type_size TyBool) (type_size TyAddress) g"

definition charge_move_from ::
  "type_tag \<Rightarrow> value_impl option \<Rightarrow> gas_status \<Rightarrow> vm_result option" where
  "charge_move_from ty val g = do {
     sz \<leftarrow> (case val of
              Some v \<Rightarrow> abstract_memory_size g v
            | None \<Rightarrow> Some (type_tag_abstract_size ty));
     Some (charge 1 1 1 sz (type_size TyAddress) g)
   }"

definition charge_move_to :: "gas_status \<Rightarrow> vm_result" where
  "charge_move_to g = charge 1 0 2 0 (type_size TyAddress) g"

definition charge_vec_pack :: "value_impl list \<Rightarrow> gas_status \<Rightarrow> vm_result" where
  "charge_vec_pack args g = charge 1 1 (of_nat (length args)) VEC_SIZE 0 g"

definition charge_vec_len :: "gas_status \<Rightarrow> vm_result" where
  "charge_vec_len g = charge 1 1 1 (type_size TyU64) REFERENCE_SIZE g"

definition charge_vec_borrow :: "gas_status \<Rightarrow> vm_result" where
  "charge_vec_borrow g =
     charge 1 1 2 REFERENCE_SIZE (gas_add REFERENCE_SIZE (type_size TyU64)) g"

definition charge_vec_push_back :: "gas_status \<Rightarrow> vm_result" where
  "charge_vec_push_back g = charge 1 0 2 0 REFERENCE_SIZE g"

definition charge_vec_pop_back :: "gas_status \<Rightarrow> vm_result" where
  "charge_vec_pop_back g = charge 1 1 1 0 REFERENCE_SIZE g"

definition charge_vec_unpack :: "u64 \<Rightarrow> gas_status \<Rightarrow> vm_result" where
  "charge_vec_unpack expect_num_elements g = charge 1 expect_num_elements 1 0 VEC_SIZE g"

definition charge_vec_swap :: "gas_status \<Rightarrow> vm_result" where
  "charge_vec_swap g =
     charge 1 1 1 0 (gas_add (gas_add REFERENCE_SIZE (type_size TyU64)) (type_size TyU64)) g"

definition charge_drop_frame :: "gas_status \<Rightarrow> vm_result" where
  "charge_drop_frame g = (Inr (), g)"

definition meter_remaining_gas :: "gas_status \<Rightarrow> internal_gas" where
  "meter_remaining_gas g = (if \<not> charging g then - 1 else gas_left g)"

subsection \<open>Runs of the meter\<close>

datatype meter_op =
    ChargeSimpleInstr simple_instruction
  | ChargePop value_impl
  | ChargeNativeFunction internal_gas "value_impl list option"
  | ChargeNativeFunctionBeforeExecution "value_impl list"
  | ChargeCall "value_impl list"
  | ChargeCallGeneric "value_impl list"
  | ChargeLdConst u64
  | ChargeLdConstAfterDeserialization value_impl
  | ChargeCopyLoc value_impl
  | ChargeMoveLoc value_impl
  | ChargeStoreLoc value_impl
  | ChargePack "value_impl list"
  | ChargeUnpack "value_impl list"
  | ChargeReadRef value_impl
  | ChargeWriteRef value_impl value_impl
  | ChargeEq value_impl value_impl
  | ChargeNeq value_impl value_impl
  | ChargeLoadResource
  | ChargeBorrowGlobal
  | ChargeExists
  | ChargeMoveFrom type_tag "value_impl option"
  | ChargeMoveTo
  | ChargeVecPack "value_impl list"
  | ChargeVecLen
  | ChargeVecBorrow
  | ChargeVecPushBack
  | ChargeVecPopBack
  | ChargeVecUnpack u64
  | ChargeVecSwap
  | ChargeDropFrame
  | ChargeBytes u64 u64

primrec meter_step :: "meter_op \<Rightarrow> gas_status \<Rightarrow> vm_result option" where
  "meter_step (ChargeSimpleInstr i) = (\<lambda>g. Some (charge_simple_instr i g))"
| "meter_step (ChargePop v) = charge_pop v"
| "meter_step (ChargeNativeFunction amount vs) = charge_native_function amount vs"
| "meter_step (ChargeNativeFunctionBeforeExecution vs) = charge_native_function_before_execution vs"
| "meter_step (ChargeCall vs) = charge_call vs"
| "meter_step (ChargeCallGeneric vs) = charge_call_generic vs"
| "meter_step (ChargeLdConst n) = (\<lambda>g. Some (charge_ld_const n g))"
| "meter_step (ChargeLdConstAfterDeserialization v) =
     (\<lambda>g. Some (charge_ld_const_after_deserialization v g))"
| "meter_step (ChargeCopyLoc v) = charge_copy_loc v"
| "meter_step (ChargeMoveLoc v) = charge_move_loc v"
| "meter_step (ChargeStoreLoc v) = charge_store_loc v"
| "meter_step (ChargePack vs) = (\<lambda>g. Some (charge_pack vs g))"
| "meter_step (ChargeUnpack vs) = (\<lambda>g. Some (charge_unpack vs g))"
| "meter_step (ChargeReadRef v) = charge_read_ref v"
| "meter_step (ChargeWriteRef v w) = charge_write_ref v w"
| "meter_step (ChargeEq v w) = charge_eq v w"
| "meter_step (ChargeNeq v w) = charge_neq v w"
| "meter_step ChargeLoadResource = (\<lambda>g. Some (charge_load_resource g))"
| "meter_step ChargeBorrowGlobal = (\<lambda>g. Some (charge_borrow_global g))"
| "meter_step ChargeExists = (\<lambda>g. Some (charge_exists g))"
| "meter_step (ChargeMoveFrom ty v) = charge_move_from ty v"
| "meter_step ChargeMoveTo = (\<lambda>g. Some (charge_move_to g))"
| "meter_step (ChargeVecPack vs) = (\<lambda>g. Some (charge_vec_pack vs g))"
| "meter_step ChargeVecLen = (\<lambda>g. Some (charge_vec_len g))"
| "meter_step ChargeVecBorrow = (\<lambda>g. Some (charge_vec_borrow g))"
| "meter_step ChargeVecPushBack = (\<lambda>g. Some (charge_vec_push_back g))"
| "meter_step ChargeVecPopBack = (\<lambda>g. Some (charge_vec_pop_back g))"
| "meter_step (ChargeVecUnpack n) = (\<lambda>g. Some (charge_vec_unpack n g))"
| "meter_step ChargeVecSwap = (\<lambda>g. Some (charge_vec_swap g))"
| "meter_step ChargeDropFrame = (\<lambda>g. Some (charge_drop_frame g))"
| "meter_step (ChargeBytes n c) = (\<lambda>g. Some (charge_bytes n c g))"

text \<open>The interpreter stops at the first error.\<close>

fun meter_run :: "meter_op list \<Rightarrow> gas_status \<Rightarrow> vm_result option" where
  "meter_run [] g = Some (Inr (), g)"
| "meter_run (op # ops) g = do {
     (r, g) \<leftarrow> meter_step op g;
     (case r of Inl e \<Rightarrow> Some (Inl e, g) | Inr u \<Rightarrow> meter_run ops g)
   }"

subsection \<open>The invariant\<close>

text \<open>
  The multiplier and the next tier start that a counter keeps are the lookup at some earlier
  value \<open>h\<close> of the counter, and the counter's peak has not passed that next start.
\<close>

definition tier_ok :: "tiers \<Rightarrow> u64 \<Rightarrow> u64 \<Rightarrow> u64 option \<Rightarrow> u64 \<Rightarrow> bool" where
  "tier_ok tiers dflt mult nxt peak \<longleftrightarrow>
     (\<exists>h \<le> peak. get_current_and_future_tier tiers h dflt = (mult, nxt) \<and>
        (\<forall>n. nxt = Some n \<longrightarrow> peak \<le> n))"

definition table_ok :: "cost_table \<Rightarrow> bool" where
  "table_ok t \<longleftrightarrow> btree_inv (instruction_tiers t) \<and> btree_inv (stack_height_tiers t) \<and>
     btree_inv (stack_size_tiers t)"

definition meter_inv :: "gas_status \<Rightarrow> bool" where
  "meter_inv g \<longleftrightarrow>
     table_ok (cost_table_of g) \<and>
     gas_left g \<le> initial_budget g \<and>
     tier_ok (stack_height_tiers (cost_table_of g)) STACK_HEIGHT_TIER_DEFAULT
       (stack_height_current_tier_mult g) (stack_height_next_tier_start g)
       (stack_height_high_water_mark g) \<and>
     tier_ok (stack_size_tiers (cost_table_of g)) STACK_SIZE_TIER_DEFAULT
       (stack_size_current_tier_mult g) (stack_size_next_tier_start g)
       (stack_size_high_water_mark g) \<and>
     tier_ok (instruction_tiers (cost_table_of g)) INSTRUCTION_TIER_DEFAULT
       (instructions_current_tier_mult g) (instructions_next_tier_start g)
       (instructions_executed g)"

lemma tier_ok_lookup:
  assumes "btree_inv tiers"
  shows "tier_ok tiers dflt (fst (get_current_and_future_tier tiers x dflt))
    (snd (get_current_and_future_tier tiers x dflt)) x"
  unfolding tier_ok_def
  using tier_lookup_snd [OF assms, of x dflt]
  by (intro exI [of _ x]) (auto intro: less_imp_le)

lemma tier_ok_raise:
  assumes "tier_ok tiers dflt mult nxt peak" and "\<And>n. nxt = Some n \<Longrightarrow> new \<le> n"
  shows "tier_ok tiers dflt mult nxt (max peak new)"
  using assms unfolding tier_ok_def by (auto simp: max_def intro: order.trans)

lemma tier_ok_passed:
  assumes "tier_ok tiers dflt mult (Some n) peak" and "n < new"
  shows "peak < new"
  using assms by (auto simp: tier_ok_def)

text \<open>
  The tier kept after a counter has been raised to \<open>new\<close>, in closed form.
\<close>

definition next_tier :: "tiers \<Rightarrow> u64 \<Rightarrow> u64 \<Rightarrow> u64 option \<Rightarrow> u64 \<Rightarrow> u64 \<times> u64 option" where
  "next_tier tiers dflt mult nxt new =
     (case nxt of
        None \<Rightarrow> (mult, nxt)
      | Some n \<Rightarrow> if n < new then get_current_and_future_tier tiers new dflt else (mult, nxt))"

lemma tier_ok_next:
  assumes "btree_inv tiers" and "tier_ok tiers dflt mult nxt peak"
  shows "tier_ok tiers dflt (fst (next_tier tiers dflt mult nxt new))
    (snd (next_tier tiers dflt mult nxt new)) (max peak new)"
proof (cases "\<exists>n. nxt = Some n \<and> n < new")
  case True
  then obtain n where n: "nxt = Some n" "n < new" by blast
  then have "max peak new = new"
    using tier_ok_passed [OF assms(2) [unfolded n(1)] n(2)] by (intro max_absorb2 less_imp_le)
  with n tier_ok_lookup [OF assms(1)] show ?thesis by (simp add: next_tier_def)
next
  case False
  then have "next_tier tiers dflt mult nxt new = (mult, nxt)"
    by (auto simp: next_tier_def split: option.split)
  with False tier_ok_raise [OF assms(2)] show ?thesis by (auto simp: not_less)
qed

lemma push_stack_Some:
  assumes "checked_add (stack_height_current g) n = Some new"
  defines "t \<equiv> next_tier (stack_height_tiers (cost_table_of g)) STACK_HEIGHT_TIER_DEFAULT
    (stack_height_current_tier_mult g) (stack_height_next_tier_start g) new"
  shows "push_stack n g = (Inr (), g\<lparr>stack_height_high_water_mark := max (stack_height_high_water_mark g) new,
    stack_height_current := new, stack_height_next_tier_start := snd t,
    stack_height_current_tier_mult := fst t\<rparr>)"
  using assms
  by (cases "stack_height_next_tier_start g"; cases "stack_height_high_water_mark g < new")
    (auto simp: push_stack_def next_tier_def stack_height_tier_def Let_def max_def case_prod_unfold)

lemma increase_stack_size_Some:
  assumes "checked_add (stack_size_current g) n = Some new"
  defines "t \<equiv> next_tier (stack_size_tiers (cost_table_of g)) STACK_SIZE_TIER_DEFAULT
    (stack_size_current_tier_mult g) (stack_size_next_tier_start g) new"
  shows "increase_stack_size n g = (Inr (), g\<lparr>stack_size_high_water_mark := max (stack_size_high_water_mark g) new,
    stack_size_current := new, stack_size_next_tier_start := snd t,
    stack_size_current_tier_mult := fst t\<rparr>)"
  using assms
  by (cases "stack_size_next_tier_start g"; cases "stack_size_high_water_mark g < new")
    (auto simp: increase_stack_size_def next_tier_def stack_size_tier_def Let_def max_def case_prod_unfold)

lemma increase_instruction_count_Some:
  assumes "checked_add (instructions_executed g) n = Some new"
  defines "t \<equiv> next_tier (instruction_tiers (cost_table_of g)) INSTRUCTION_TIER_DEFAULT
    (instructions_current_tier_mult g) (instructions_next_tier_start g) new"
  shows "increase_instruction_count n g = (Inr (), g\<lparr>instructions_executed := new,
    instructions_next_tier_start := snd t, instructions_current_tier_mult := fst t\<rparr>)"
  using assms
  by (cases "instructions_next_tier_start g")
    (auto simp: increase_instruction_count_def next_tier_def instruction_tier_def Let_def case_prod_unfold)

text \<open>How a state may evolve under metering.\<close>

definition evolves :: "gas_status \<Rightarrow> gas_status \<Rightarrow> bool" where
  "evolves g g' \<longleftrightarrow>
     gas_model_version g' = gas_model_version g \<and> cost_table_of g' = cost_table_of g \<and>
     gas_price g' = gas_price g \<and> initial_budget g' = initial_budget g \<and> charging g' = charging g \<and>
     gas_left g' \<le> gas_left g \<and>
     stack_height_high_water_mark g \<le> stack_height_high_water_mark g' \<and>
     stack_size_high_water_mark g \<le> stack_size_high_water_mark g' \<and>
     instructions_executed g \<le> instructions_executed g' \<and>
     (meter_inv g \<longrightarrow> meter_inv g')"

lemma evolves_refl [simp, intro]: "evolves g g"
  by (simp add: evolves_def)

lemma evolves_trans [trans]: "evolves g g' \<Longrightarrow> evolves g' g'' \<Longrightarrow> evolves g g''"
  unfolding evolves_def by (auto intro: order.trans)

lemma evolves_and_then:
  assumes "evolves g (snd r)" and "\<And>g'. evolves g g' \<Longrightarrow> evolves g (snd (f g'))"
  shows "evolves g (snd (and_then r f))"
  using assms by (auto simp: and_then_def split: prod.splits sum.splits)

lemma evolves_or_overflow:
  assumes "evolves g g'" and "\<And>v. evolves g (snd (f v))"
  shows "evolves g (snd (or_overflow p g' f))"
  using assms by (auto simp: or_overflow_def split: option.splits)

lemma checked_add_le: "checked_add a b = Some c \<Longrightarrow> a \<le> c"
  by (simp add: checked_add_eq_Some word_le_nat_alt)

lemma evolves_push_stack: "evolves g (snd (push_stack n g))"
proof (cases "checked_add (stack_height_current g) n")
  case None
  then show ?thesis by (simp add: push_stack_def)
next
  case (Some new)
  then show ?thesis
    by (simp add: push_stack_Some evolves_def meter_inv_def table_ok_def tier_ok_next)
qed

lemma evolves_increase_stack_size: "evolves g (snd (increase_stack_size n g))"
proof (cases "checked_add (stack_size_current g) n")
  case None
  then show ?thesis by (simp add: increase_stack_size_def)
next
  case (Some new)
  then show ?thesis
    by (simp add: increase_stack_size_Some evolves_def meter_inv_def table_ok_def tier_ok_next)
qed

lemma evolves_increase_instruction_count: "evolves g (snd (increase_instruction_count n g))"
proof (cases "checked_add (instructions_executed g) n")
  case None
  then show ?thesis by (simp add: increase_instruction_count_def)
next
  case (Some new)
  then have "max (instructions_executed g) new = new"
    by (intro max_absorb2 checked_add_le)
  then show ?thesis
    using Some checked_add_le [OF Some] tier_ok_next [where peak = "instructions_executed g" and new = new]
    by (simp add: increase_instruction_count_Some evolves_def meter_inv_def table_ok_def)
qed

lemma evolves_deduct_gas: "evolves g (snd (deduct_gas n g))"
  by (auto simp: deduct_gas_def evolves_def meter_inv_def gas_checked_sub_def checked_sub_eq_Some
      word_le_nat_alt split: option.splits)

lemma evolves_pop_stack: "evolves g (pop_stack n g)"
  by (simp add: pop_stack_def evolves_def meter_inv_def)

lemma evolves_charge: "evolves g (snd (charge n pushes pops incr decr g))"
  unfolding charge_def
  by (intro evolves_and_then evolves_or_overflow evolves_push_stack)
    (auto intro: evolves_trans evolves_increase_instruction_count evolves_increase_stack_size
      evolves_deduct_gas evolves_pop_stack)

lemma evolves_charge_bytes: "evolves g (snd (charge_bytes n c g))"
  by (auto simp: charge_bytes_def deduct_units_def intro!: evolves_and_then
      intro: evolves_trans evolves_increase_stack_size evolves_deduct_gas)

lemma evolves_native: "evolves g (snd (and_then (charge n pushes pops incr decr g) (deduct_gas amount)))"
  by (intro evolves_and_then evolves_charge) (auto intro: evolves_trans evolves_deduct_gas)

lemmas meter_op_defs = charge_simple_instr_def charge_pop_def charge_native_function_def
  charge_native_function_before_execution_def charge_call_def charge_call_generic_def
  charge_ld_const_def charge_ld_const_after_deserialization_def charge_copy_loc_def
  charge_move_loc_def charge_store_loc_def charge_pack_def charge_unpack_def charge_read_ref_def
  charge_write_ref_def charge_eq_def charge_neq_def charge_load_resource_def
  charge_borrow_global_def charge_exists_def charge_move_from_def charge_move_to_def
  charge_vec_pack_def charge_vec_len_def charge_vec_borrow_def charge_vec_push_back_def
  charge_vec_pop_back_def charge_vec_unpack_def charge_vec_swap_def charge_drop_frame_def

lemma evolves_snd:
  "charge n pushes pops incr decr g = (r, g') \<Longrightarrow> evolves g g'"
  "and_then (charge n pushes pops incr decr g) (deduct_gas amount) = (r, g') \<Longrightarrow> evolves g g'"
  "charge_bytes m c g = (r, g') \<Longrightarrow> evolves g g'"
  using evolves_charge [of g n pushes pops incr decr] evolves_charge_bytes [of g m c]
    evolves_native [of g n pushes pops incr decr amount] by simp_all

lemma meter_step_evolves: "meter_step op g = Some (r, g') \<Longrightarrow> evolves g g'"
  by (cases op) (auto simp: meter_op_defs Let_def bind_eq_Some_conv case_prod_unfold
      dest: evolves_snd)

lemma meter_run_evolves: "meter_run ops g = Some (r, g') \<Longrightarrow> evolves g g'"
proof (induction ops arbitrary: g)
  case Nil
  then show ?case by simp
next
  case (Cons op ops)
  from Cons.prems obtain r1 g1 where step: "meter_step op g = Some (r1, g1)"
    and rest: "(case r1 of Inl e \<Rightarrow> Some (Inl e, g1) | Inr u \<Rightarrow> meter_run ops g1) = Some (r, g')"
    by (auto simp: bind_eq_Some_conv)
  have "evolves g g1" by (rule meter_step_evolves [OF step])
  moreover have "evolves g1 g'"
    using rest Cons.IH by (cases r1) auto
  ultimately show ?case by (rule evolves_trans)
qed

subsection \<open>Properties of metering\<close>

lemma cost_tables_ok: "table_ok (cost_table_for_version v)"
  by (simp add: table_ok_def cost_table_for_version_def initial_cost_schedule_v1_def
      initial_cost_schedule_v2_def initial_cost_schedule_v3_def initial_cost_schedule_v4_def
      initial_cost_schedule_v5_def)

lemma gas_status_new_Some:
  assumes "gas_status_new table budget price version = Some g"
  shows "gas_left g = to_internal_units (budget div price)" and "initial_budget g = gas_left g"
    and "gas_price g = price" and "charging g" and "0 < price"
    and "cost_table_of g = table" and "table_ok table \<Longrightarrow> meter_inv g"
  using assms
    tier_ok_lookup [of "stack_height_tiers table" STACK_HEIGHT_TIER_DEFAULT 0]
    tier_ok_lookup [of "stack_size_tiers table" STACK_SIZE_TIER_DEFAULT 0]
    tier_ok_lookup [of "instruction_tiers table" INSTRUCTION_TIER_DEFAULT 0]
  by (auto simp: gas_status_new_def Let_def bind_eq_Some_conv case_prod_unfold meter_inv_def
      table_ok_def stack_height_tier_def stack_size_tier_def instruction_tier_def)

lemma internal_to_gas_exact: "\<exists>u. internal_to_gas q = Some u \<and> unat u = unat q div 1000"
proof -
  obtain u where "internal_to_gas q = Some u" "unat u = min (unat q * 1 div 1000) (2 ^ 64 - 1)"
    using apply_ratio_round_down_exact [of 1 1000 q]
    by (auto simp: internal_to_gas_def to_unit_round_down_def)
  moreover have "unat q div 1000 \<le> 2 ^ 64 - 1"
    using unat_u64_less [of q] by (simp add: div_le_dividend le_trans [OF div_le_dividend])
  ultimately show ?thesis by auto
qed

lemma gas_used_exact:
  assumes "gas_left g \<le> initial_budget g"
  shows "\<exists>u. gas_used_pre_gas_price g = Some u \<and>
    unat u = (unat (initial_budget g) - unat (gas_left g)) div 1000"
proof (cases "gas_checked_sub (initial_budget g) (gas_left g)")
  case None
  with assms show ?thesis by (simp add: gas_checked_sub_def checked_sub_eq_None word_le_nat_alt)
next
  case (Some val)
  then have "unat (initial_budget g) = unat (gas_left g) + unat val"
    by (simp add: gas_checked_sub_def checked_sub_eq_Some)
  with Some internal_to_gas_exact [of val] show ?thesis
    by (auto simp: gas_used_pre_gas_price_def)
qed

lemma to_internal_units_le: "unat (to_internal_units n) \<le> unat n * 1000"
  by (simp add: to_internal_units_def INTERNAL_UNIT_MULTIPLIER_def unat_word_ariths)

text \<open>
  C29.  Whatever the Move VM charges for, and wherever it stops, the gas it reports as used is what
  was taken from the meter, in whole gas units of 1000 internal ones; the meter never gains gas, and
  the reported gas multiplied by the gas price never exceeds the budget the meter was created with.
\<close>

theorem metered_cost_within_budget:
  assumes "gas_status_new (cost_table_for_version version) budget price version = Some g0"
    and "meter_run ops g0 = Some (r, g)"
  shows "\<exists>used. gas_used_pre_gas_price g = Some used \<and>
    unat used = (unat (gas_left g0) - unat (gas_left g)) div 1000 \<and>
    gas_left g \<le> gas_left g0 \<and> unat used * unat price \<le> unat budget"
proof -
  note new = gas_status_new_Some [OF assms(1)]
  have ev: "evolves g0 g" by (rule meter_run_evolves [OF assms(2)])
  have inv: "meter_inv g"
    using ev new(7) [OF cost_tables_ok] by (simp add: evolves_def)
  obtain used where used: "gas_used_pre_gas_price g = Some used"
    "unat used = (unat (initial_budget g) - unat (gas_left g)) div 1000"
    using gas_used_exact inv by (auto simp: meter_inv_def)
  have same: "initial_budget g = gas_left g0" "gas_left g \<le> gas_left g0"
    using ev new(2) by (simp_all add: evolves_def)
  have "unat (initial_budget g) \<le> unat (budget div price) * 1000"
    using same(1) new(1) to_internal_units_le by simp
  then have "unat used \<le> unat (budget div price)"
    unfolding used(2) by linarith
  then have "unat used * unat price \<le> unat budget div unat price * unat price"
    by (simp add: unat_div)
  also have "\<dots> \<le> unat budget"
    by (simp add: div_times_less_eq_dividend)
  finally show ?thesis
    using used same by simp
qed

definition sample_meter :: gas_status where
  "sample_meter =
     \<lparr>gas_model_version = 8, cost_table_of = initial_cost_schedule_v5, gas_left = 10000, gas_price = 5,
      initial_budget = 10000, charging = True,
      stack_height_high_water_mark = 0, stack_height_current = 0,
      stack_height_next_tier_start = Some 1000, stack_height_current_tier_mult = 1,
      stack_size_high_water_mark = 0, stack_size_current = 0,
      stack_size_next_tier_start = Some 100000, stack_size_current_tier_mult = 1,
      instructions_executed = 0,
      instructions_next_tier_start = Some 20000, instructions_current_tier_mult = 1\<rparr>"

lemma sample_meter_new:
  "gas_status_new (cost_table_for_version 8) 50 5 8 = Some sample_meter"
  by code_simp

theorem metered_cost_within_budget_witness:
  "\<exists>r g used. meter_run [ChargeSimpleInstr I_LdU64, ChargeCopyLoc (U64 7), ChargeVecLen] sample_meter =
      Some (r, g) \<and>
    gas_used_pre_gas_price g = Some used \<and>
    unat used = (unat (gas_left sample_meter) - unat (gas_left g)) div 1000 \<and>
    unat used * unat (5 :: u64) \<le> unat (50 :: u64)"
proof -
  have "meter_run [ChargeSimpleInstr I_LdU64, ChargeCopyLoc (U64 7), ChargeVecLen] sample_meter \<noteq> None"
    by code_simp
  then obtain r g where
    "meter_run [ChargeSimpleInstr I_LdU64, ChargeCopyLoc (U64 7), ChargeVecLen] sample_meter = Some (r, g)"
    by auto
  with metered_cost_within_budget [OF sample_meter_new this] show ?thesis by blast
qed

text \<open>The cost of one charge at the multipliers of a state.\<close>

definition charge_cost :: "gas_status \<Rightarrow> u64 \<Rightarrow> u64 \<Rightarrow> u64 \<Rightarrow> nat" where
  "charge_cost g num_instructions incr_size pushes =
     unat (instructions_current_tier_mult g) * unat num_instructions +
     unat (stack_size_current_tier_mult g) * unat incr_size +
     unat (stack_height_current_tier_mult g) * unat pushes"

lemma and_then_Inr: "and_then r f = (Inr u, g) \<longleftrightarrow> (\<exists>g1. r = (Inr (), g1) \<and> f g1 = (Inr u, g))"
  by (auto simp: and_then_def split: prod.splits sum.splits)

lemma or_overflow_Inr: "or_overflow p g f = (Inr u, g') \<longleftrightarrow> (\<exists>v. p = Some v \<and> f v = (Inr u, g'))"
  by (auto simp: or_overflow_def split: option.splits)

lemma push_stack_Inr:
  assumes "push_stack n g = (Inr (), g')"
  shows "unat (stack_height_current g') = unat (stack_height_current g) + unat n \<and>
    gas_left g' = gas_left g \<and> charging g' = charging g \<and>
    instructions_executed g' = instructions_executed g"
proof (cases "checked_add (stack_height_current g) n")
  case None
  with assms show ?thesis by (simp add: push_stack_def)
next
  case (Some new)
  with assms show ?thesis by (auto simp: push_stack_Some checked_add_eq_Some)
qed

lemma increase_instruction_count_Inr:
  assumes "increase_instruction_count n g = (Inr (), g')"
  shows "unat (instructions_executed g') = unat (instructions_executed g) + unat n \<and>
    gas_left g' = gas_left g \<and> charging g' = charging g \<and>
    stack_height_current g' = stack_height_current g"
proof (cases "checked_add (instructions_executed g) n")
  case None
  with assms show ?thesis by (simp add: increase_instruction_count_def)
next
  case (Some new)
  with assms show ?thesis by (auto simp: increase_instruction_count_Some checked_add_eq_Some)
qed

lemma increase_stack_size_Inr:
  assumes "increase_stack_size n g = (Inr (), g')"
  shows "gas_left g' = gas_left g \<and> charging g' = charging g \<and>
    stack_height_current g' = stack_height_current g \<and>
    instructions_executed g' = instructions_executed g"
proof (cases "checked_add (stack_size_current g) n")
  case None
  with assms show ?thesis by (simp add: increase_stack_size_def)
next
  case (Some new)
  with assms show ?thesis by (auto simp: increase_stack_size_Some)
qed

lemma deduct_gas_Inr:
  assumes "deduct_gas a g = (Inr u, g')" and "charging g"
  obtains l where "g' = g\<lparr>gas_left := l\<rparr>" and "unat (gas_left g) = unat a + unat l"
  using assms by (auto simp: deduct_gas_def gas_checked_sub_def checked_sub_eq_Some split: option.splits)

text \<open>
  C30.  A charge that succeeds on a charging meter takes from the remaining gas exactly the
  instructions, bytes and pushes at the tier multipliers in force after the counters were
  raised (whenever that sum fits 64 bits), counts the instructions, and leaves the stack at
  its old height plus the pushes minus the pops.
\<close>

theorem charge_takes_exact_cost:
  assumes "charge n pushes pops incr decr g = (Inr (), g')" and "charging g"
    and "charge_cost g' n incr pushes < 2 ^ 64"
  shows "unat (gas_left g) = unat (gas_left g') + charge_cost g' n incr pushes \<and>
    unat (instructions_executed g') = unat (instructions_executed g) + unat n \<and>
    unat (stack_height_current g') = unat (stack_height_current g) + unat pushes - unat pops"
proof -
  from assms(1) obtain g1 g2 g3 i m h g4 where
    s1: "push_stack pushes g = (Inr (), g1)" and
    s2: "increase_instruction_count n g1 = (Inr (), g2)" and
    s3: "increase_stack_size incr g2 = (Inr (), g3)" and
    i: "checked_mul (instructions_current_tier_mult g3) n = Some i" and
    m: "checked_mul (stack_size_current_tier_mult g3) incr = Some m" and
    h: "checked_mul (stack_height_current_tier_mult g3) pushes = Some h" and
    s4: "deduct_gas (total_internal (gas_cost_new i m h)) g3 = (Inr (), g4)" and
    g': "g' = pop_stack pops g4"
    by (auto simp: charge_def and_then_Inr or_overflow_Inr)
  note frames = push_stack_Inr [OF s1] increase_instruction_count_Inr [OF s2] increase_stack_size_Inr [OF s3]
  have "charging g3" using frames assms(2) by simp
  with s4 obtain l where g4: "g4 = g3\<lparr>gas_left := l\<rparr>"
    and left: "unat (gas_left g3) = unat (total_internal (gas_cost_new i m h)) + unat l"
    by (rule deduct_gas_Inr)
  have mult: "instructions_current_tier_mult g' = instructions_current_tier_mult g3"
    "stack_size_current_tier_mult g' = stack_size_current_tier_mult g3"
    "stack_height_current_tier_mult g' = stack_height_current_tier_mult g3"
    "gas_left g' = l" "instructions_executed g' = instructions_executed g3"
    "stack_height_current g' = saturating_sub (stack_height_current g3) pops"
    by (simp_all add: g' g4 pop_stack_def)
  have cost: "charge_cost g' n incr pushes = unat i + unat m + unat h"
    using i m h by (simp add: charge_cost_def mult checked_mul_eq_Some)
  then have "unat (total_internal (gas_cost_new i m h)) = unat i + unat m + unat h"
    using assms(3) by (simp add: total_internal_def gas_cost_new_def unat_word_ariths)
  with left cost frames show ?thesis
    by (simp add: mult unat_saturating_sub)
qed

theorem charge_takes_exact_cost_witness:
  "\<exists>g'. charge 1 1 0 16 0 sample_meter = (Inr (), g') \<and>
    unat (gas_left sample_meter) = unat (gas_left g') + charge_cost g' 1 16 1 \<and>
    unat (instructions_executed g') = unat (instructions_executed sample_meter) + unat (1 :: u64) \<and>
    unat (stack_height_current g') =
      unat (stack_height_current sample_meter) + unat (1 :: u64) - unat (0 :: u64)"
proof -
  obtain g' where g': "charge 1 1 0 16 0 sample_meter = (Inr (), g')"
    "g' = sample_meter\<lparr>gas_left := 9982, stack_height_high_water_mark := 1, stack_height_current := 1,
      stack_size_high_water_mark := 16, stack_size_current := 16, instructions_executed := 1\<rparr>"
  proof -
    have "charge 1 1 0 16 0 sample_meter = (Inr (), sample_meter\<lparr>gas_left := 9982,
        stack_height_high_water_mark := 1, stack_height_current := 1,
        stack_size_high_water_mark := 16, stack_size_current := 16, instructions_executed := 1\<rparr>)"
      by code_simp
    then show ?thesis using that by simp
  qed
  have "charging sample_meter" by (simp add: sample_meter_def)
  moreover have "charge_cost g' 1 16 1 < 2 ^ 64"
    by (simp add: g'(2) charge_cost_def sample_meter_def)
  ultimately show ?thesis
    using charge_takes_exact_cost [OF g'(1)] g'(1) by blast
qed

text \<open>Between two neighbouring tier starts the multiplier does not change.\<close>

lemma tier_multiplier_eq:
  assumes "\<And>k. k \<in> fst ` set tiers \<Longrightarrow> k \<le> x \<longleftrightarrow> k \<le> y"
  shows "tier_multiplier tiers x dflt = tier_multiplier tiers y dflt"
proof -
  have "filter (\<lambda>e. fst e \<le> x) tiers = filter (\<lambda>e. fst e \<le> y) tiers"
    using assms by (intro filter_cong) auto
  then show ?thesis by (simp add: tier_multiplier_def)
qed

lemma tier_multiplier_in: "tier_multiplier tiers x dflt \<in> insert dflt (snd ` set tiers)"
proof (cases "rev (filter (\<lambda>e. fst e \<le> x) tiers)")
  case Nil
  then show ?thesis by (simp add: tier_multiplier_def)
next
  case (Cons e es)
  then have "e \<in> set (rev (filter (\<lambda>e. fst e \<le> x) tiers))" by simp
  then have "e \<in> set tiers" by simp
  with Cons show ?thesis by (cases e) (force simp: tier_multiplier_def)
qed

definition follows_tiers :: "tiers \<Rightarrow> u64 \<Rightarrow> u64 \<Rightarrow> u64 \<Rightarrow> bool" where
  "follows_tiers tiers dflt mult peak \<longleftrightarrow>
     mult = tier_multiplier tiers peak dflt \<or>
     (peak \<in> fst ` set tiers \<and> 0 < peak \<and> mult = tier_multiplier tiers (peak - 1) dflt)"

lemma tier_ok_multiplier:
  assumes "btree_inv tiers" and "tier_ok tiers dflt mult nxt peak"
  shows "follows_tiers tiers dflt mult peak"
proof -
  obtain h where h: "h \<le> peak" "get_current_and_future_tier tiers h dflt = (mult, nxt)"
    "\<And>n. nxt = Some n \<Longrightarrow> peak \<le> n"
    using assms(2) by (auto simp: tier_ok_def)
  have mult: "mult = tier_multiplier tiers h dflt"
    using tier_lookup_fst [OF assms(1), of h dflt] h(2) by simp
  have nxt: "nxt = Some n \<longleftrightarrow> n \<in> fst ` set tiers \<and> h < n \<and> (\<forall>i \<in> fst ` set tiers. h < i \<longrightarrow> n \<le> i)" for n
    using tier_lookup_snd [OF assms(1), of h dflt n] h(2) by simp
  show ?thesis
  proof (cases "nxt = Some peak")
    case False
    have "k \<le> h \<longleftrightarrow> k \<le> peak" if "k \<in> fst ` set tiers" for k
    proof
      show "k \<le> peak" if "k \<le> h" using that h(1) by (rule order.trans)
      assume "k \<le> peak"
      show "k \<le> h"
      proof (rule ccontr)
        assume "\<not> k \<le> h"
        then have "\<exists>n. nxt = Some n"
          using that tier_lookup_some [OF assms(1) that, of h dflt] h(2) by (simp add: not_le)
        then obtain n where n: "nxt = Some n" by blast
        have "h < k" using \<open>\<not> k \<le> h\<close> by simp
        then have "n \<le> k" using iffD1 [OF nxt n] that by blast
        then have "n = peak"
          using h(3) [OF n] order.trans [OF _ \<open>k \<le> peak\<close>] by (intro order.antisym) blast+
        with n False show False by simp
      qed
    qed
    then have "tier_multiplier tiers h dflt = tier_multiplier tiers peak dflt"
      by (rule tier_multiplier_eq)
    with mult show ?thesis by (simp add: follows_tiers_def)
  next
    case True
    then have peak: "peak \<in> fst ` set tiers" "h < peak" "\<And>i. i \<in> fst ` set tiers \<Longrightarrow> h < i \<Longrightarrow> peak \<le> i"
      using nxt by auto
    have pos: "0 < peak" using peak(2) by (rule le_less_trans [OF word_zero_le])
    have "unat (peak - 1) = unat peak - 1"
      using pos by (simp add: unat_minus_one word_gt_0)
    then have below: "k \<le> peak - 1 \<longleftrightarrow> k < peak" for k
      using pos by (auto simp: word_le_nat_alt word_less_nat_alt)
    have "k \<le> h \<longleftrightarrow> k \<le> peak - 1" if "k \<in> fst ` set tiers" for k
      unfolding below using le_less_trans [OF _ peak(2), of k] peak(3) [OF that]
      by (cases "k \<le> h") (auto simp: not_le)
    then have "tier_multiplier tiers h dflt = tier_multiplier tiers (peak - 1) dflt"
      by (rule tier_multiplier_eq)
    with mult peak(1) pos show ?thesis by (simp add: follows_tiers_def)
  qed
qed

text \<open>
  C31.  In every state a meter reaches, the multiplier charged for instructions is the one of
  the tier that holds the number of executed instructions; only when that number is itself
  the start of a tier may it still be the multiplier of the tier before.  The same holds for
  the two stack multipliers and their high-water marks, which are never lowered.
\<close>

theorem multipliers_follow_tiers:
  assumes "gas_status_new (cost_table_for_version version) budget price version = Some g0"
    and "meter_run ops g0 = Some (r, g)"
  shows "follows_tiers (instruction_tiers (cost_table_for_version version)) INSTRUCTION_TIER_DEFAULT
      (instructions_current_tier_mult g) (instructions_executed g) \<and>
    follows_tiers (stack_height_tiers (cost_table_for_version version)) STACK_HEIGHT_TIER_DEFAULT
      (stack_height_current_tier_mult g) (stack_height_high_water_mark g) \<and>
    follows_tiers (stack_size_tiers (cost_table_for_version version)) STACK_SIZE_TIER_DEFAULT
      (stack_size_current_tier_mult g) (stack_size_high_water_mark g)"
proof -
  note new = gas_status_new_Some [OF assms(1)]
  have ev: "evolves g0 g" by (rule meter_run_evolves [OF assms(2)])
  then have inv: "meter_inv g" and table: "cost_table_of g = cost_table_for_version version"
    using new(6) new(7) [OF cost_tables_ok] by (simp_all add: evolves_def)
  show ?thesis
    using inv cost_tables_ok [of version]
    by (auto simp: meter_inv_def table_ok_def table intro: tier_ok_multiplier)
qed

theorem multipliers_follow_tiers_witness:
  "\<exists>r g. meter_run [ChargeLdConst 100000, ChargeSimpleInstr I_LdU64] sample_meter = Some (r, g) \<and>
    follows_tiers (stack_size_tiers (cost_table_for_version 8)) STACK_SIZE_TIER_DEFAULT
      (stack_size_current_tier_mult g) (stack_size_high_water_mark g)"
proof -
  let ?run = "meter_run [ChargeLdConst 100000, ChargeSimpleInstr I_LdU64] sample_meter"
  have "?run \<noteq> None" by code_simp
  then obtain r g where run: "?run = Some (r, g)" by auto
  from multipliers_follow_tiers [OF sample_meter_new run] run show ?thesis
    by blast
qed

definition oog_empties :: "vm_result \<Rightarrow> bool" where
  "oog_empties r \<longleftrightarrow> (fst r = Inl OUT_OF_GAS \<longrightarrow> gas_left (snd r) = 0)"

lemma oog_and_then: "oog_empties r \<Longrightarrow> (\<And>g. oog_empties (f g)) \<Longrightarrow> oog_empties (and_then r f)"
  by (auto simp: oog_empties_def and_then_def split: prod.splits sum.splits)

lemma oog_or_overflow: "(\<And>v. oog_empties (f v)) \<Longrightarrow> oog_empties (or_overflow p g f)"
  by (auto simp: oog_empties_def or_overflow_def split: option.splits)

lemma oog_counters:
  "oog_empties (push_stack n g)" "oog_empties (increase_instruction_count n g)"
  "oog_empties (increase_stack_size n g)" "oog_empties (deduct_gas n g)" "oog_empties (Inr (), g)"
  by (auto simp: oog_empties_def push_stack_def increase_instruction_count_def
      increase_stack_size_def deduct_gas_def Let_def case_prod_unfold split: option.splits)

lemma oog_charge: "oog_empties (charge n pushes pops incr decr g)"
  unfolding charge_def by (intro oog_and_then oog_or_overflow oog_counters)

lemma oog_charge_bytes: "oog_empties (charge_bytes n c g)"
  by (simp add: charge_bytes_def deduct_units_def oog_and_then oog_counters)

lemma meter_step_oog: "meter_step op g = Some r \<Longrightarrow> oog_empties r"
  by (cases op) (auto simp: meter_op_defs Let_def bind_eq_Some_conv case_prod_unfold
      intro!: oog_charge oog_charge_bytes oog_and_then oog_counters)

text \<open>
  C32.  A run that ends with \<open>OUT_OF_GAS\<close> leaves no gas: the whole budget is consumed.
\<close>

theorem out_of_gas_consumes_budget:
  "meter_run ops g = Some (Inl OUT_OF_GAS, g') \<Longrightarrow> gas_left g' = 0"
proof (induction ops arbitrary: g)
  case Nil
  then show ?case by simp
next
  case (Cons op ops)
  from Cons.prems obtain r1 g1 where step: "meter_step op g = Some (r1, g1)"
    and rest: "(case r1 of Inl e \<Rightarrow> Some (Inl e, g1) | Inr u \<Rightarrow> meter_run ops g1) = Some (Inl OUT_OF_GAS, g')"
    by (auto simp: bind_eq_Some_conv)
  show ?case
  proof (cases r1)
    case (Inl e)
    with rest meter_step_oog [OF step] show ?thesis by (simp add: oog_empties_def)
  next
    case (Inr u)
    with rest Cons.IH show ?thesis by simp
  qed
qed

theorem out_of_gas_consumes_budget_witness:
  "\<exists>g'. meter_run [ChargeLdConst 50000] sample_meter = Some (Inl OUT_OF_GAS, g') \<and> gas_left g' = 0"
proof -
  have "map_option fst (meter_run [ChargeLdConst 50000] sample_meter) = Some (Inl OUT_OF_GAS)"
    by code_simp
  then obtain g' where run: "meter_run [ChargeLdConst 50000] sample_meter = Some (Inl OUT_OF_GAS, g')"
    by auto
  with out_of_gas_consumes_budget [OF run] show ?thesis by blast
qed

text \<open>
  C33.  The schedules of gas models 1 to 5 list the stack-size tier start 11,500 twice, with
  multipliers 29 and 50.  Collecting the list into a map keeps the second entry, so that no
  stack size is ever charged with multiplier 29.
\<close>

theorem size_tier_29_is_unreachable:
  "version \<le> 5 \<Longrightarrow> fst (stack_size_tier (cost_table_for_version version) amount) \<noteq> 29"
proof -
  assume v: "version \<le> 5"
  have inv: "btree_inv (stack_size_tiers (cost_table_for_version version))"
    using cost_tables_ok by (simp add: table_ok_def)
  have member: "fst (stack_size_tier (cost_table_for_version version) amount) \<in>
      insert 1 (snd ` set (stack_size_tiers (cost_table_for_version version)))"
    unfolding stack_size_tier_def tier_lookup_fst [OF inv]
    using tier_multiplier_in [of "stack_size_tiers (cost_table_for_version version)" amount
      STACK_SIZE_TIER_DEFAULT]
    by (simp only: STACK_SIZE_TIER_DEFAULT_def)
  have no29: "29 \<notin> insert 1 (snd ` set (stack_size_tiers (cost_table_for_version version)))"
  proof -
    have "29 \<notin> insert 1 (snd ` set (stack_size_tiers initial_cost_schedule_v1))"
      "29 \<notin> insert 1 (snd ` set (stack_size_tiers initial_cost_schedule_v2))"
      "29 \<notin> insert 1 (snd ` set (stack_size_tiers initial_cost_schedule_v3))"
      by code_simp+
    moreover have "cost_table_for_version version \<in>
        {initial_cost_schedule_v1, initial_cost_schedule_v2, initial_cost_schedule_v3}"
    proof (cases "version \<le> 3 \<or> version = 4")
      case True
      then show ?thesis by (auto simp: cost_table_for_version_def)
    next
      case False
      then have "unat version = 5"
        using v by (simp add: word_le_nat_alt word_unat_eq_iff [of version 4])
      then have "version = 5" by (simp add: word_unat_eq_iff)
      then show ?thesis by (simp add: cost_table_for_version_def)
    qed
    ultimately show ?thesis by (elim insertE emptyE) (simp_all only: not_False_eq_True)
  qed
  show ?thesis
  proof
    assume "fst (stack_size_tier (cost_table_for_version version) amount) = 29"
    with member no29 show False by (simp only:)
  qed
qed

theorem size_tier_29_is_unreachable_witness:
  "(3 :: u64) \<le> 5 \<and> fst (stack_size_tier (cost_table_for_version 3) 11500) \<noteq> 29"
proof
  show "(3 :: u64) \<le> 5" by simp
  then show "fst (stack_size_tier (cost_table_for_version 3) 11500) \<noteq> 29"
    by (rule size_tier_29_is_unreachable)
qed

end
