(* ===== verification/Sui_Object.thy ===== *)
theory Sui_Object
  imports Move_Values
begin

section \<open>Objects\<close>

text \<open>
  Models the parts of \<open>src/crates/sui-types/src/object.rs\<close>, \<open>move_package.rs\<close> and \<open>base_types.rs\<close>
  that gas charging and the temporary store use.  An \<open>ObjectID\<close> is its 32 bytes read as a
  big-endian number, so that the order of the words is the order of the byte arrays.  Sizes
  are natural numbers (\<open>usize\<close>).  The BCS size of a type tag and the in-memory size of the
  metadata fields of \<open>Object\<close> come from outside the sources; with the hash of an object they
  are the fields of the parameter \<open>object_env\<close>.  Digests are uninterpreted numbers.
\<close>

unbundle bit_operations_syntax

type_synonym object_id = "256 word"
type_synonym sui_address = "256 word"
type_synonym sequence_number = u64
type_synonym digest = nat
type_synonym object_ref = "object_id \<times> sequence_number \<times> digest"

subsection \<open>Sequence numbers\<close>

definition seq_increment :: "sequence_number \<Rightarrow> sequence_number option" where
  "seq_increment n = do {
     rust_assert (n \<noteq> - 1);
     Some (n + 1)
   }"

definition lamport_increment :: "sequence_number list \<Rightarrow> sequence_number option" where
  "lamport_increment inputs = do {
     let max_input = fold (\<lambda>x m. max m x) inputs 0;
     rust_assert (max_input \<noteq> - 1);
     Some (max_input + 1)
   }"

subsection \<open>Move objects\<close>

datatype move_object_type =
    Other struct_tag
  | GasCoin
  | StakedSui
  | Coin type_tag

fun is_coin :: "move_object_type \<Rightarrow> bool" where
  "is_coin GasCoin = True"
| "is_coin (Coin t) = True"
| "is_coin StakedSui = False"
| "is_coin (Other s) = False"

fun is_gas_coin :: "move_object_type \<Rightarrow> bool" where
  "is_gas_coin GasCoin = True"
| "is_gas_coin StakedSui = False"
| "is_gas_coin (Coin t) = False"
| "is_gas_coin (Other s) = False"

record move_object =
  mo_type :: move_object_type
  mo_has_public_transfer :: bool
  mo_version :: sequence_number
  mo_contents :: "u8 list"

definition ID_END_INDEX :: nat where "ID_END_INDEX = 32"

definition id_of_bytes :: "u8 list \<Rightarrow> object_id" where
  "id_of_bytes bs = foldl (\<lambda>n b. n * 256 + ucast b) 0 bs"

definition id_opt :: "u8 list \<Rightarrow> object_id option" where
  "id_opt contents =
     (if length contents < ID_END_INDEX then None else Some (id_of_bytes (take ID_END_INDEX contents)))"

definition mo_id :: "move_object \<Rightarrow> object_id option" where
  "mo_id m = id_opt (mo_contents m)"

definition from_le_bytes :: "u8 list \<Rightarrow> u64" where
  "from_le_bytes bs = foldr (\<lambda>b n. n * 256 + ucast b) bs 0"

definition to_le_bytes :: "u64 \<Rightarrow> u8 list" where
  "to_le_bytes v = map (\<lambda>i. ucast (drop_bit (8 * i) v)) [0, 1, 2, 3, 4, 5, 6, 7]"

definition get_coin_value_unsafe :: "move_object \<Rightarrow> u64 option" where
  "get_coin_value_unsafe m = do {
     rust_assert (ID_END_INDEX \<le> length (mo_contents m));
     let tail = drop ID_END_INDEX (mo_contents m);
     rust_assert (length tail = 8);
     Some (from_le_bytes tail)
   }"

definition set_coin_value_unsafe :: "u64 \<Rightarrow> move_object \<Rightarrow> move_object option" where
  "set_coin_value_unsafe value m = do {
     rust_assert (ID_END_INDEX \<le> length (mo_contents m));
     Some (m\<lparr>mo_contents := take ID_END_INDEX (mo_contents m) @ to_le_bytes value\<rparr>)
   }"

datatype execution_error_kind =
    InsufficientGas
  | MoveObjectTooBig nat nat
  | InvariantViolation string
  | EffectsTooLarge nat nat
  | WrittenObjectsTooLarge nat nat
  | CertificateDenied
  | OtherExecutionError nat "nat option"

definition new_from_execution_with_limit ::
  "move_object_type \<Rightarrow> bool \<Rightarrow> sequence_number \<Rightarrow> u8 list \<Rightarrow> nat \<Rightarrow>
     execution_error_kind + move_object" where
  "new_from_execution_with_limit typ has_public_transfer version contents max_move_object_size =
     (if max_move_object_size < length contents
      then Inl (MoveObjectTooBig (length contents) max_move_object_size)
      else Inr \<lparr>mo_type = typ, mo_has_public_transfer = has_public_transfer,
                mo_version = version, mo_contents = contents\<rparr>)"

definition update_contents_with_limit ::
  "u8 list \<Rightarrow> nat \<Rightarrow> move_object \<Rightarrow> execution_error_kind + move_object" where
  "update_contents_with_limit new_contents max_move_object_size m =
     (if max_move_object_size < length new_contents
      then Inl (MoveObjectTooBig (length new_contents) max_move_object_size)
      else Inr (m\<lparr>mo_contents := new_contents\<rparr>))"

definition increment_version_to :: "sequence_number \<Rightarrow> move_object \<Rightarrow> move_object" where
  "increment_version_to next m = m\<lparr>mo_version := next\<rparr>"

definition move_object_size ::
  "(move_object_type \<Rightarrow> nat) \<Rightarrow> move_object \<Rightarrow> nat" where
  "move_object_size serialized_type_tag_size m =
     length (mo_contents m) + serialized_type_tag_size (mo_type m) + 1 + 8"

subsection \<open>Packages\<close>

record move_package =
  mp_id :: object_id
  mp_version :: sequence_number
  mp_module_map :: "(string \<times> u8 list) list"
  mp_type_origin_table :: "(string \<times> string \<times> object_id) list"
  mp_linkage_table :: "(object_id \<times> object_id \<times> sequence_number) list"

definition package_size :: "move_package \<Rightarrow> nat" where
  "package_size p =
     (let module_map_size = sum_list (map (\<lambda>(name, m). length name + length m) (mp_module_map p));
          type_origin_table_size =
            sum_list (map (\<lambda>(m, s, _). length m + length s + 32) (mp_type_origin_table p));
          linkage_table_size = length (mp_linkage_table p) * (32 + (32 + 8))
      in 8 + module_map_size + type_origin_table_size + linkage_table_size)"

definition package_increment_version :: "move_package \<Rightarrow> move_package option" where
  "package_increment_version p =
     map_option (\<lambda>v. p\<lparr>mp_version := v\<rparr>) (seq_increment (mp_version p))"

subsection \<open>Objects and owners\<close>

datatype obj_data = Move move_object | Package move_package

datatype owner =
    AddressOwner sui_address
  | ObjectOwner sui_address
  | Shared sequence_number
  | Immutable

record sui_object =
  o_data :: obj_data
  o_owner :: owner
  o_previous_transaction :: digest
  o_storage_rebate :: u64

record object_env =
  serialized_type_tag_size :: "move_object_type \<Rightarrow> nat"
  object_meta_size :: nat
  object_digest :: "sui_object \<Rightarrow> digest"

fun try_as_move :: "obj_data \<Rightarrow> move_object option" where
  "try_as_move (Move m) = Some m"
| "try_as_move (Package p) = None"

definition object_id_of :: "sui_object \<Rightarrow> object_id option" where
  "object_id_of ob = (case o_data ob of Move m \<Rightarrow> mo_id m | Package p \<Rightarrow> Some (mp_id p))"

definition object_version :: "sui_object \<Rightarrow> sequence_number" where
  "object_version ob = (case o_data ob of Move m \<Rightarrow> mo_version m | Package p \<Rightarrow> mp_version p)"

definition is_package :: "sui_object \<Rightarrow> bool" where
  "is_package ob = (case o_data ob of Package p \<Rightarrow> True | Move m \<Rightarrow> False)"

fun is_address_owned :: "owner \<Rightarrow> bool" where
  "is_address_owned (AddressOwner a) = True"
| "is_address_owned _ = False"

fun is_immutable :: "owner \<Rightarrow> bool" where
  "is_immutable Immutable = True"
| "is_immutable _ = False"

fun get_owner_address :: "owner \<Rightarrow> sui_address option" where
  "get_owner_address (AddressOwner a) = Some a"
| "get_owner_address (ObjectOwner a) = Some a"
| "get_owner_address (Shared v) = None"
| "get_owner_address Immutable = None"

definition object_get_coin_value_unsafe :: "sui_object \<Rightarrow> u64 option" where
  "object_get_coin_value_unsafe ob = do {
     m \<leftarrow> try_as_move (o_data ob);
     get_coin_value_unsafe m
   }"

definition object_size_for_gas_metering :: "object_env \<Rightarrow> sui_object \<Rightarrow> nat" where
  "object_size_for_gas_metering env ob =
     object_meta_size env +
     (case o_data ob of
        Move m \<Rightarrow> move_object_size (serialized_type_tag_size env) m
      | Package p \<Rightarrow> package_size p)"

definition compute_object_reference :: "object_env \<Rightarrow> sui_object \<Rightarrow> object_ref option" where
  "compute_object_reference env ob =
     map_option (\<lambda>i. (i, object_version ob, object_digest env ob)) (object_id_of ob)"

definition object_transfer :: "sui_address \<Rightarrow> sui_object \<Rightarrow> sui_object" where
  "object_transfer new_owner ob = ob\<lparr>o_owner := AddressOwner new_owner\<rparr>"

subsection \<open>Reserved identifiers\<close>

definition is_system_package :: "object_id \<Rightarrow> bool" where
  "is_system_package i \<longleftrightarrow> i = 1 \<or> i = 2 \<or> i = 3 \<or> i = 0xdee9"

definition SUI_SYSTEM_STATE_OBJECT_ID :: object_id where
  "SUI_SYSTEM_STATE_OBJECT_ID = 5"

subsection \<open>Coin values\<close>

lemma byte_split: "drop_bit 8 x * 256 + ucast (ucast x :: u8) = x" for x :: u64
proof -
  have "ucast (ucast x :: u8) = take_bit 8 x"
    by (simp add: unsigned_ucast_eq)
  then show ?thesis
    using bits_ident [of 8 x] by (simp add: push_bit_eq_mult)
qed

text \<open>Writing a coin value into the contents and reading it back is the identity.\<close>

lemma from_to_le_bytes: "from_le_bytes (to_le_bytes v) = v"
proof -
  have step: "drop_bit (n + 8) v * 256 + ucast (ucast (drop_bit n v) :: u8) = drop_bit n v" for n
    using byte_split [of "drop_bit n v"] by (simp add: add.commute)
  have "drop_bit 64 v = 0"
    by (rule bit_word_eqI) (auto simp: bit_simps dest: bit_imp_le_length)
  then show ?thesis
    using step [of 56] step [of 48] step [of 40] step [of 32] step [of 24] step [of 16] step [of 8]
      step [of 0]
    by (simp add: from_le_bytes_def to_le_bytes_def)
qed

lemma length_to_le_bytes [simp]: "length (to_le_bytes v) = 8"
  by (simp add: to_le_bytes_def)

lemma get_set_coin_value:
  assumes "set_coin_value_unsafe v m = Some m'"
  shows "get_coin_value_unsafe m' = Some v" and "mo_id m' = mo_id m" and "mo_type m' = mo_type m"
    and "mo_version m' = mo_version m"
  using assms
  by (auto simp: set_coin_value_unsafe_def get_coin_value_unsafe_def mo_id_def id_opt_def
      bind_eq_Some_conv rust_assert_def from_to_le_bytes Let_def split: if_splits)

lemma set_coin_value_Some:
  "get_coin_value_unsafe m = Some w \<Longrightarrow> \<exists>m'. set_coin_value_unsafe v m = Some m' \<and>
     length (mo_contents m') = length (mo_contents m)"
  by (auto simp: get_coin_value_unsafe_def set_coin_value_unsafe_def bind_eq_Some_conv rust_assert_def
      Let_def split: if_splits)

end
