(* ===== verification/Sui_Gas.thy ===== *)
theory Sui_Gas
  imports Gas_Tables Sui_Object
begin

section \<open>Gas status of a transaction\<close>

text \<open>
  Models \<open>src/crates/sui-types/src/gas_model/gas_v2.rs\<close> and \<open>src/crates/sui-types/src/gas.rs\<close>.
  Both modules are under \<open>with_checked_arithmetic\<close>: every \<open>+\<close>, \<open>-\<close>, \<open>*\<close>, \<open>/\<close>, \<open>%\<close> and unary minus
  panics on overflow, which is \<^const>\<open>None\<close> here.  \<open>Iterator::sum\<close> is a method call and still
  wraps.  \<open>ProtocolConfig\<close> is the record of the values these modules read from it.  The enum
  \<open>SuiGasStatus\<close> of \<open>gas.rs\<close> has the single variant \<open>V2\<close> and is that variant.
\<close>

record protocol_config =
  pc_gas_model_version :: u64
  pc_base_tx_cost_fixed :: u64
  pc_txn_base_cost_as_multiplier :: bool
  pc_max_tx_gas :: u64
  pc_max_gas_price :: u64
  pc_max_gas_computation_bucket :: u64
  pc_package_publish_cost_per_byte :: u64
  pc_obj_access_cost_read_per_byte :: u64
  pc_obj_data_cost_refundable :: u64
  pc_storage_gas_price :: u64
  pc_storage_rebate_rate :: u64
  pc_gas_rounding_step :: "u64 option"

datatype user_input_error =
    GasPriceUnderRGP u64 u64
  | GasPriceTooHigh u64
  | GasObjectNotOwnedObject owner
  | GasBudgetTooHigh u64 u64
  | GasBudgetTooLow u64 u64
  | GasBalanceTooLow u128 u128
  | InvalidGasObject object_id
  | SizeLimitExceeded string nat
  | BlockedMoveFunction
  | EmptyCommandInput
  | MaxPublishCountExceeded u64 u64
  | DuplicateObjectRefInput
  | MissingGasPayment
  | UnsupportedSponsoredTransactionKind
  | MutableObjectUsedMoreThanOnce object_id
  | ObjectInputArityViolation
  | MoveObjectAsPackage object_id
  | MovePackageAsObject object_id
  | InvalidSequenceNumber
  | InvalidObjectDigest object_id digest
  | IncorrectUserSignature object_id sui_address sui_address
  | InvalidChildObjectArgument object_id object_id
  | NotSharedObjectError
  | ImmutableParameterExpectedError object_id
  | InaccessibleSystemObject object_id
  | SharedObjectStartingVersionMismatch
  | ObjectNotFound object_id "sequence_number option"
  | DependentPackageNotFound object_id
  | ObjectVersionUnavailableForConsumption object_ref sequence_number
  | MutableParameterExpected object_id
  | PackageVerificationTimedout
  | TransactionDenied string "object_id option"
  | Unsupported string

subsection \<open>Computation buckets and rebates\<close>

record computation_bucket =
  cb_min :: u64
  cb_max :: u64
  cb_cost :: u64

definition bucket_new :: "u64 \<Rightarrow> u64 \<Rightarrow> u64 \<Rightarrow> computation_bucket" where
  "bucket_new mn mx cost = \<lparr>cb_min = mn, cb_max = mx, cb_cost = cost\<rparr>"

definition bucket_simple :: "u64 \<Rightarrow> u64 \<Rightarrow> computation_bucket" where
  "bucket_simple mn mx = bucket_new mn mx mx"

definition get_bucket_cost :: "computation_bucket list \<Rightarrow> u64 \<Rightarrow> u64" where
  "get_bucket_cost table computation_cost =
     (case find (\<lambda>b. computation_cost \<le> cb_max b) table of
        Some b \<Rightarrow> cb_cost b
      | None \<Rightarrow> (if table = [] then 5000000 else cb_cost (last table)))"

definition computation_buckets :: "u64 \<Rightarrow> computation_bucket list option" where
  "computation_buckets max_bucket_cost = do {
     rust_assert (5000000 \<le> max_bucket_cost);
     Some [bucket_simple 0 1000, bucket_simple 1000 5000, bucket_simple 5000 10000,
           bucket_simple 10000 20000, bucket_simple 20000 50000, bucket_simple 50000 200000,
           bucket_simple 200000 1000000, bucket_simple 1000000 max_bucket_cost]
   }"

definition BASIS_POINTS :: u128 where "BASIS_POINTS = 10000"

definition sender_rebate :: "u64 \<Rightarrow> u64 \<Rightarrow> u64 option" where
  "sender_rebate storage_rebate storage_rebate_rate = do {
     product \<leftarrow> checked_mul (ucast storage_rebate :: u128) (ucast storage_rebate_rate);
     half \<leftarrow> checked_div BASIS_POINTS 2;
     rounded \<leftarrow> checked_add product half;
     quotient \<leftarrow> checked_div rounded BASIS_POINTS;
     Some (ucast quotient)
   }"

record sui_cost_table =
  min_transaction_cost :: u64
  max_gas_budget :: u64
  package_publish_per_byte_cost :: u64
  object_read_per_byte_cost :: u64
  storage_per_byte_cost :: u64
  execution_cost_table :: cost_table
  computation_bucket_table :: "computation_bucket list"

definition sui_cost_table_new :: "protocol_config \<Rightarrow> u64 \<Rightarrow> sui_cost_table option" where
  "sui_cost_table_new c price = do {
     min_cost \<leftarrow> (if pc_txn_base_cost_as_multiplier c then checked_mul (pc_base_tx_cost_fixed c) price
                  else Some (pc_base_tx_cost_fixed c));
     buckets \<leftarrow> computation_buckets (pc_max_gas_computation_bucket c);
     Some \<lparr>min_transaction_cost = min_cost,
       max_gas_budget = pc_max_tx_gas c,
       package_publish_per_byte_cost = pc_package_publish_cost_per_byte c,
       object_read_per_byte_cost = pc_obj_access_cost_read_per_byte c,
       storage_per_byte_cost = pc_obj_data_cost_refundable c,
       execution_cost_table = cost_table_for_version (pc_gas_model_version c),
       computation_bucket_table = buckets\<rparr>
   }"

definition sui_cost_table_unmetered :: "sui_cost_table option" where
  "sui_cost_table_unmetered = do {
     buckets \<leftarrow> computation_buckets 5000000;
     Some \<lparr>min_transaction_cost = 0, max_gas_budget = - 1,
       package_publish_per_byte_cost = 0, object_read_per_byte_cost = 0, storage_per_byte_cost = 0,
       execution_cost_table = zero_cost_schedule, computation_bucket_table = buckets\<rparr>
   }"

subsection \<open>The state\<close>

record sui_gas_status =
  sg_gas_status :: gas_status
  sg_cost_table :: sui_cost_table
  sg_gas_budget :: u64
  sg_computation_cost :: u64
  sg_charge :: bool
  sg_gas_price :: u64
  sg_reference_gas_price :: u64
  sg_storage_gas_price :: u64
  sg_storage_cost :: u64
  sg_storage_rebate :: u64
  sg_rebate_rate :: u64
  sg_unmetered_storage_rebate :: u64
  sg_gas_rounding_step :: "u64 option"

definition sui_gas_status_new ::
  "gas_status \<Rightarrow> u64 \<Rightarrow> bool \<Rightarrow> u64 \<Rightarrow> u64 \<Rightarrow> u64 \<Rightarrow> u64 \<Rightarrow> u64 option \<Rightarrow> sui_cost_table \<Rightarrow> sui_gas_status" where
  "sui_gas_status_new move_gas_status budget chg price reference_price storage_price rate rounding_step table =
     \<lparr>sg_gas_status = move_gas_status, sg_cost_table = table, sg_gas_budget = budget,
      sg_computation_cost = 0, sg_charge = chg, sg_gas_price = price,
      sg_reference_gas_price = reference_price, sg_storage_gas_price = storage_price,
      sg_storage_cost = 0, sg_storage_rebate = 0, sg_rebate_rate = rate,
      sg_unmetered_storage_rebate = 0, sg_gas_rounding_step = map_option (max 1) rounding_step\<rparr>"

definition new_with_budget :: "u64 \<Rightarrow> u64 \<Rightarrow> u64 \<Rightarrow> protocol_config \<Rightarrow> sui_gas_status option" where
  "new_with_budget budget price reference_price config = do {
     max_computation_budget \<leftarrow> checked_mul (pc_max_gas_computation_bucket config) price;
     let computation_budget =
       (if max_computation_budget < budget then max_computation_budget else budget);
     table \<leftarrow> sui_cost_table_new config price;
     move_status \<leftarrow> gas_status_new (execution_cost_table table) computation_budget price
       (pc_gas_model_version config);
     Some (sui_gas_status_new move_status budget True price reference_price
       (pc_storage_gas_price config) (pc_storage_rebate_rate config) (pc_gas_rounding_step config) table)
   }"

definition new_unmetered :: "sui_gas_status option" where
  "new_unmetered = do {
     table \<leftarrow> sui_cost_table_unmetered;
     Some (sui_gas_status_new gas_status_new_unmetered 0 False 0 0 0 0 None table)
   }"

text \<open>\<open>SuiGasStatus::new\<close> of \<open>gas.rs\<close>.\<close>

definition gas_new ::
  "u64 \<Rightarrow> u64 \<Rightarrow> u64 \<Rightarrow> protocol_config \<Rightarrow> (user_input_error + sui_gas_status) option" where
  "gas_new budget price reference_price config =
     (if price < reference_price then Some (Inl (GasPriceUnderRGP price reference_price))
      else if gas_price_too_high (pc_gas_model_version config) \<and> pc_max_gas_price config \<le> price
      then Some (Inl (GasPriceTooHigh (pc_max_gas_price config)))
      else map_option Inr (new_with_budget budget price reference_price config))"

subsection \<open>Gas coins\<close>

definition get_gas_balance :: "sui_object \<Rightarrow> (user_input_error + u64) option" where
  "get_gas_balance ob =
     (case try_as_move (o_data ob) of
        Some m \<Rightarrow>
          (if \<not> is_gas_coin (mo_type m) then map_option (\<lambda>i. Inl (InvalidGasObject i)) (object_id_of ob)
           else map_option Inr (get_coin_value_unsafe m))
      | None \<Rightarrow> map_option (\<lambda>i. Inl (InvalidGasObject i)) (object_id_of ob))"

fun sum_balances :: "sui_object list \<Rightarrow> u128 \<Rightarrow> (user_input_error + u128) option" where
  "sum_balances [] gas_balance = Some (Inr gas_balance)"
| "sum_balances (ob # obs) gas_balance = do {
     r \<leftarrow> get_gas_balance ob;
     (case r of
        Inl e \<Rightarrow> Some (Inl e)
      | Inr b \<Rightarrow> do {
          gas_balance \<leftarrow> checked_add gas_balance (ucast b);
          sum_balances obs gas_balance
        })
   }"

definition check_gas_balance ::
  "sui_gas_status \<Rightarrow> sui_object list \<Rightarrow> u64 \<Rightarrow> (user_input_error + unit) option" where
  "check_gas_balance s gas_objs gas_budget =
     (case find (\<lambda>ob. \<not> is_address_owned (o_owner ob)) gas_objs of
        Some ob \<Rightarrow> Some (Inl (GasObjectNotOwnedObject (o_owner ob)))
      | None \<Rightarrow>
          if max_gas_budget (sg_cost_table s) < gas_budget
          then Some (Inl (GasBudgetTooHigh gas_budget (max_gas_budget (sg_cost_table s))))
          else if gas_budget < min_transaction_cost (sg_cost_table s)
          then Some (Inl (GasBudgetTooLow gas_budget (min_transaction_cost (sg_cost_table s))))
          else do {
            r \<leftarrow> sum_balances gas_objs 0;
            Some (case r of
                Inl e \<Rightarrow> Inl e
              | Inr gas_balance \<Rightarrow>
                  if gas_balance < ucast gas_budget
                  then Inl (GasBalanceTooLow gas_balance (ucast gas_budget))
                  else Inr ())
          })"

subsection \<open>Operations\<close>

definition is_unmetered :: "sui_gas_status \<Rightarrow> bool" where
  "is_unmetered s = (\<not> sg_charge s)"

definition round_gas_used :: "u64 \<Rightarrow> u64 \<Rightarrow> u64 \<Rightarrow> u64 option" where
  "round_gas_used used gas_rounding price = do {
     exact \<leftarrow> (if 0 < used then map_option (\<lambda>r. r = 0) (checked_rem used gas_rounding)
               else Some False);
     if exact then checked_mul used price
     else do {
       q \<leftarrow> checked_div used gas_rounding;
       q1 \<leftarrow> checked_add q 1;
       rounded \<leftarrow> checked_mul q1 gas_rounding;
       checked_mul rounded price
     }
   }"

definition bucketize_computation ::
  "sui_gas_status \<Rightarrow> ((execution_error_kind + unit) \<times> sui_gas_status) option" where
  "bucketize_computation s = do {
     used \<leftarrow> gas_used_pre_gas_price (sg_gas_status s);
     gas_used \<leftarrow> (case sg_gas_rounding_step s of
         Some gas_rounding \<Rightarrow> round_gas_used used gas_rounding (sg_gas_price s)
       | None \<Rightarrow>
           checked_mul (get_bucket_cost (computation_bucket_table (sg_cost_table s)) used) (sg_gas_price s));
     Some (if sg_gas_budget s \<le> gas_used
           then (Inl InsufficientGas, s\<lparr>sg_computation_cost := sg_gas_budget s\<rparr>)
           else (Inr (), s\<lparr>sg_computation_cost := gas_used\<rparr>))
   }"

record gas_cost_summary =
  gs_computation_cost :: u64
  gs_storage_cost :: u64
  gs_storage_rebate :: u64
  gs_non_refundable_storage_fee :: u64

definition gas_cost_summary_new :: "u64 \<Rightarrow> u64 \<Rightarrow> u64 \<Rightarrow> u64 \<Rightarrow> gas_cost_summary" where
  "gas_cost_summary_new computation storage rebate fee =
     \<lparr>gs_computation_cost = computation, gs_storage_cost = storage,
      gs_storage_rebate = rebate, gs_non_refundable_storage_fee = fee\<rparr>"

definition gas_summary :: "sui_gas_status \<Rightarrow> gas_cost_summary option" where
  "gas_summary s = do {
     rebate \<leftarrow> sender_rebate (sg_storage_rebate s) (sg_rebate_rate s);
     rust_assert (rebate \<le> sg_storage_rebate s);
     fee \<leftarrow> checked_sub (sg_storage_rebate s) rebate;
     Some \<lparr>gs_computation_cost = sg_computation_cost s, gs_storage_cost = sg_storage_cost s,
       gs_storage_rebate = rebate, gs_non_refundable_storage_fee = fee\<rparr>
   }"

definition sui_gas_used :: "sui_gas_status \<Rightarrow> u64 option" where
  "sui_gas_used s = gas_used_pre_gas_price (sg_gas_status s)"

definition reset_storage_cost_and_rebate :: "sui_gas_status \<Rightarrow> sui_gas_status" where
  "reset_storage_cost_and_rebate s =
     s\<lparr>sg_storage_cost := 0, sg_storage_rebate := 0, sg_unmetered_storage_rebate := 0\<rparr>"

definition charge_status_bytes ::
  "nat \<Rightarrow> u64 \<Rightarrow> sui_gas_status \<Rightarrow> (execution_error_kind + unit) \<times> sui_gas_status" where
  "charge_status_bytes sz cost_per_byte s =
     (let (r, g) = charge_bytes (of_nat sz) cost_per_byte (sg_gas_status s);
          s = s\<lparr>sg_gas_status := g\<rparr>
      in case r of Inl e \<Rightarrow> (Inl InsufficientGas, s) | Inr u \<Rightarrow> (Inr (), s))"

definition charge_storage_read ::
  "nat \<Rightarrow> sui_gas_status \<Rightarrow> (execution_error_kind + unit) \<times> sui_gas_status" where
  "charge_storage_read sz s = charge_status_bytes sz (object_read_per_byte_cost (sg_cost_table s)) s"

definition charge_publish_package ::
  "nat \<Rightarrow> sui_gas_status \<Rightarrow> (execution_error_kind + unit) \<times> sui_gas_status" where
  "charge_publish_package sz s =
     charge_status_bytes sz (package_publish_per_byte_cost (sg_cost_table s)) s"

definition track_storage_mutation :: "nat \<Rightarrow> u64 \<Rightarrow> sui_gas_status \<Rightarrow> (u64 \<times> sui_gas_status) option" where
  "track_storage_mutation new_size storage_rebate s =
     (if is_unmetered s then do {
        u \<leftarrow> checked_add (sg_unmetered_storage_rebate s) storage_rebate;
        Some (0, s\<lparr>sg_unmetered_storage_rebate := u\<rparr>)
      } else do {
        total_rebate \<leftarrow> checked_add (sg_storage_rebate s) storage_rebate;
        per_byte \<leftarrow> checked_mul (of_nat new_size) (storage_per_byte_cost (sg_cost_table s));
        storage_cost \<leftarrow> checked_mul per_byte (sg_storage_gas_price s);
        total_cost \<leftarrow> checked_add (sg_storage_cost s) storage_cost;
        Some (storage_cost, s\<lparr>sg_storage_rebate := total_rebate, sg_storage_cost := total_cost\<rparr>)
      })"

definition charge_storage_and_rebate :: "sui_gas_status \<Rightarrow> (execution_error_kind + unit) option" where
  "charge_storage_and_rebate s = do {
     rebate \<leftarrow> sender_rebate (sg_storage_rebate s) (sg_rebate_rate s);
     rust_assert (rebate \<le> sg_storage_rebate s);
     if sg_storage_cost s \<le> rebate then Some (Inr ())
     else do {
       left \<leftarrow> checked_sub (sg_gas_budget s) (sg_computation_cost s);
       due \<leftarrow> checked_sub (sg_storage_cost s) rebate;
       Some (if left < due then Inl InsufficientGas else Inr ())
     }
   }"

definition adjust_computation_on_out_of_gas :: "sui_gas_status \<Rightarrow> sui_gas_status" where
  "adjust_computation_on_out_of_gas s =
     s\<lparr>sg_storage_rebate := 0, sg_storage_cost := 0, sg_computation_cost := sg_gas_budget s\<rparr>"

subsection \<open>Summaries\<close>

text \<open>An \<open>i64\<close> is an integer; operations on it panic outside the 64-bit signed range.\<close>

definition i64_range :: "int \<Rightarrow> int option" where
  "i64_range i = (if - (2 ^ 63) \<le> i \<and> i < 2 ^ 63 then Some i else panic)"

definition summary_gas_used :: "gas_cost_summary \<Rightarrow> u64 option" where
  "summary_gas_used s = checked_add (gs_computation_cost s) (gs_storage_cost s)"

definition summary_sender_rebate :: "gas_cost_summary \<Rightarrow> u64 \<Rightarrow> u64 option" where
  "summary_sender_rebate s rate = do {
     product \<leftarrow> checked_mul (ucast (gs_storage_rebate s) :: u128) (ucast rate);
     half \<leftarrow> checked_div BASIS_POINTS 2;
     rounded \<leftarrow> checked_add product half;
     quotient \<leftarrow> checked_div rounded BASIS_POINTS;
     Some (ucast quotient)
   }"

definition net_gas_usage :: "gas_cost_summary \<Rightarrow> int option" where
  "net_gas_usage s = do {
     used \<leftarrow> summary_gas_used s;
     i64_range (sint used - sint (gs_storage_rebate s))
   }"

definition new_from_txn_effects :: "gas_cost_summary list \<Rightarrow> gas_cost_summary" where
  "new_from_txn_effects summaries =
     \<lparr>gs_computation_cost = sum_list (map gs_computation_cost summaries),
      gs_storage_cost = sum_list (map gs_storage_cost summaries),
      gs_storage_rebate = sum_list (map gs_storage_rebate summaries),
      gs_non_refundable_storage_fee = sum_list (map gs_non_refundable_storage_fee summaries)\<rparr>"

definition summary_add_assign :: "gas_cost_summary \<Rightarrow> gas_cost_summary \<Rightarrow> gas_cost_summary option" where
  "summary_add_assign s other = do {
     computation \<leftarrow> checked_add (gs_computation_cost s) (gs_computation_cost other);
     storage \<leftarrow> checked_add (gs_storage_cost s) (gs_storage_cost other);
     rebate \<leftarrow> checked_add (gs_storage_rebate s) (gs_storage_rebate other);
     fee \<leftarrow> checked_add (gs_non_refundable_storage_fee s) (gs_non_refundable_storage_fee other);
     Some (gas_cost_summary_new computation storage rebate fee)
   }"

definition deduct_gas_coin :: "sui_object \<Rightarrow> int \<Rightarrow> sui_object option" where
  "deduct_gas_coin gas_object charge_or_rebate = do {
     gas_coin \<leftarrow> try_as_move (o_data gas_object);
     balance \<leftarrow> get_coin_value_unsafe gas_coin;
     new_balance \<leftarrow> (if charge_or_rebate < 0 then do {
         negated \<leftarrow> i64_range (- charge_or_rebate);
         checked_add balance (word_of_int negated)
       } else do {
         rust_assert (word_of_int charge_or_rebate \<le> balance);
         checked_sub balance (word_of_int charge_or_rebate)
       });
     gas_coin \<leftarrow> set_coin_value_unsafe new_balance gas_coin;
     Some (gas_object\<lparr>o_data := Move gas_coin\<rparr>)
   }"

subsection \<open>Properties of the gas status\<close>

lemma checked_mul_u128:
  "\<exists>p. checked_mul (ucast (a :: u64) :: u128) (ucast (b :: u64)) = Some p \<and> unat p = unat a * unat b"
proof -
  have "unat a * unat b < 2 ^ 128"
    using unat_u128_product [of a b] unat_less_pow [of "ucast a * ucast b :: u128"] by simp
  then show ?thesis
    by (simp add: checked_mul_def unat_ucast_u128 unat_u128_product)
qed

lemma rebate_le: "n * rate \<le> n * 10000 \<Longrightarrow> (n * rate + 5000) div 10000 \<le> n" for n rate :: nat
proof -
  assume "n * rate \<le> n * 10000"
  then have "n * rate + 5000 < Suc n * 10000" unfolding mult_Suc by linarith
  then have "(n * rate + 5000) div 10000 < Suc n" by (simp only: div_less_iff_less_mult)
  then show ?thesis by simp
qed

lemma sender_rebate_exact:
  assumes "unat rate \<le> 10000"
  shows "\<exists>r. sender_rebate x rate = Some r \<and> unat r = (unat x * unat rate + 5000) div 10000 \<and> r \<le> x"
proof -
  obtain p where p: "checked_mul (ucast x :: u128) (ucast rate) = Some p" "unat p = unat x * unat rate"
    using checked_mul_u128 by blast
  have small: "unat x * unat rate \<le> unat x * 10000"
    using assms by simp
  then have "unat p \<le> unat x * 10000"
    unfolding p(2) .
  then have "unat p + 5000 < 2 ^ 128"
    using unat_u64_less [of x] by simp
  then have add: "checked_add p (5000 :: u128) = Some (p + 5000)" "unat (p + 5000) = unat p + 5000"
    by (simp_all add: checked_add_def unat_word_ariths)
  have half: "checked_div BASIS_POINTS 2 = Some 5000"
    by (simp add: BASIS_POINTS_def checked_div_def)
  have quot: "checked_div (p + 5000) BASIS_POINTS = Some ((p + 5000) div 10000)"
    by (simp add: BASIS_POINTS_def checked_div_def)
  let ?r = "ucast ((p + 5000) div 10000) :: u64"
  have q: "unat ((p + 5000) div 10000) = (unat x * unat rate + 5000) div 10000"
    by (simp add: unat_div add(2) p(2))
  have le: "(unat x * unat rate + 5000) div 10000 \<le> unat x"
    by (rule rebate_le [OF small])
  then have r: "unat ?r = (unat x * unat rate + 5000) div 10000"
    using q unat_u64_less [of x] by (simp add: unsigned_ucast_eq take_bit_nat_eq_self)
  have "sender_rebate x rate = Some ?r"
    by (simp add: sender_rebate_def p(1) half add(1) quot)
  with r le show ?thesis by (simp add: word_le_nat_alt)
qed

text \<open>
  C35.  With a rebate rate of at most 100% the summary never panics; the sender's rebate and the
  non-refundable fee add up to the tracked storage rebate, and the rebate is the tracked value
  times the rate, rounded to the nearest unit.
\<close>

theorem summary_splits_rebate:
  assumes "unat (sg_rebate_rate s) \<le> 10000"
  shows "\<exists>summ. gas_summary s = Some summ \<and>
    unat (gs_storage_rebate summ) + unat (gs_non_refundable_storage_fee summ) = unat (sg_storage_rebate s) \<and>
    unat (gs_storage_rebate summ) = (unat (sg_storage_rebate s) * unat (sg_rebate_rate s) + 5000) div 10000 \<and>
    gs_computation_cost summ = sg_computation_cost s \<and> gs_storage_cost summ = sg_storage_cost s"
proof -
  obtain r where r: "sender_rebate (sg_storage_rebate s) (sg_rebate_rate s) = Some r"
    "unat r = (unat (sg_storage_rebate s) * unat (sg_rebate_rate s) + 5000) div 10000"
    "r \<le> sg_storage_rebate s"
    using sender_rebate_exact [OF assms] by blast
  then obtain fee where fee: "checked_sub (sg_storage_rebate s) r = Some fee"
    by (simp add: checked_sub_def)
  then have "unat (sg_storage_rebate s) = unat r + unat fee"
    by (simp add: checked_sub_eq_Some)
  with r fee show ?thesis by (simp add: gas_summary_def rust_assert_def)
qed

definition sample_config :: protocol_config where
  "sample_config =
     \<lparr>pc_gas_model_version = 8, pc_base_tx_cost_fixed = 1000, pc_txn_base_cost_as_multiplier = True,
      pc_max_tx_gas = 50000000000, pc_max_gas_price = 100000, pc_max_gas_computation_bucket = 5000000,
      pc_package_publish_cost_per_byte = 80, pc_obj_access_cost_read_per_byte = 15,
      pc_obj_data_cost_refundable = 100, pc_storage_gas_price = 76, pc_storage_rebate_rate = 9900,
      pc_gas_rounding_step = Some 1000\<rparr>"

definition sample_status :: "u64 \<Rightarrow> sui_gas_status" where
  "sample_status rebate =
     \<lparr>sg_gas_status = sample_meter,
      sg_cost_table =
        \<lparr>min_transaction_cost = 5000, max_gas_budget = 50000000000, package_publish_per_byte_cost = 80,
         object_read_per_byte_cost = 15, storage_per_byte_cost = 100,
         execution_cost_table = initial_cost_schedule_v5, computation_bucket_table = []\<rparr>,
      sg_gas_budget = 100000, sg_computation_cost = 0, sg_charge = True, sg_gas_price = 5,
      sg_reference_gas_price = 5, sg_storage_gas_price = 76, sg_storage_cost = 0,
      sg_storage_rebate = rebate, sg_rebate_rate = 9900, sg_unmetered_storage_rebate = 0,
      sg_gas_rounding_step = Some 1000\<rparr>"

theorem summary_splits_rebate_witness:
  "\<exists>summ. gas_summary (sample_status 777) = Some summ \<and>
    unat (gs_storage_rebate summ) + unat (gs_non_refundable_storage_fee summ) = 777 \<and>
    unat (gs_storage_rebate summ) = 769"
  using summary_splits_rebate [of "sample_status 777"] by (auto simp: sample_status_def)

lemma round_gas_used_bounds:
  assumes "round_gas_used used step price = Some gas_used"
  shows "\<exists>units. checked_mul units price = Some gas_used \<and> unat used \<le> unat units \<and>
    unat units \<le> unat used + unat step \<and> unat step dvd unat units"
proof -
  from assms obtain exact where
    exact: "(if 0 < used then map_option (\<lambda>r. r = 0) (checked_rem used step) else Some False) = Some exact" and
    gas_used: "(if exact then checked_mul used price
      else do { q \<leftarrow> checked_div used step; q1 \<leftarrow> checked_add q 1; rounded \<leftarrow> checked_mul q1 step;
        checked_mul rounded price }) = Some gas_used"
    unfolding round_gas_used_def bind_eq_Some_conv by blast
  show ?thesis
  proof (cases exact)
    case True
    with exact have "unat step dvd unat used"
      by (auto simp: checked_rem_eq_Some split: if_splits)
    with True gas_used show ?thesis by auto
  next
    case False
    with gas_used obtain q q1 rounded where
      "checked_div used step = Some q" "checked_add q 1 = Some q1" "checked_mul q1 step = Some rounded"
      and cost: "checked_mul rounded price = Some gas_used"
      by (auto simp: bind_eq_Some_conv)
    then have step: "unat step \<noteq> 0" "unat rounded = (unat used div unat step + 1) * unat step"
      by (simp_all add: checked_div_eq_Some checked_add_eq_Some checked_mul_eq_Some)
    have split: "unat used = unat used div unat step * unat step + unat used mod unat step"
      by simp
    have "unat used mod unat step < unat step"
      using step(1) by simp
    then have "unat used \<le> (unat used div unat step + 1) * unat step"
      "(unat used div unat step + 1) * unat step \<le> unat used + unat step"
      unfolding distrib_right using split by linarith+
    with step(2) cost show ?thesis by (intro exI [of _ rounded]) simp
  qed
qed

text \<open>The upper bounds of the buckets, which are also their costs.\<close>

definition bucket_bounds :: "u64 \<Rightarrow> u64 list" where
  "bucket_bounds max_bucket_cost = [1000, 5000, 10000, 20000, 50000, 200000, 1000000, max_bucket_cost]"

lemma get_bucket_cost_least:
  assumes "computation_buckets m = Some table"
  shows "get_bucket_cost table used \<in> set (bucket_bounds m)"
    and "used \<le> m \<Longrightarrow> used \<le> get_bucket_cost table used \<and>
      (\<forall>b \<in> set (bucket_bounds m). used \<le> b \<longrightarrow> get_bucket_cost table used \<le> b)"
    and "m < used \<Longrightarrow> get_bucket_cost table used = m"
proof -
  from assms have m: "5000000 \<le> m" and table: "table = [bucket_simple 0 1000, bucket_simple 1000 5000,
      bucket_simple 5000 10000, bucket_simple 10000 20000, bucket_simple 20000 50000, bucket_simple 50000 200000,
      bucket_simple 200000 1000000, bucket_simple 1000000 m]"
    by (auto simp: computation_buckets_def bind_eq_Some_conv rust_assert_def split: if_splits)
  have cost: "get_bucket_cost table used = (if used \<le> 1000 then 1000 else if used \<le> 5000 then 5000
      else if used \<le> 10000 then 10000 else if used \<le> 20000 then 20000 else if used \<le> 50000 then 50000
      else if used \<le> 200000 then 200000 else if used \<le> 1000000 then 1000000 else m)"
    by (simp add: get_bucket_cost_def table bucket_simple_def bucket_new_def)
  show "get_bucket_cost table used \<in> set (bucket_bounds m)" unfolding cost by (simp add: bucket_bounds_def)
  show "used \<le> get_bucket_cost table used \<and>
      (\<forall>b \<in> set (bucket_bounds m). used \<le> b \<longrightarrow> get_bucket_cost table used \<le> b)" if "used \<le> m"
    unfolding cost bucket_bounds_def using that m by (auto simp: word_le_nat_alt)
  show "get_bucket_cost table used = m" if "m < used"
    unfolding cost using that m by (auto simp: word_le_nat_alt word_less_nat_alt)
qed

text \<open>What is charged for: the gas used, rounded up to a multiple of the step or to the bound of its bucket.\<close>

definition charged_units :: "u64 option \<Rightarrow> u64 \<Rightarrow> u64 \<Rightarrow> u64 \<Rightarrow> bool" where
  "charged_units rounding_step max_bucket_cost used units \<longleftrightarrow>
     (case rounding_step of
        Some step \<Rightarrow> used \<le> units \<and> unat units \<le> unat used + unat step \<and> (unat step dvd unat units)
      | None \<Rightarrow>
          if used \<le> max_bucket_cost
          then units \<in> set (bucket_bounds max_bucket_cost) \<and> used \<le> units \<and>
            (\<forall>b \<in> set (bucket_bounds max_bucket_cost). used \<le> b \<longrightarrow> units \<le> b)
          else units = max_bucket_cost)"

text \<open>
  C36.  Bucketizing charges the gas used, rounded up, times the gas price, and never more than the
  budget: with a rounding step it rounds to a multiple of the step that is at least the gas used and
  exceeds it by at most one step; without one it takes the smallest bound of the bucket table that is
  at least the gas used, or the largest bound when there is none.  It fails exactly when that cost
  reaches the budget, and then the whole budget is charged.  Nothing else of the status changes.
\<close>

theorem bucketize_charges_within_budget:
  assumes "bucketize_computation s = Some (r, s')"
    and "computation_buckets m = Some (computation_bucket_table (sg_cost_table s))"
  shows "\<exists>used units. gas_used_pre_gas_price (sg_gas_status s) = Some used \<and>
    charged_units (sg_gas_rounding_step s) m used units \<and>
    (if unat (sg_gas_budget s) \<le> unat units * unat (sg_gas_price s)
     then r = Inl InsufficientGas \<and> s' = s\<lparr>sg_computation_cost := sg_gas_budget s\<rparr>
     else r = Inr () \<and> s' = s\<lparr>sg_computation_cost := units * sg_gas_price s\<rparr> \<and>
       unat (sg_computation_cost s') = unat units * unat (sg_gas_price s))"
proof -
  from assms(1) obtain used gas_used where
    used: "gas_used_pre_gas_price (sg_gas_status s) = Some used" and
    gas_used: "(case sg_gas_rounding_step s of
         Some gas_rounding \<Rightarrow> round_gas_used used gas_rounding (sg_gas_price s)
       | None \<Rightarrow> checked_mul (get_bucket_cost (computation_bucket_table (sg_cost_table s)) used) (sg_gas_price s)) =
      Some gas_used" and
    res: "(r, s') = (if sg_gas_budget s \<le> gas_used
      then (Inl InsufficientGas, s\<lparr>sg_computation_cost := sg_gas_budget s\<rparr>)
      else (Inr (), s\<lparr>sg_computation_cost := gas_used\<rparr>))"
    by (auto simp: bucketize_computation_def bind_eq_Some_conv)
  have "\<exists>units. checked_mul units (sg_gas_price s) = Some gas_used \<and>
      charged_units (sg_gas_rounding_step s) m used units"
  proof (cases "sg_gas_rounding_step s")
    case None
    with gas_used get_bucket_cost_least [OF assms(2), of used] show ?thesis
      by (auto simp: charged_units_def not_le)
  next
    case (Some step)
    with gas_used round_gas_used_bounds [of used step "sg_gas_price s" gas_used] show ?thesis
      by (auto simp: charged_units_def word_le_nat_alt)
  qed
  then obtain units where units: "checked_mul units (sg_gas_price s) = Some gas_used"
    "charged_units (sg_gas_rounding_step s) m used units" by blast
  have cost: "unat gas_used = unat units * unat (sg_gas_price s)" "gas_used = units * sg_gas_price s"
    using units(1) [unfolded checked_mul_eq_Some] units(1) [unfolded checked_mul_def] by (auto split: if_splits)
  show ?thesis
    using used units(2) res cost by (intro exI [of _ used] exI [of _ units]) (auto simp: word_le_nat_alt split: if_splits)
qed

text \<open>The sample status with the bucket table of the protocol instead of a rounding step.\<close>

definition sample_bucketed :: sui_gas_status where
  "sample_bucketed = sample_status 0\<lparr>sg_gas_rounding_step := None,
     sg_cost_table := (sg_cost_table (sample_status 0))
       \<lparr>computation_bucket_table := the (computation_buckets 5000000)\<rparr>\<rparr>"

theorem bucketize_charges_within_budget_witness:
  "\<exists>r s' units. bucketize_computation sample_bucketed = Some (r, s') \<and>
    charged_units None 5000000 0 units \<and> sg_computation_cost s' = units * 5"
proof -
  have "bucketize_computation sample_bucketed \<noteq> None" by code_simp
  then obtain r s' where b: "bucketize_computation sample_bucketed = Some (r, s')" by auto
  have t: "computation_buckets 5000000 = Some (computation_bucket_table (sg_cost_table sample_bucketed))"
    by (simp add: sample_bucketed_def computation_buckets_def rust_assert_def)
  have u: "gas_used_pre_gas_price (sg_gas_status sample_bucketed) = Some 0" by code_simp
  have f: "sg_gas_rounding_step sample_bucketed = None" "sg_gas_budget sample_bucketed = 100000"
    "sg_gas_price sample_bucketed = 5" by (simp_all add: sample_bucketed_def sample_status_def)
  obtain units where units: "charged_units None 5000000 0 units"
    and res: "if unat (100000 :: u64) \<le> unat units * unat (5 :: u64)
      then r = Inl InsufficientGas \<and> s' = sample_bucketed\<lparr>sg_computation_cost := 100000\<rparr>
      else r = Inr () \<and> s' = sample_bucketed\<lparr>sg_computation_cost := units * 5\<rparr> \<and>
        unat (sg_computation_cost s') = unat units * unat (5 :: u64)"
    using bucketize_charges_within_budget [OF b t] unfolding u f by blast
  have "units \<le> 1000" using units by (simp add: charged_units_def bucket_bounds_def)
  then have "unat units \<le> 1000" by (simp add: word_le_nat_alt)
  with res have "sg_computation_cost s' = units * 5" by (simp split: if_splits)
  with b units show ?thesis by blast
qed

lemma sum_balances_ok:
  "sum_balances obs acc = Some (Inr tot) \<Longrightarrow>
     \<exists>vs. map get_gas_balance obs = map (\<lambda>v. Some (Inr v)) vs \<and>
       unat tot = unat acc + sum_list (map unat vs)"
proof (induction obs arbitrary: acc)
  case Nil
  then show ?case by simp
next
  case (Cons ob obs)
  from Cons.prems obtain y where y: "get_gas_balance ob = Some y" by (auto simp: bind_eq_Some_conv)
  with Cons.prems obtain b where "y = Inr b" by (cases y) auto
  with Cons.prems y obtain acc' where b: "get_gas_balance ob = Some (Inr b)"
    "checked_add acc (ucast b) = Some acc'" "sum_balances obs acc' = Some (Inr tot)"
    by (auto simp: bind_eq_Some_conv)
  from Cons.IH [OF b(3)] obtain vs where
    "map get_gas_balance obs = map (\<lambda>v. Some (Inr v)) vs"
    "unat tot = unat acc' + sum_list (map unat vs)" by blast
  with b(1,2) show ?case
    by (intro exI [of _ "b # vs"]) (simp add: checked_add_eq_Some unat_ucast_u128)
qed

text \<open>
  When \<open>check_gas_balance\<close> accepts, every gas object is owned by an address and is a gas
  coin, the budget lies between the minimum cost and the maximum budget, and the coins
  together hold at least the budget.
\<close>

theorem check_gas_balance_sound:
  assumes "check_gas_balance s gas_objs budget = Some (Inr ())"
  shows "(\<forall>ob \<in> set gas_objs. is_address_owned (o_owner ob)) \<and>
    min_transaction_cost (sg_cost_table s) \<le> budget \<and> budget \<le> max_gas_budget (sg_cost_table s) \<and>
    (\<exists>values. map get_gas_balance gas_objs = map (\<lambda>v. Some (Inr v)) values \<and>
       unat budget \<le> sum_list (map unat values))"
proof -
  have owned: "find (\<lambda>ob. \<not> is_address_owned (o_owner ob)) gas_objs = None"
    using assms by (auto simp: check_gas_balance_def split: option.splits)
  then have bounds: "\<not> max_gas_budget (sg_cost_table s) < budget"
    "\<not> budget < min_transaction_cost (sg_cost_table s)"
    using assms by (auto simp: check_gas_balance_def split: if_splits)
  with assms owned obtain y where y: "sum_balances gas_objs 0 = Some y"
    by (auto simp: check_gas_balance_def bind_eq_Some_conv)
  with assms owned bounds obtain balance where "y = Inr balance" "\<not> balance < ucast budget"
    by (cases y) (auto simp: check_gas_balance_def split: if_splits)
  with y have balance: "sum_balances gas_objs 0 = Some (Inr balance)" "\<not> balance < ucast budget"
    by simp_all
  then have "unat budget \<le> unat balance"
    by (simp add: word_less_nat_alt unat_ucast_u128)
  with sum_balances_ok [OF balance(1)] owned bounds show ?thesis
    by (auto simp: find_None_iff)
qed

definition gas_coin_object :: "u8 \<Rightarrow> u64 \<Rightarrow> u64 \<Rightarrow> sui_object" where
  "gas_coin_object i value rebate =
     \<lparr>o_data = Move \<lparr>mo_type = GasCoin, mo_has_public_transfer = True, mo_version = 3,
        mo_contents = replicate 31 0 @ [i] @ to_le_bytes value\<rparr>,
      o_owner = AddressOwner 17, o_previous_transaction = 0, o_storage_rebate = rebate\<rparr>"

theorem check_gas_balance_sound_witness:
  "check_gas_balance (sample_status 0) [gas_coin_object 8 60000 0, gas_coin_object 9 50000 0] 100000 =
     Some (Inr ()) \<and>
   (\<exists>values. map get_gas_balance [gas_coin_object 8 60000 0, gas_coin_object 9 50000 0] =
      map (\<lambda>v. Some (Inr v)) values \<and> unat (100000 :: u64) \<le> sum_list (map unat values))"
proof
  show *: "check_gas_balance (sample_status 0) [gas_coin_object 8 60000 0, gas_coin_object 9 50000 0]
      100000 = Some (Inr ())"
    by code_simp
  show "\<exists>values. map get_gas_balance [gas_coin_object 8 60000 0, gas_coin_object 9 50000 0] =
      map (\<lambda>v. Some (Inr v)) values \<and> unat (100000 :: u64) \<le> sum_list (map unat values)"
    using check_gas_balance_sound [OF *] by blast
qed

text \<open>\<open>deduct_gas\<close> moves the balance of the coin by exactly the charge and changes nothing else.\<close>

lemma unat_word_of_int_nonneg: "0 \<le> i \<Longrightarrow> i < 2 ^ 64 \<Longrightarrow> unat (word_of_int i :: u64) = nat i"
  by (simp add: unat_eq_nat_uint uint_word_of_int)

lemma deduct_gas_coin_exact:
  assumes "deduct_gas_coin ob c = Some ob'" and "- (2 ^ 63) \<le> c" and "c < 2 ^ 63"
  shows "\<exists>b b'. object_get_coin_value_unsafe ob = Some b \<and> object_get_coin_value_unsafe ob' = Some b' \<and>
    int (unat b') = int (unat b) - c"
    and "o_owner ob' = o_owner ob" "o_storage_rebate ob' = o_storage_rebate ob"
    and "object_id_of ob' = object_id_of ob"
proof -
  from assms(1) obtain m b nb m' where
    m: "try_as_move (o_data ob) = Some m" "get_coin_value_unsafe m = Some b" and
    nb: "(if c < 0 then do { negated \<leftarrow> i64_range (- c); checked_add b (word_of_int negated) }
      else do { rust_assert (word_of_int c \<le> b); checked_sub b (word_of_int c) }) = Some nb" and
    m': "set_coin_value_unsafe nb m = Some m'" "ob' = ob\<lparr>o_data := Move m'\<rparr>"
    by (auto simp: deduct_gas_coin_def bind_eq_Some_conv)
  note set = get_set_coin_value [OF m'(1)]
  have move: "o_data ob = Move m" using m(1) by (cases "o_data ob") auto
  have "int (unat nb) = int (unat b) - c"
  proof (cases "c < 0")
    case True
    with nb assms(2) have "checked_add b (word_of_int (- c)) = Some nb"
      by (auto simp: i64_range_def split: if_splits)
    moreover have "unat (word_of_int (- c) :: u64) = nat (- c)"
      using True assms(2) by (intro unat_word_of_int_nonneg) simp_all
    ultimately show ?thesis using True by (simp add: checked_add_eq_Some)
  next
    case False
    with nb have "checked_sub b (word_of_int c) = Some nb" by (auto simp: bind_eq_Some_conv)
    moreover have "unat (word_of_int c :: u64) = nat c"
      using False assms(3) by (intro unat_word_of_int_nonneg) simp_all
    ultimately show ?thesis using False by (simp add: checked_sub_eq_Some)
  qed
  then show "\<exists>b b'. object_get_coin_value_unsafe ob = Some b \<and> object_get_coin_value_unsafe ob' = Some b' \<and>
      int (unat b') = int (unat b) - c"
    using m set(1) m'(2) by (simp add: object_get_coin_value_unsafe_def)
  show "o_owner ob' = o_owner ob" "o_storage_rebate ob' = o_storage_rebate ob"
    "object_id_of ob' = object_id_of ob"
    using set(2) m'(2) move by (simp_all add: object_id_of_def)
qed

end
