(* ===== verification/Coin_Balances.thy ===== *)
theory Coin_Balances
  imports Sui_Object Rust_Collections
begin

section \<open>The coins an object holds\<close>

text \<open>
  Models the helpers of \<open>src/crates/sui-types/src/object.rs\<close> that add up the balances embedded in
  an object, on the annotated values of \<open>src/external-crates/move/move-core/types/src/value.rs\<close>.
  Looking up the layout of a type and decoding the contents need the Move VM and BCS: the
  function from an object to its annotated struct is the parameter \<open>decode\<close>.  The map of
  balances is only looked up, so it is an association list without repeated keys.
\<close>

datatype move_value =
    MvU8 u8
  | MvU64 u64
  | MvU128 u128
  | MvBool bool
  | MvAddress account_address
  | MvVector "move_value list"
  | MvStruct move_struct
  | MvSigner account_address
  | MvU16 u16
  | MvU32 "32 word"
  | MvU256 u256
and move_struct =
    Runtime "move_value list"
  | WithFields "(string \<times> move_value) list"
  | WithTypes struct_tag "(string \<times> move_value) list"

definition SUI_FRAMEWORK_ADDRESS :: account_address where "SUI_FRAMEWORK_ADDRESS = 2"

definition GAS_type_tag :: type_tag where
  "GAS_type_tag = TagStruct (StructTag SUI_FRAMEWORK_ADDRESS ''sui'' ''SUI'' [])"

fun balance_is_balance :: "struct_tag \<Rightarrow> bool" where
  "balance_is_balance (StructTag address module name type_params) \<longleftrightarrow>
     address = SUI_FRAMEWORK_ADDRESS \<and> module = ''balance'' \<and> name = ''Balance''"

fun is_balance :: "struct_tag \<Rightarrow> type_tag option" where
  "is_balance (StructTag address module name type_params) =
     (if balance_is_balance (StructTag address module name type_params) \<and> length type_params = 1
      then Some (hd type_params) else None)"

fun coin_type_maybe :: "move_object_type \<Rightarrow> type_tag option" where
  "coin_type_maybe GasCoin = Some GAS_type_tag"
| "coin_type_maybe (Coin inner) = Some inner"
| "coin_type_maybe StakedSui = None"
| "coin_type_maybe (Other s) = None"

text \<open>
  The code keeps the balances in a \<open>BTreeMap\<close> and reads it by key only, so the order of its
  entries is left open here.
\<close>

type_synonym balances = "(type_tag, u64) hash_map"

text \<open>An error is \<^const>\<open>Inl\<close>: the depth limit was exceeded or the layout could not be resolved.\<close>

datatype balance_error = ExceededMaxMoveValueDepth | LayoutError nat

type_synonym balance_scan = "balances \<Rightarrow> u64 \<Rightarrow> (balance_error + balances) option"

definition MAX_MOVE_VALUE_DEPTH :: u64 where "MAX_MOVE_VALUE_DEPTH = 256"

definition add_balance :: "type_tag \<Rightarrow> u64 \<Rightarrow> balances \<Rightarrow> balances" where
  "add_balance tag balance bs =
     (if 0 < balance
      then AList.update tag ((case map_of bs tag of Some b \<Rightarrow> b | None \<Rightarrow> 0) + balance) bs
      else bs)"

fun scan_all :: "balance_scan list \<Rightarrow> balance_scan" where
  "scan_all [] bs depth = Some (Inr bs)"
| "scan_all (f # fs) bs depth = do {
     r \<leftarrow> f bs depth;
     (case r of Inl e \<Rightarrow> Some (Inl e) | Inr bs \<Rightarrow> scan_all fs bs depth)
   }"

definition deeper :: "balance_scan \<Rightarrow> balance_scan" where
  "deeper f bs value_depth =
     (let value_depth = value_depth + 1 in
      if MAX_MOVE_VALUE_DEPTH < value_depth then Some (Inl ExceededMaxMoveValueDepth)
      else f bs value_depth)"

fun balance_field :: "(string \<times> move_value) list \<Rightarrow> u64 option" where
  "balance_field ((name, MvU64 n) # flds) = Some n"
| "balance_field flds = panic"

primrec get_coin_balances_in_value :: "move_value \<Rightarrow> balance_scan"
  and get_coin_balances_in_struct :: "move_struct \<Rightarrow> balance_scan" where
  "get_coin_balances_in_value (MvStruct s) = deeper (get_coin_balances_in_struct s)"
| "get_coin_balances_in_value (MvVector vec) =
     deeper (scan_all (map get_coin_balances_in_value vec))"
| "get_coin_balances_in_value (MvU8 n) = deeper (\<lambda>bs depth. Some (Inr bs))"
| "get_coin_balances_in_value (MvU64 n) = deeper (\<lambda>bs depth. Some (Inr bs))"
| "get_coin_balances_in_value (MvU128 n) = deeper (\<lambda>bs depth. Some (Inr bs))"
| "get_coin_balances_in_value (MvBool b) = deeper (\<lambda>bs depth. Some (Inr bs))"
| "get_coin_balances_in_value (MvAddress a) = deeper (\<lambda>bs depth. Some (Inr bs))"
| "get_coin_balances_in_value (MvSigner a) = deeper (\<lambda>bs depth. Some (Inr bs))"
| "get_coin_balances_in_value (MvU16 n) = deeper (\<lambda>bs depth. Some (Inr bs))"
| "get_coin_balances_in_value (MvU32 n) = deeper (\<lambda>bs depth. Some (Inr bs))"
| "get_coin_balances_in_value (MvU256 n) = deeper (\<lambda>bs depth. Some (Inr bs))"
| "get_coin_balances_in_struct (Runtime flds) = (\<lambda>bs depth. panic)"
| "get_coin_balances_in_struct (WithFields flds) = (\<lambda>bs depth. panic)"
| "get_coin_balances_in_struct (WithTypes ty flds) = (\<lambda>bs depth.
     case is_balance ty of
       Some tag \<Rightarrow> map_option (\<lambda>n. Inr (add_balance tag n bs)) (balance_field flds)
     | None \<Rightarrow> scan_all (map snd (map (map_prod id get_coin_balances_in_value) flds)) bs depth)"

definition get_coin_balances ::
  "(move_object \<Rightarrow> balance_error + move_struct) \<Rightarrow> move_object \<Rightarrow> (balance_error + balances) option" where
  "get_coin_balances decode m =
     (case coin_type_maybe (mo_type m) of
        Some tag \<Rightarrow> map_option (\<lambda>balance. Inr (add_balance tag balance [])) (get_coin_value_unsafe m)
      | None \<Rightarrow>
          (case decode m of
             Inl e \<Rightarrow> Some (Inl e)
           | Inr s \<Rightarrow> get_coin_balances_in_struct s [] 0))"

definition move_get_total_sui ::
  "(move_object \<Rightarrow> balance_error + move_struct) \<Rightarrow> move_object \<Rightarrow> (balance_error + u64) option" where
  "move_get_total_sui decode m =
     map_option (map_sum id (\<lambda>bs. case map_of bs GAS_type_tag of Some n \<Rightarrow> n | None \<Rightarrow> 0))
       (get_coin_balances decode m)"

definition get_total_sui ::
  "(move_object \<Rightarrow> balance_error + move_struct) \<Rightarrow> sui_object \<Rightarrow> (balance_error + u64) option" where
  "get_total_sui decode ob =
     (case o_data ob of
        Move m \<Rightarrow> map_option (map_sum id (\<lambda>n. o_storage_rebate ob + n)) (move_get_total_sui decode m)
      | Package p \<Rightarrow> Some (Inr (o_storage_rebate ob + 0)))"

subsection \<open>The scan adds up every balance in the value\<close>

text \<open>
  The balances of a value, listed: those of its fields or elements, where a struct that is a
  \<open>Balance<T>\<close> contributes its amount and is not entered.
\<close>

primrec balances_of_value :: "move_value \<Rightarrow> (type_tag \<times> u64) list"
  and balances_of_struct :: "move_struct \<Rightarrow> (type_tag \<times> u64) list" where
  "balances_of_value (MvStruct s) = balances_of_struct s"
| "balances_of_value (MvVector vec) = concat (map balances_of_value vec)"
| "balances_of_value (MvU8 n) = []"
| "balances_of_value (MvU64 n) = []"
| "balances_of_value (MvU128 n) = []"
| "balances_of_value (MvBool b) = []"
| "balances_of_value (MvAddress a) = []"
| "balances_of_value (MvSigner a) = []"
| "balances_of_value (MvU16 n) = []"
| "balances_of_value (MvU32 n) = []"
| "balances_of_value (MvU256 n) = []"
| "balances_of_struct (Runtime flds) = []"
| "balances_of_struct (WithFields flds) = []"
| "balances_of_struct (WithTypes ty flds) =
     (case is_balance ty of
        Some tag \<Rightarrow> (case balance_field flds of Some n \<Rightarrow> [(tag, n)] | None \<Rightarrow> [])
      | None \<Rightarrow> concat (map snd (map (map_prod id balances_of_value) flds)))"

definition amount_of :: "type_tag \<Rightarrow> (type_tag \<times> u64) list \<Rightarrow> u64" where
  "amount_of tag entries = sum_list (map snd (filter (\<lambda>e. fst e = tag) entries))"

definition balance_in :: "type_tag \<Rightarrow> balances \<Rightarrow> u64" where
  "balance_in tag bs = (case map_of bs tag of Some n \<Rightarrow> n | None \<Rightarrow> 0)"

lemma amount_of_Nil [simp]: "amount_of tag [] = 0"
  by (simp add: amount_of_def)

lemma amount_of_append [simp]: "amount_of tag (xs @ ys) = amount_of tag xs + amount_of tag ys"
  by (simp add: amount_of_def)

lemma balance_in_add [simp]:
  "balance_in tag (add_balance tag' n bs) = balance_in tag bs + amount_of tag [(tag', n)]"
  by (auto simp: add_balance_def balance_in_def amount_of_def update_conv' word_gt_0 split: option.splits)

text \<open>A scan \<open>collects\<close> a list of entries when, if it succeeds, it adds exactly their amounts.\<close>

definition collects :: "balance_scan \<Rightarrow> (type_tag \<times> u64) list \<Rightarrow> bool" where
  "collects f entries \<longleftrightarrow> (\<forall>bs depth bs' tag. f bs depth = Some (Inr bs') \<longrightarrow>
     balance_in tag bs' = balance_in tag bs + amount_of tag entries)"

lemma collects_none [simp]: "collects (\<lambda>bs depth. Some (Inr bs)) []"
  by (simp add: collects_def)

lemma collects_panic [simp]: "collects (\<lambda>bs depth. panic) entries"
  by (simp add: collects_def)

lemma collects_deeper: "collects f entries \<Longrightarrow> collects (deeper f) entries"
  by (auto simp: collects_def deeper_def Let_def)

lemma collects_all:
  "list_all2 collects fs es \<Longrightarrow> collects (scan_all fs) (concat es)"
proof (induction fs es rule: list_all2_induct)
  case Nil
  then show ?case by (simp add: collects_def)
next
  case (Cons f fs e es)
  show ?case
    unfolding collects_def
  proof (intro allI impI)
    fix bs depth bs' tag
    assume "scan_all (f # fs) bs depth = Some (Inr bs')"
    then obtain r where r: "f bs depth = Some r"
      "(case r of Inl e \<Rightarrow> Some (Inl e) | Inr bs \<Rightarrow> scan_all fs bs depth) = Some (Inr bs')"
      by (auto simp: bind_eq_Some_conv)
    then obtain bs1 where "r = Inr bs1" by (cases r) auto
    with r Cons show "balance_in tag bs' = balance_in tag bs + amount_of tag (concat (e # es))"
      unfolding collects_def by fastforce
  qed
qed

lemma list_all2_map_map: "(\<And>x. x \<in> set xs \<Longrightarrow> P (f x) (g x)) \<Longrightarrow> list_all2 P (map f xs) (map g xs)"
  by (induction xs) auto

lemma collects_balances:
  "collects (get_coin_balances_in_value v) (balances_of_value v)"
  "collects (get_coin_balances_in_struct s) (balances_of_struct s)"
proof (induction v and s)
  case (MvVector vec)
  then show ?case by (auto intro!: collects_deeper collects_all list_all2_map_map)
next
  case (MvStruct s)
  then show ?case by (simp add: collects_deeper)
next
  case (WithTypes ty flds)
  show ?case
  proof (cases "is_balance ty")
    case None
    have "collects (scan_all (map snd (map (map_prod id get_coin_balances_in_value) flds)))
      (concat (map snd (map (map_prod id balances_of_value) flds)))"
      unfolding list.map_comp using WithTypes
      by (intro collects_all list_all2_map_map) (force simp: comp_def)
    with None show ?thesis by (simp add: collects_def)
  next
    case (Some tag)
    then show ?thesis
      by (cases "balance_field flds") (auto simp: collects_def)
  qed
qed (auto intro: collects_deeper)

text \<open>
  C37.  When the scan of an object's contents succeeds, \<open>get_total_sui\<close> is the storage rebate plus
  the sum of all \<open>Balance<SUI>\<close> amounts reachable through fields and vector elements; when the
  object is a coin it is the rebate plus the coin's value.  The result is the same as
  flattening the value first and adding up afterwards.
\<close>

theorem get_total_sui_adds_balances:
  assumes "get_total_sui decode ob = Some (Inr n)" and "o_data ob = Move m"
  shows "case coin_type_maybe (mo_type m) of
      Some tag \<Rightarrow> (\<exists>v. get_coin_value_unsafe m = Some v \<and>
        n = o_storage_rebate ob + (if tag = GAS_type_tag then v else 0))
    | None \<Rightarrow> (\<exists>s. decode m = Inr s \<and>
        n = o_storage_rebate ob + amount_of GAS_type_tag (balances_of_struct s))"
proof -
  from assms obtain r where r: "get_coin_balances decode m = Some r" and
    n: "map_sum id (\<lambda>x. o_storage_rebate ob + x)
      (map_sum id (\<lambda>bs. case map_of bs GAS_type_tag of Some n \<Rightarrow> n | None \<Rightarrow> 0) r) = Inr n"
    by (auto simp: get_total_sui_def move_get_total_sui_def)
  from n obtain bs where bs: "r = Inr bs" and n: "n = o_storage_rebate ob + balance_in GAS_type_tag bs"
    by (cases r) (auto simp: balance_in_def)
  show ?thesis
  proof (cases "coin_type_maybe (mo_type m)")
    case (Some tag)
    with r bs obtain v where v: "get_coin_value_unsafe m = Some v" "bs = add_balance tag v []"
      by (auto simp: get_coin_balances_def)
    have "balance_in GAS_type_tag bs = (if tag = GAS_type_tag then v else 0)"
      unfolding v(2) balance_in_add by (simp add: balance_in_def amount_of_def)
    with Some v n show ?thesis by simp
  next
    case None
    with r bs obtain s where s: "decode m = Inr s" "get_coin_balances_in_struct s [] 0 = Some (Inr bs)"
      by (auto simp: get_coin_balances_def split: sum.splits)
    have "balance_in GAS_type_tag bs = amount_of GAS_type_tag (balances_of_struct s)"
      using collects_balances(2) [of s] s(2) by (fastforce simp: collects_def balance_in_def)
    with None s n show ?thesis by simp
  qed
qed

definition sample_struct :: move_struct where
  "sample_struct = WithTypes (StructTag 3 ''pool'' ''Pool'' [])
     [(''id'', MvAddress 77),
      (''rewards'', MvStruct (WithTypes (StructTag 2 ''balance'' ''Balance'' [GAS_type_tag]) [(''value'', MvU64 40)])),
      (''parts'', MvVector [MvStruct (WithTypes (StructTag 2 ''balance'' ''Balance'' [GAS_type_tag]) [(''value'', MvU64 7)]),
         MvStruct (WithTypes (StructTag 2 ''balance'' ''Balance'' [TagU8]) [(''value'', MvU64 1000)])])]"

definition sample_holder_object :: move_object where
  "sample_holder_object = \<lparr>mo_type = Other (StructTag 3 ''pool'' ''Pool'' []),
     mo_has_public_transfer = False, mo_version = 1, mo_contents = replicate 40 0\<rparr>"

definition sample_holder :: sui_object where
  "sample_holder = \<lparr>o_data = Move sample_holder_object, o_owner = Shared 1,
     o_previous_transaction = 0, o_storage_rebate = 10\<rparr>"

theorem get_total_sui_adds_balances_witness:
  "get_total_sui (\<lambda>_. Inr sample_struct) sample_holder = Some (Inr 57) \<and>
   (57 :: u64) = o_storage_rebate sample_holder + amount_of GAS_type_tag (balances_of_struct sample_struct)"
proof
  show total: "get_total_sui (\<lambda>_. Inr sample_struct) sample_holder = Some (Inr 57)"
    by code_simp
  have "o_data sample_holder = Move sample_holder_object"
    by (simp add: sample_holder_def)
  from get_total_sui_adds_balances [OF total this]
  show "(57 :: u64) = o_storage_rebate sample_holder + amount_of GAS_type_tag (balances_of_struct sample_struct)"
    by (simp add: sample_holder_object_def)
qed

end
