(* ===== verification/Temporary_Store.thy ===== *)
theory Temporary_Store
  imports Sui_Gas Coin_Balances
begin

section \<open>The temporary store of a transaction\<close>

text \<open>
  Models \<open>src/sui-execution/latest/sui-adapter/src/temporary_store.rs\<close>, the execution results of
  \<open>src/crates/sui-types/src/execution.rs\<close> and the input objects of
  \<open>src/crates/sui-types/src/transaction.rs\<close>.  The backing store is a trait object: it is the
  record \<open>backing_store\<close> of the functions the temporary store calls.  Errors of the backing
  store are opaque.  Arithmetic in this module is not under \<open>with_checked_arithmetic\<close>, so sums
  of rebates wrap.  \<open>debug_assert!\<close> does nothing in the release profile.
\<close>

subsection \<open>Input objects\<close>

datatype input_object_kind =
    MovePackageKind object_id
  | ImmOrOwnedMoveObject object_ref
  | SharedMoveObject object_id sequence_number bool

type_synonym version_digest = "sequence_number \<times> digest"
type_synonym input_objects = "(input_object_kind \<times> sui_object) list"
type_synonym mutable_refs = "(object_id, version_digest \<times> owner) btree_map"
type_synonym object_map = "(object_id, sui_object) btree_map"

fun kind_object_id :: "input_object_kind \<Rightarrow> object_id" where
  "kind_object_id (MovePackageKind i) = i"
| "kind_object_id (ImmOrOwnedMoveObject (i, v, d)) = i"
| "kind_object_id (SharedMoveObject i v mutable) = i"

fun kind_version :: "input_object_kind \<Rightarrow> sequence_number option" where
  "kind_version (MovePackageKind i) = None"
| "kind_version (ImmOrOwnedMoveObject (i, v, d)) = Some v"
| "kind_version (SharedMoveObject i v mutable) = None"

fun is_shared_object :: "input_object_kind \<Rightarrow> bool" where
  "is_shared_object (SharedMoveObject i v mutable) = True"
| "is_shared_object _ = False"

fun owned_ref :: "input_object_kind \<times> sui_object \<Rightarrow> object_ref option" where
  "owned_ref (ImmOrOwnedMoveObject r, ob) = (if is_immutable (o_owner ob) then None else Some r)"
| "owned_ref _ = None"

definition filter_owned_objects :: "input_objects \<Rightarrow> object_ref list" where
  "filter_owned_objects inputs = List.map_filter owned_ref inputs"

definition filter_shared_objects :: "object_env \<Rightarrow> input_objects \<Rightarrow> object_ref list option" where
  "filter_shared_objects env inputs =
     those (map (\<lambda>(kind, ob). compute_object_reference env ob)
       (filter (\<lambda>(kind, ob). is_shared_object kind) inputs))"

definition transaction_dependencies :: "input_objects \<Rightarrow> digest btree_set" where
  "transaction_dependencies inputs = btree_set_of (map (\<lambda>(kind, ob). o_previous_transaction ob) inputs)"

text \<open>The outer option is a panic (an object too short to hold its identifier).\<close>

fun mutable_input :: "object_env \<Rightarrow> input_object_kind \<times> sui_object \<Rightarrow>
    (object_id \<times> version_digest \<times> owner) option option" where
  "mutable_input env (MovePackageKind i, ob) = Some None"
| "mutable_input env (ImmOrOwnedMoveObject (i, v, d), ob) =
     Some (if is_immutable (o_owner ob) then None else Some (i, (v, d), o_owner ob))"
| "mutable_input env (SharedMoveObject i v mutable, ob) =
     (if mutable then
        map_option (\<lambda>(i, v, d). Some (i, (v, d), o_owner ob)) (compute_object_reference env ob)
      else Some None)"

definition mutable_inputs :: "object_env \<Rightarrow> input_objects \<Rightarrow> mutable_refs option" where
  "mutable_inputs env inputs = do {
     refs \<leftarrow> those (map (mutable_input env) inputs);
     Some (btree_collect (List.map_filter id refs))
   }"

definition lamport_timestamp :: "input_objects \<Rightarrow> object_ref list \<Rightarrow> sequence_number option" where
  "lamport_timestamp inputs receiving =
     lamport_increment
       (List.map_filter (\<lambda>(kind, ob). map_option mo_version (try_as_move (o_data ob))) inputs @
        map (\<lambda>(i, v, d). v) receiving)"

definition into_object_map :: "input_objects \<Rightarrow> object_map option" where
  "into_object_map inputs = do {
     kvs \<leftarrow> those (map (\<lambda>(kind, ob). map_option (\<lambda>i. (i, ob)) (object_id_of ob)) inputs);
     Some (btree_collect kvs)
   }"

subsection \<open>Execution results\<close>

record execution_results =
  written_objects :: object_map
  modified_objects :: "object_id btree_set"
  created_object_ids :: "object_id btree_set"
  deleted_object_ids :: "object_id btree_set"
  user_events :: "nat list"

definition results_default :: execution_results where
  "results_default =
     \<lparr>written_objects = [], modified_objects = [], created_object_ids = [],
      deleted_object_ids = [], user_events = []\<rparr>"

definition results_drop_writes :: "execution_results \<Rightarrow> execution_results" where
  "results_drop_writes r =
     r\<lparr>written_objects := [], modified_objects := [], created_object_ids := [],
       deleted_object_ids := [], user_events := []\<rparr>"

definition merge_results :: "execution_results \<Rightarrow> execution_results \<Rightarrow> execution_results" where
  "merge_results r new =
     r\<lparr>written_objects := btree_extend (written_objects new) (written_objects r),
       modified_objects := set_extend (modified_objects new) (modified_objects r),
       created_object_ids := set_extend (created_object_ids new) (created_object_ids r),
       deleted_object_ids := set_extend (deleted_object_ids new) (deleted_object_ids r),
       user_events := user_events r @ user_events new\<rparr>"

definition update_written ::
  "execution_results \<Rightarrow> sequence_number \<Rightarrow> digest \<Rightarrow> object_id \<Rightarrow> sui_object \<Rightarrow> sui_object option" where
  "update_written r lamport_version prev_tx i ob = do {
     data \<leftarrow> (case o_data ob of
         Move m \<Rightarrow> Some (Move (increment_version_to lamport_version m))
       | Package p \<Rightarrow>
           if i \<in> set (modified_objects r) then map_option Package (package_increment_version p)
           else Some (Package p));
     own \<leftarrow> (case o_owner ob of
         Shared initial_shared_version \<Rightarrow>
           if i \<in> set (created_object_ids r) then do {
             rust_assert (initial_shared_version = 0);
             Some (Shared lamport_version)
           } else Some (o_owner ob)
       | _ \<Rightarrow> Some (o_owner ob));
     Some (ob\<lparr>o_data := data, o_owner := own, o_previous_transaction := prev_tx\<rparr>)
   }"

definition update_version_and_previous_tx ::
  "sequence_number \<Rightarrow> digest \<Rightarrow> execution_results \<Rightarrow> execution_results option" where
  "update_version_and_previous_tx lamport_version prev_tx r = do {
     written \<leftarrow> those (map (\<lambda>(i, ob).
         map_option (Pair i) (update_written r lamport_version prev_tx i ob)) (written_objects r));
     Some (r\<lparr>written_objects := written\<rparr>)
   }"

subsection \<open>The store\<close>

record loaded_metadata =
  lm_version :: sequence_number
  lm_digest :: digest
  lm_owner :: owner
  lm_storage_rebate :: u64
  lm_previous_transaction :: digest

type_synonym store_error = nat

record backing_store =
  bs_get_object :: "object_id \<Rightarrow> store_error + sui_object option"
  bs_get_object_by_key :: "object_id \<Rightarrow> sequence_number \<Rightarrow> store_error + sui_object option"
  bs_read_child_object :: "object_id \<Rightarrow> object_id \<Rightarrow> sequence_number \<Rightarrow> store_error + sui_object option"
  bs_get_package_object :: "object_id \<Rightarrow> store_error + sui_object option"

record store_config =
  sc_version :: u64
  sc_move_binary_format_version :: nat
  sc_no_extraneous_module_bytes :: bool

record temporary_store =
  ts_store :: backing_store
  ts_tx_digest :: digest
  ts_input_objects :: object_map
  ts_lamport_timestamp :: sequence_number
  ts_mutable_input_refs :: mutable_refs
  ts_execution_results :: execution_results
  ts_loaded_runtime_objects :: "(object_id, loaded_metadata) btree_map"
  ts_protocol_config :: store_config
  ts_runtime_packages_loaded_from_db :: object_map
  ts_receiving_objects :: "object_ref list"

definition temporary_store_new ::
  "object_env \<Rightarrow> backing_store \<Rightarrow> input_objects \<Rightarrow> object_ref list \<Rightarrow> digest \<Rightarrow> store_config \<Rightarrow>
     temporary_store option" where
  "temporary_store_new env store inputs receiving tx_digest config = do {
     refs \<leftarrow> mutable_inputs env inputs;
     lamport \<leftarrow> lamport_timestamp inputs receiving;
     objects \<leftarrow> into_object_map inputs;
     Some \<lparr>ts_store = store, ts_tx_digest = tx_digest, ts_input_objects = objects,
       ts_lamport_timestamp = lamport, ts_mutable_input_refs = refs,
       ts_execution_results = results_default, ts_loaded_runtime_objects = [],
       ts_protocol_config = config, ts_runtime_packages_loaded_from_db = [],
       ts_receiving_objects = receiving\<rparr>
   }"

abbreviation ts_written :: "temporary_store \<Rightarrow> object_map" where
  "ts_written ts \<equiv> written_objects (ts_execution_results ts)"

abbreviation ts_modified :: "temporary_store \<Rightarrow> object_id btree_set" where
  "ts_modified ts \<equiv> modified_objects (ts_execution_results ts)"

definition update_results ::
  "(execution_results \<Rightarrow> execution_results) \<Rightarrow> temporary_store \<Rightarrow> temporary_store" where
  "update_results f ts = ts\<lparr>ts_execution_results := f (ts_execution_results ts)\<rparr>"

definition write_object :: "object_id \<Rightarrow> sui_object \<Rightarrow> execution_results \<Rightarrow> execution_results" where
  "write_object i ob r = r\<lparr>written_objects := btree_insert i ob (written_objects r)\<rparr>"

definition mark_modified :: "object_id \<Rightarrow> execution_results \<Rightarrow> execution_results" where
  "mark_modified i r = r\<lparr>modified_objects := bitmap_insert i (modified_objects r)\<rparr>"

definition update_object_version_and_prev_tx :: "temporary_store \<Rightarrow> temporary_store option" where
  "update_object_version_and_prev_tx ts = do {
     r \<leftarrow> update_version_and_previous_tx (ts_lamport_timestamp ts) (ts_tx_digest ts)
       (ts_execution_results ts);
     Some (ts\<lparr>ts_execution_results := r\<rparr>)
   }"

record inner_temporary_store =
  its_input_objects :: object_map
  its_mutable_inputs :: mutable_refs
  its_written :: object_map
  its_loaded_runtime_objects :: "(object_id, loaded_metadata) btree_map"
  its_events :: "nat list"
  its_max_binary_format_version :: nat
  its_no_extraneous_module_bytes :: bool
  its_runtime_packages_loaded_from_db :: object_map

definition into_inner :: "temporary_store \<Rightarrow> inner_temporary_store" where
  "into_inner ts =
     \<lparr>its_input_objects = ts_input_objects ts, its_mutable_inputs = ts_mutable_input_refs ts,
      its_written = ts_written ts, its_loaded_runtime_objects = ts_loaded_runtime_objects ts,
      its_events = user_events (ts_execution_results ts),
      its_max_binary_format_version = sc_move_binary_format_version (ts_protocol_config ts),
      its_no_extraneous_module_bytes = sc_no_extraneous_module_bytes (ts_protocol_config ts),
      its_runtime_packages_loaded_from_db = ts_runtime_packages_loaded_from_db ts\<rparr>"

definition mutate_input_object :: "sui_object \<Rightarrow> temporary_store \<Rightarrow> temporary_store option" where
  "mutate_input_object ob ts = do {
     i \<leftarrow> object_id_of ob;
     Some (update_results (write_object i ob \<circ> mark_modified i) ts)
   }"

fun mutate_all :: "sui_object list \<Rightarrow> temporary_store \<Rightarrow> temporary_store option" where
  "mutate_all [] ts = Some ts"
| "mutate_all (ob # obs) ts = Option.bind (mutate_input_object ob ts) (mutate_all obs)"

definition ensure_active_inputs_mutated :: "temporary_store \<Rightarrow> temporary_store option" where
  "ensure_active_inputs_mutated ts = do {
     to_be_updated \<leftarrow> those (map (map_of (ts_input_objects ts))
       (filter (\<lambda>i. i \<notin> set (ts_modified ts)) (map fst (ts_mutable_input_refs ts))));
     mutate_all to_be_updated ts
   }"

definition mutate_child_object ::
  "object_env \<Rightarrow> sui_object \<Rightarrow> sui_object \<Rightarrow> temporary_store \<Rightarrow> temporary_store option" where
  "mutate_child_object env old_object new_object ts = do {
     i \<leftarrow> object_id_of new_object;
     (old_id, old_version, old_digest) \<leftarrow> compute_object_reference env old_object;
     let ts = ts\<lparr>ts_loaded_runtime_objects := btree_insert i
       \<lparr>lm_version = old_version, lm_digest = old_digest, lm_owner = o_owner old_object,
        lm_storage_rebate = o_storage_rebate old_object,
        lm_previous_transaction = o_previous_transaction old_object\<rparr>
       (ts_loaded_runtime_objects ts)\<rparr>;
     Some (update_results (write_object i new_object \<circ> mark_modified i) ts)
   }"

definition upgrade_system_package :: "sui_object \<Rightarrow> temporary_store \<Rightarrow> temporary_store option" where
  "upgrade_system_package package ts = do {
     i \<leftarrow> object_id_of package;
     rust_assert (is_package package \<and> is_system_package i);
     Some (update_results (write_object i package \<circ> mark_modified i) ts)
   }"

definition create_object :: "sui_object \<Rightarrow> temporary_store \<Rightarrow> temporary_store option" where
  "create_object ob ts = do {
     i \<leftarrow> object_id_of ob;
     Some (update_results (\<lambda>r. write_object i ob
       (r\<lparr>created_object_ids := bitmap_insert i (created_object_ids r)\<rparr>)) ts)
   }"

definition delete_input_object :: "object_id \<Rightarrow> temporary_store \<Rightarrow> temporary_store" where
  "delete_input_object i ts =
     update_results (\<lambda>r. (mark_modified i r)
       \<lparr>deleted_object_ids := bitmap_insert i (deleted_object_ids r)\<rparr>) ts"

definition drop_writes :: "temporary_store \<Rightarrow> temporary_store" where
  "drop_writes ts = update_results results_drop_writes ts"

definition read_object :: "temporary_store \<Rightarrow> object_id \<Rightarrow> sui_object option" where
  "read_object ts i =
     (case map_of (ts_written ts) i of Some ob \<Rightarrow> Some ob | None \<Rightarrow> map_of (ts_input_objects ts) i)"

definition save_loaded_runtime_objects ::
  "(object_id, loaded_metadata) btree_map \<Rightarrow> temporary_store \<Rightarrow> temporary_store" where
  "save_loaded_runtime_objects loaded ts =
     ts\<lparr>ts_loaded_runtime_objects := btree_extend loaded (ts_loaded_runtime_objects ts)\<rparr>"

definition record_execution_results :: "execution_results \<Rightarrow> temporary_store \<Rightarrow> temporary_store" where
  "record_execution_results new ts = update_results (\<lambda>r. merge_results r new) ts"

subsection \<open>Sizes\<close>

definition estimate_effects_size :: "nat \<Rightarrow> nat \<Rightarrow> nat \<Rightarrow> nat \<Rightarrow> nat" where
  "estimate_effects_size num_writes num_mutables num_deletes num_deps =
     (let fixed_sizes = 120 + 10 + 40 + 40;
          approx_change_entry_size =
            1000 + (48 + 80) * num_writes + 80 * num_mutables + 80 * num_deletes;
          deps_size = 1000 + 40 * num_deps
      in fixed_sizes + approx_change_entry_size + deps_size)"

definition estimate_effects_size_upperbound :: "temporary_store \<Rightarrow> nat" where
  "estimate_effects_size_upperbound ts =
     (let r = ts_execution_results ts;
          num_deletes = length (deleted_object_ids r) +
            length (filter (\<lambda>i. i \<notin> fst ` set (written_objects r) \<and> i \<notin> set (deleted_object_ids r))
              (modified_objects r))
      in estimate_effects_size (length (written_objects r)) (length (ts_mutable_input_refs ts))
           num_deletes (length (ts_input_objects ts)))"

definition written_objects_size :: "object_env \<Rightarrow> temporary_store \<Rightarrow> nat" where
  "written_objects_size env ts =
     foldl (\<lambda>sum (i, ob). sum + object_size_for_gas_metering env ob) 0 (ts_written ts)"

definition conserve_unmetered_storage_rebate ::
  "u64 \<Rightarrow> temporary_store \<Rightarrow> temporary_store option" where
  "conserve_unmetered_storage_rebate unmetered ts =
     (if unmetered = 0 then Some ts
      else do {
        wrapper \<leftarrow> read_object ts SUI_SYSTEM_STATE_OBJECT_ID;
        rust_assert (o_storage_rebate wrapper = 0);
        mutate_input_object (wrapper\<lparr>o_storage_rebate := unmetered\<rparr>) ts
      })"

subsection \<open>What an object was before the transaction\<close>

definition metadata_of :: "object_env \<Rightarrow> sui_object \<Rightarrow> loaded_metadata" where
  "metadata_of env ob =
     \<lparr>lm_version = object_version ob, lm_digest = object_digest env ob, lm_owner = o_owner ob,
      lm_storage_rebate = o_storage_rebate ob, lm_previous_transaction = o_previous_transaction ob\<rparr>"

definition metadata_before :: "object_env \<Rightarrow> temporary_store \<Rightarrow> object_id \<Rightarrow> loaded_metadata option" where
  "metadata_before env ts i =
     (case map_of (ts_mutable_input_refs ts) i of
        Some ((version, digest), own) \<Rightarrow> do {
          ob \<leftarrow> map_of (ts_input_objects ts) i;
          Some \<lparr>lm_version = version, lm_digest = digest, lm_owner = own,
            lm_storage_rebate = o_storage_rebate ob,
            lm_previous_transaction = o_previous_transaction ob\<rparr>
        }
      | None \<Rightarrow>
          (case map_of (ts_loaded_runtime_objects ts) i of
             Some meta \<Rightarrow> Some meta
           | None \<Rightarrow>
               (case bs_get_object (ts_store ts) i of
                  Inr (Some ob) \<Rightarrow> Some (metadata_of env ob)
                | Inr None \<Rightarrow> panic
                | Inl e \<Rightarrow> panic)))"

text \<open>The outer option is a panic, the inner one says whether the object is modified.\<close>

definition get_object_modified_at ::
  "object_env \<Rightarrow> temporary_store \<Rightarrow> object_id \<Rightarrow> loaded_metadata option option" where
  "get_object_modified_at env ts i =
     (if i \<in> set (ts_modified ts) then map_option Some (metadata_before env ts i) else Some None)"

datatype id_operation = IdNone | IdCreated | IdDeleted
datatype object_in = InNotExist | InExist version_digest owner
datatype object_out = OutNotExist | ObjectWrite digest owner | PackageWrite version_digest

record effects_object_change =
  oc_input_state :: object_in
  oc_output_state :: object_out
  oc_id_operation :: id_operation

definition effects_object_change_new ::
  "object_env \<Rightarrow> (version_digest \<times> owner) option \<Rightarrow> sui_object option \<Rightarrow> bool \<Rightarrow> bool \<Rightarrow>
     effects_object_change" where
  "effects_object_change_new env modified_at written id_created id_deleted =
     \<lparr>oc_input_state = (case modified_at of None \<Rightarrow> InNotExist | Some (vd, own) \<Rightarrow> InExist vd own),
      oc_output_state = (case written of
          None \<Rightarrow> OutNotExist
        | Some ob \<Rightarrow>
            if is_package ob then PackageWrite (object_version ob, object_digest env ob)
            else ObjectWrite (object_digest env ob) (o_owner ob)),
      oc_id_operation =
        (if id_created then IdCreated else if id_deleted then IdDeleted else IdNone)\<rparr>"

definition get_object_changes ::
  "object_env \<Rightarrow> temporary_store \<Rightarrow> (object_id, effects_object_change) btree_map option" where
  "get_object_changes env ts =
     (let r = ts_execution_results ts;
          all_ids = btree_set_of (created_object_ids r @ deleted_object_ids r @ modified_objects r @
            map fst (written_objects r))
      in those (map (\<lambda>i. do {
           meta \<leftarrow> get_object_modified_at env ts i;
           Some (i, effects_object_change_new env
             (map_option (\<lambda>m. ((lm_version m, lm_digest m), lm_owner m)) meta)
             (map_of (written_objects r) i)
             (i \<in> set (created_object_ids r)) (i \<in> set (deleted_object_ids r)))
         }) all_ids))"

definition check_execution_results_consistency ::
  "temporary_store \<Rightarrow> execution_error_kind + unit" where
  "check_execution_results_consistency ts =
     (let r = ts_execution_results ts in
      if \<not> list_all (\<lambda>i. i \<notin> set (deleted_object_ids r) \<and> i \<notin> set (modified_objects r))
          (created_object_ids r)
      then Inl (InvariantViolation ''Created object IDs cannot also be deleted or modified'')
      else if \<not> list_all (\<lambda>i. i \<in> fst ` set (ts_mutable_input_refs ts) \<or>
            i \<in> fst ` set (ts_loaded_runtime_objects ts) \<or> is_system_package i) (modified_objects r)
      then Inl (InvariantViolation ''A modified object must be either a mutable input, a loaded child object, or a system package'')
      else Inr ())"

subsection \<open>Conservation checks\<close>

type_synonym modified_object_info = "object_id \<times> loaded_metadata option \<times> sui_object option"

definition get_modified_objects ::
  "object_env \<Rightarrow> temporary_store \<Rightarrow> modified_object_info list option" where
  "get_modified_objects env ts = do {
     modified \<leftarrow> those (map (\<lambda>i. map_option (\<lambda>meta. (i, meta, map_of (ts_written ts) i))
       (get_object_modified_at env ts i)) (ts_modified ts));
     Some (modified @
       List.map_filter (\<lambda>(i, ob). if i \<in> set (ts_modified ts) then None else Some (i, None, Some ob))
         (ts_written ts))
   }"

definition input_rebate :: "modified_object_info \<Rightarrow> u64" where
  "input_rebate e = (case fst (snd e) of Some meta \<Rightarrow> lm_storage_rebate meta | None \<Rightarrow> 0)"

definition output_rebate :: "modified_object_info \<Rightarrow> u64" where
  "output_rebate e = (case snd (snd e) of Some ob \<Rightarrow> o_storage_rebate ob | None \<Rightarrow> 0)"

definition check_sui_conserved ::
  "object_env \<Rightarrow> temporary_store \<Rightarrow> bool \<Rightarrow> gas_cost_summary \<Rightarrow> (execution_error_kind + unit) option" where
  "check_sui_conserved env ts simple_conservation_checks summ =
     (if \<not> simple_conservation_checks then Some (Inr ())
      else do {
        modified \<leftarrow> get_modified_objects env ts;
        let (total_input_rebate, total_output_rebate) =
          foldl (\<lambda>(inp, out) e. (inp + input_rebate e, out + output_rebate e)) (0, 0) modified;
        Some (if gs_storage_cost summ = 0 then
            (if total_input_rebate \<noteq>
                total_output_rebate + gs_storage_rebate summ + gs_non_refundable_storage_fee summ
             then Inl (InvariantViolation ''SUI conservation failed -- no storage charges in gas summary'')
             else Inr ())
          else if total_input_rebate \<noteq> gs_storage_rebate summ + gs_non_refundable_storage_fee summ
            then Inl (InvariantViolation ''SUI conservation failed -- SUI in storage rebate field of input objects'')
          else if gs_storage_cost summ \<noteq> total_output_rebate
            then Inl (InvariantViolation ''SUI conservation failed -- SUI charged for storage'')
          else Inr ())
      })"

type_synonym decoder = "move_object \<Rightarrow> balance_error + move_struct"

definition as_invariant_violation ::
  "string \<Rightarrow> balance_error + 'a \<Rightarrow> execution_error_kind + 'a" where
  "as_invariant_violation msg r = map_sum (\<lambda>e. InvariantViolation msg) id r"

definition get_input_sui ::
  "decoder \<Rightarrow> temporary_store \<Rightarrow> object_id \<Rightarrow> sequence_number \<Rightarrow> (execution_error_kind + u64) option" where
  "get_input_sui decode ts i expected_version =
     (case map_of (ts_input_objects ts) i of
        Some ob \<Rightarrow>
          (if object_version ob \<noteq> expected_version
           then Some (Inl (InvariantViolation ''Version mismatching when resolving input object to check conservation''))
           else map_option (as_invariant_violation ''Failed looking up input SUI'') (get_total_sui decode ob))
      | None \<Rightarrow>
          (case bs_get_object_by_key (ts_store ts) i expected_version of
             Inr (Some ob) \<Rightarrow>
               map_option (as_invariant_violation ''Failed looking up input SUI'') (get_total_sui decode ob)
           | _ \<Rightarrow> Some (Inl (InvariantViolation ''Failed looking up dynamic field in SUI conservation checking''))))"

fun sum_sui ::
  "decoder \<Rightarrow> temporary_store \<Rightarrow> modified_object_info list \<Rightarrow> u64 \<Rightarrow> u64 \<Rightarrow>
     (execution_error_kind + u64 \<times> u64) option" where
  "sum_sui decode ts [] inp out = Some (Inr (inp, out))"
| "sum_sui decode ts ((i, input, output) # es) inp out = do {
     r_in \<leftarrow> (case input of
         Some meta \<Rightarrow> get_input_sui decode ts i (lm_version meta)
       | None \<Rightarrow> Some (Inr 0));
     (case r_in of
        Inl e \<Rightarrow> Some (Inl e)
      | Inr n_in \<Rightarrow> do {
          r_out \<leftarrow> (case output of
              Some ob \<Rightarrow> map_option (as_invariant_violation ''Failed looking up output SUI'')
                (get_total_sui decode ob)
            | None \<Rightarrow> Some (Inr 0));
          (case r_out of
             Inl e \<Rightarrow> Some (Inl e)
           | Inr n_out \<Rightarrow> sum_sui decode ts es (inp + n_in) (out + n_out))
        })
   }"

definition check_sui_conserved_expensive ::
  "object_env \<Rightarrow> decoder \<Rightarrow> temporary_store \<Rightarrow> gas_cost_summary \<Rightarrow> (u64 \<times> u64) option \<Rightarrow>
     (execution_error_kind + unit) option" where
  "check_sui_conserved_expensive env decode ts summ advance_epoch_gas_summary = do {
     modified \<leftarrow> get_modified_objects env ts;
     r \<leftarrow> sum_sui decode ts modified 0 0;
     Some (case r of
         Inl e \<Rightarrow> Inl e
       | Inr (total_input_sui, total_output_sui) \<Rightarrow>
           (let total_output_sui =
                  total_output_sui + (gs_computation_cost summ + gs_non_refundable_storage_fee summ);
                (total_input_sui, total_output_sui) =
                  (case advance_epoch_gas_summary of
                     Some (epoch_fees, epoch_rebates) \<Rightarrow>
                       (total_input_sui + epoch_fees, total_output_sui + epoch_rebates)
                   | None \<Rightarrow> (total_input_sui, total_output_sui))
            in if total_input_sui \<noteq> total_output_sui
               then Inl (InvariantViolation ''SUI conservation failed: this transaction either mints or burns SUI'')
               else Inr ()))
   }"

subsection \<open>Reads through the store\<close>

definition read_child_object ::
  "temporary_store \<Rightarrow> object_id \<Rightarrow> object_id \<Rightarrow> sequence_number \<Rightarrow> store_error + sui_object option" where
  "read_child_object ts parent child child_version_upper_bound =
     (case map_of (ts_written ts) child of
        Some ob \<Rightarrow> Inr (Some ob)
      | None \<Rightarrow> bs_read_child_object (ts_store ts) parent child child_version_upper_bound)"

definition get_package_object ::
  "object_id \<Rightarrow> temporary_store \<Rightarrow> (store_error + sui_object option) \<times> temporary_store" where
  "get_package_object package_id ts =
     (case map_of (ts_written ts) package_id of
        Some ob \<Rightarrow> (Inr (Some ob), ts)
      | None \<Rightarrow>
          (case bs_get_package_object (ts_store ts) package_id of
             Inl e \<Rightarrow> (Inl e, ts)
           | Inr None \<Rightarrow> (Inr None, ts)
           | Inr (Some v) \<Rightarrow>
               (Inr (Some v), ts\<lparr>ts_runtime_packages_loaded_from_db :=
                  btree_insert package_id v (ts_runtime_packages_loaded_from_db ts)\<rparr>)))"

subsection \<open>The invariant of the store\<close>

text \<open>Every map and set is sorted without repetitions, and objects are filed under their own identifier.\<close>

definition filed :: "object_map \<Rightarrow> bool" where
  "filed m \<longleftrightarrow> btree_inv m \<and> (\<forall>i ob. map_of m i = Some ob \<longrightarrow> object_id_of ob = Some i)"

definition results_inv :: "execution_results \<Rightarrow> bool" where
  "results_inv r \<longleftrightarrow> filed (written_objects r) \<and> bitmap_inv (modified_objects r) \<and>
     bitmap_inv (created_object_ids r) \<and> bitmap_inv (deleted_object_ids r)"

definition store_inv :: "temporary_store \<Rightarrow> bool" where
  "store_inv ts \<longleftrightarrow> results_inv (ts_execution_results ts) \<and> filed (ts_input_objects ts) \<and>
     btree_inv (ts_mutable_input_refs ts) \<and>
     dom (map_of (ts_mutable_input_refs ts)) \<subseteq> dom (map_of (ts_input_objects ts))"

lemma filed_Nil [simp]: "filed []"
  by (simp add: filed_def)

lemma filed_insert [intro]: "filed m \<Longrightarrow> object_id_of ob = Some i \<Longrightarrow> filed (btree_insert i ob m)"
  by (auto simp: filed_def split: if_splits)

lemma filed_collect:
  assumes "\<And>i ob. (i, ob) \<in> set kvs \<Longrightarrow> object_id_of ob = Some i"
  shows "filed (btree_collect kvs)"
  unfolding filed_def btree_collect_lookup using assms by (auto dest!: map_of_SomeD)

lemma filed_extend:
  assumes "filed m" and "filed n"
  shows "filed (btree_extend n m)"
  unfolding filed_def map_of_btree_extend [OF assms(1) [unfolded filed_def, THEN conjunct1]]
  using assms map_of_rev_distinct [of n] btree_inv_distinct [of n]
  by (auto simp: filed_def map_add_def split: option.splits)

lemma results_inv_default [simp]: "results_inv results_default"
  by (simp add: results_inv_def results_default_def)

lemma results_inv_drop [simp]: "results_inv (results_drop_writes r)"
  by (simp add: results_inv_def results_drop_writes_def)

lemma results_inv_merge: "results_inv r \<Longrightarrow> results_inv new \<Longrightarrow> results_inv (merge_results r new)"
  by (simp add: results_inv_def merge_results_def filed_extend)

lemma results_inv_mark [simp]: "results_inv r \<Longrightarrow> results_inv (mark_modified i r)"
  by (simp add: results_inv_def mark_modified_def)

lemma results_inv_write: "results_inv r \<Longrightarrow> object_id_of ob = Some i \<Longrightarrow> results_inv (write_object i ob r)"
  by (auto simp: results_inv_def write_object_def)

text \<open>The parts of the store that no operation on the results touches.\<close>

definition same_inputs :: "temporary_store \<Rightarrow> temporary_store \<Rightarrow> bool" where
  "same_inputs ts ts' \<longleftrightarrow> ts_input_objects ts' = ts_input_objects ts \<and>
     ts_mutable_input_refs ts' = ts_mutable_input_refs ts \<and>
     ts_lamport_timestamp ts' = ts_lamport_timestamp ts \<and>
     ts_tx_digest ts' = ts_tx_digest ts \<and> ts_store ts' = ts_store ts \<and>
     ts_receiving_objects ts' = ts_receiving_objects ts"

lemma same_inputs_refl [simp]: "same_inputs ts ts"
  by (simp add: same_inputs_def)

lemma same_inputs_trans: "same_inputs ts ts' \<Longrightarrow> same_inputs ts' ts'' \<Longrightarrow> same_inputs ts ts''"
  by (simp add: same_inputs_def)

lemma same_inputs_update [simp]: "same_inputs ts (update_results f ts)"
  by (simp add: same_inputs_def update_results_def)

lemma store_inv_update:
  "store_inv ts \<Longrightarrow> (results_inv (ts_execution_results ts) \<Longrightarrow> results_inv (f (ts_execution_results ts))) \<Longrightarrow>
     store_inv (update_results f ts)"
  by (simp add: store_inv_def update_results_def)

subsection \<open>Runs of the store\<close>

text \<open>
  One step of a transaction's execution on its store: the operations that execution uses,
  with the results of a programmable transaction recorded as a whole.
\<close>

inductive store_step :: "object_env \<Rightarrow> temporary_store \<Rightarrow> temporary_store \<Rightarrow> bool"
  for env :: object_env where
  step_mutate: "mutate_input_object ob ts = Some ts' \<Longrightarrow> store_step env ts ts'"
| step_child: "mutate_child_object env old new ts = Some ts' \<Longrightarrow> store_step env ts ts'"
| step_upgrade: "upgrade_system_package p ts = Some ts' \<Longrightarrow> store_step env ts ts'"
| step_create: "create_object ob ts = Some ts' \<Longrightarrow> store_step env ts ts'"
| step_delete: "store_step env ts (delete_input_object i ts)"
| step_drop: "store_step env ts (drop_writes ts)"
| step_loaded: "store_step env ts (save_loaded_runtime_objects loaded ts)"
| step_record: "results_inv new \<Longrightarrow> store_step env ts (record_execution_results new ts)"
| step_ensure: "ensure_active_inputs_mutated ts = Some ts' \<Longrightarrow> store_step env ts ts'"
| step_package: "get_package_object i ts = (r, ts') \<Longrightarrow> store_step env ts ts'"

inductive store_run :: "object_env \<Rightarrow> temporary_store \<Rightarrow> temporary_store \<Rightarrow> bool"
  for env :: object_env where
  run_refl: "store_run env ts ts"
| run_step: "store_run env ts ts' \<Longrightarrow> store_step env ts' ts'' \<Longrightarrow> store_run env ts ts''"

lemma mutate_input_object_Some:
  assumes "mutate_input_object ob ts = Some ts'"
  obtains i where "object_id_of ob = Some i"
    and "ts' = update_results (write_object i ob \<circ> mark_modified i) ts"
  using assms by (auto simp: mutate_input_object_def bind_eq_Some_conv)

lemma mutate_input_object_inv:
  assumes "mutate_input_object ob ts = Some ts'"
  shows "same_inputs ts ts'" and "store_inv ts \<Longrightarrow> store_inv ts'"
    and "ts_loaded_runtime_objects ts' = ts_loaded_runtime_objects ts"
  using assms
  by (auto elim!: mutate_input_object_Some intro!: store_inv_update results_inv_write)
    (simp add: update_results_def)

lemma mutate_all_inv:
  "mutate_all obs ts = Some ts' \<Longrightarrow> same_inputs ts ts' \<and> (store_inv ts \<longrightarrow> store_inv ts') \<and>
     ts_loaded_runtime_objects ts' = ts_loaded_runtime_objects ts"
proof (induction obs arbitrary: ts)
  case (Cons ob obs)
  then obtain ts1 where "mutate_input_object ob ts = Some ts1" "mutate_all obs ts1 = Some ts'"
    by (auto simp: bind_eq_Some_conv)
  with Cons.IH mutate_input_object_inv [of ob ts ts1] show ?case
    by (auto intro: same_inputs_trans)
qed simp

lemma ensure_active_inputs_mutated_inv:
  "ensure_active_inputs_mutated ts = Some ts' \<Longrightarrow> same_inputs ts ts' \<and> (store_inv ts \<longrightarrow> store_inv ts') \<and>
     ts_loaded_runtime_objects ts' = ts_loaded_runtime_objects ts"
  by (auto simp: ensure_active_inputs_mutated_def bind_eq_Some_conv dest: mutate_all_inv)

lemma delete_input_object_inv:
  "same_inputs ts (delete_input_object i ts)" "store_inv ts \<Longrightarrow> store_inv (delete_input_object i ts)"
  by (auto simp: delete_input_object_def intro!: store_inv_update)
    (auto simp: results_inv_def mark_modified_def)

lemma drop_writes_inv: "same_inputs ts (drop_writes ts)" "store_inv ts \<Longrightarrow> store_inv (drop_writes ts)"
  by (auto simp: drop_writes_def intro!: store_inv_update)

lemma store_step_inv:
  assumes "store_step env ts ts'"
  shows "same_inputs ts ts' \<and> (store_inv ts \<longrightarrow> store_inv ts')"
  using assms
proof cases
  case (step_create ob)
  then show ?thesis
    by (auto simp: create_object_def bind_eq_Some_conv intro!: store_inv_update results_inv_write)
      (auto simp: results_inv_def)
next
  case (step_child old new)
  then obtain i loaded where "object_id_of new = Some i"
    "ts' = update_results (write_object i new \<circ> mark_modified i) (ts\<lparr>ts_loaded_runtime_objects := loaded\<rparr>)"
    by (auto simp: mutate_child_object_def bind_eq_Some_conv Let_def)
  then show ?thesis
    by (simp add: same_inputs_def update_results_def store_inv_def results_inv_write)
next
  case (step_package i r)
  then have "same_inputs ts ts'" "ts_execution_results ts' = ts_execution_results ts"
    by (auto simp: get_package_object_def same_inputs_def split: option.splits sum.splits)
  then show ?thesis
    by (simp add: same_inputs_def store_inv_def)
next
  case (step_upgrade p)
  then obtain i where "object_id_of p = Some i"
    "ts' = update_results (write_object i p \<circ> mark_modified i) ts"
    by (auto simp: upgrade_system_package_def bind_eq_Some_conv)
  then show ?thesis by (auto intro!: store_inv_update results_inv_write)
next
  case (step_record new)
  then show ?thesis
    by (auto simp: record_execution_results_def intro!: store_inv_update results_inv_merge)
next
  case (step_loaded loaded)
  then show ?thesis
    by (simp add: save_loaded_runtime_objects_def same_inputs_def store_inv_def)
qed (auto simp: mutate_input_object_inv ensure_active_inputs_mutated_inv delete_input_object_inv
    drop_writes_inv)

lemma store_run_inv: "store_run env ts ts' \<Longrightarrow> same_inputs ts ts' \<and> (store_inv ts \<longrightarrow> store_inv ts')"
  by (induction rule: store_run.induct) (auto dest: store_step_inv intro: same_inputs_trans)

text \<open>
  What loading the inputs of a transaction guarantees: an owned or immutable input is the
  object its reference names, at that version.
\<close>

definition inputs_loaded :: "input_objects \<Rightarrow> bool" where
  "inputs_loaded inputs \<longleftrightarrow> (\<forall>(kind, ob) \<in> set inputs. \<forall>i v d. kind = ImmOrOwnedMoveObject (i, v, d) \<longrightarrow>
     object_id_of ob = Some i \<and> object_version ob = v)"

lemma mutable_input_id:
  assumes "mutable_input env (kind, ob) = Some (Some (i, vd, own))" and "(kind, ob) \<in> set inputs"
    and "inputs_loaded inputs"
  shows "object_id_of ob = Some i \<and> fst vd = object_version ob \<and> own = o_owner ob"
proof (cases kind)
  case (ImmOrOwnedMoveObject r)
  then show ?thesis using assms
    by (cases r) (auto simp: inputs_loaded_def split: if_splits)
next
  case (SharedMoveObject i' v mutable)
  then show ?thesis using assms by (auto simp: compute_object_reference_def split: if_splits)
qed (use assms in auto)

lemma mutable_inputs_Some:
  assumes "mutable_inputs env inputs = Some refs"
  shows "btree_inv refs"
    and "inputs_loaded inputs \<Longrightarrow> map_of refs i = Some (vd, own) \<Longrightarrow>
      \<exists>kind ob. (kind, ob) \<in> set inputs \<and> object_id_of ob = Some i \<and> fst vd = object_version ob"
proof -
  from assms obtain rs where rs: "map (mutable_input env) inputs = map Some rs"
    and refs: "refs = btree_collect (List.map_filter id rs)"
    by (auto simp: mutable_inputs_def bind_eq_Some_conv those_eq_Some)
  show "btree_inv refs" by (simp add: refs)
  assume loaded: "inputs_loaded inputs" and "map_of refs i = Some (vd, own)"
  then have "(i, vd, own) \<in> set (List.map_filter id rs)"
    using map_of_SomeD [of "rev (List.map_filter id rs)" i "(vd, own)"]
    by (simp add: refs btree_collect_lookup)
  then have "Some (i, vd, own) \<in> set rs" by (auto simp: List.map_filter_def)
  then have "Some (Some (i, vd, own)) \<in> set (map (mutable_input env) inputs)"
    unfolding rs by simp
  then obtain kind ob where "(kind, ob) \<in> set inputs" "mutable_input env (kind, ob) = Some (Some (i, vd, own))"
    by force
  with mutable_input_id loaded
  show "\<exists>kind ob. (kind, ob) \<in> set inputs \<and> object_id_of ob = Some i \<and> fst vd = object_version ob"
    by blast
qed

lemma into_object_map_Some:
  assumes "into_object_map inputs = Some objects"
  shows "filed objects"
    and "(kind, ob) \<in> set inputs \<Longrightarrow> \<exists>i. object_id_of ob = Some i \<and> i \<in> dom (map_of objects)"
    and "map_of objects i = Some ob \<Longrightarrow> \<exists>kind. (kind, ob) \<in> set inputs"
proof -
  from assms obtain kvs where
    kvs: "map (\<lambda>(kind, ob). map_option (\<lambda>i. (i, ob)) (object_id_of ob)) inputs = map Some kvs"
    and objects: "objects = btree_collect kvs"
    by (auto simp: into_object_map_def bind_eq_Some_conv those_eq_Some)
  have kv: "(i, ob) \<in> set kvs \<longleftrightarrow> (\<exists>kind. (kind, ob) \<in> set inputs \<and> object_id_of ob = Some i)" for i ob
  proof -
    have "(i, ob) \<in> set kvs \<longleftrightarrow> Some (i, ob) \<in> set (map Some kvs)" by auto
    also have "\<dots> \<longleftrightarrow> (\<exists>kind. (kind, ob) \<in> set inputs \<and> object_id_of ob = Some i)"
      unfolding kvs [symmetric] set_map image_iff eq_commute [of "Some (i, ob)"]
      by (simp add: Bex_def split_paired_Ex)
    finally show ?thesis .
  qed
  show "filed objects" unfolding objects by (rule filed_collect) (auto simp: kv)
  show "\<exists>kind. (kind, ob) \<in> set inputs" if "map_of objects i = Some ob"
    using that kv [of i ob] map_of_SomeD [of "rev kvs" i ob]
    by (auto simp: objects btree_collect_lookup)
  assume "(kind, ob) \<in> set inputs"
  then have "map_option (\<lambda>i. (i, ob)) (object_id_of ob) \<in> set (map Some kvs)"
    unfolding kvs [symmetric] by force
  then obtain i where i: "object_id_of ob = Some i" "(i, ob) \<in> set kvs" by auto
  then have "i \<in> dom (map_of objects)"
    using weak_map_of_SomeI [of i ob "rev kvs"] by (auto simp: objects btree_collect_lookup)
  with i show "\<exists>i. object_id_of ob = Some i \<and> i \<in> dom (map_of objects)" by blast
qed

lemma temporary_store_new_inv:
  assumes "temporary_store_new env store inputs receiving tx_digest config = Some ts"
    and "inputs_loaded inputs"
  shows "store_inv ts"
proof -
  from assms(1) obtain refs lamport objects where new: "mutable_inputs env inputs = Some refs"
    "lamport_timestamp inputs receiving = Some lamport" "into_object_map inputs = Some objects"
    "ts = \<lparr>ts_store = store, ts_tx_digest = tx_digest, ts_input_objects = objects,
       ts_lamport_timestamp = lamport, ts_mutable_input_refs = refs,
       ts_execution_results = results_default, ts_loaded_runtime_objects = [],
       ts_protocol_config = config, ts_runtime_packages_loaded_from_db = [],
       ts_receiving_objects = receiving\<rparr>"
    by (auto simp: temporary_store_new_def bind_eq_Some_conv)
  have "dom (map_of refs) \<subseteq> dom (map_of objects)"
  proof
    fix i assume "i \<in> dom (map_of refs)"
    then obtain vd own where "map_of refs i = Some (vd, own)" by (auto simp: dom_def)
    with mutable_inputs_Some(2) [OF new(1) assms(2)] obtain kind ob where
      "(kind, ob) \<in> set inputs" "object_id_of ob = Some i" by blast
    with into_object_map_Some(2) [OF new(3)] show "i \<in> dom (map_of objects)" by fastforce
  qed
  then show ?thesis
    using mutable_inputs_Some(1) [OF new(1)] into_object_map_Some(1) [OF new(3)]
    by (simp add: store_inv_def new(4))
qed

subsection \<open>Versions\<close>

lemma fold_max_upper: "x \<in> set xs \<or> x \<le> m \<Longrightarrow> x \<le> fold (\<lambda>x m. max m x) xs m"
  for x :: "'a::linorder"
proof (induction xs arbitrary: m)
  case (Cons y xs)
  then have "x \<in> set xs \<or> x \<le> max m y" by (auto simp: le_max_iff_disj)
  then show ?case using Cons.IH [of "max m y"] by simp
qed simp

lemma lamport_increment_greater:
  assumes "lamport_increment versions = Some n" and "v \<in> set versions"
  shows "v < n"
proof -
  let ?m = "fold (\<lambda>x m. max m x) versions 0"
  from assms(1) have n: "n = ?m + 1" "?m \<noteq> - 1"
    by (auto simp: lamport_increment_def bind_eq_Some_conv Let_def)
  have "v \<le> ?m" using assms(2) by (intro fold_max_upper) simp
  moreover have "1 + ?m \<noteq> 0" using n(2) by (metis add.commute add_eq_0_iff)
  then have "?m < ?m + 1" using unatSuc [of ?m] by (simp add: word_less_nat_alt add.commute)
  ultimately show ?thesis unfolding n(1) by (rule le_less_trans)
qed

text \<open>
  C19.  However a transaction used its store, when it ends without a panic every Move object it
  wrote has the store's Lamport timestamp as its version, which is larger than the version of
  every Move object among the inputs and of every object it may receive, and records the
  transaction as its previous one.
\<close>

theorem written_versions_exceed_inputs:
  assumes "temporary_store_new env store inputs receiving tx_digest config = Some ts0"
    and "store_run env ts0 ts" and "update_object_version_and_prev_tx ts = Some ts'"
    and "(i, ob) \<in> set (ts_written ts')"
  shows "o_previous_transaction ob = tx_digest \<and>
    (\<forall>m. o_data ob = Move m \<longrightarrow>
       mo_version m = ts_lamport_timestamp ts' \<and>
       (\<forall>(kind, input) \<in> set inputs. \<forall>m'. o_data input = Move m' \<longrightarrow> mo_version m' < mo_version m) \<and>
       (\<forall>(j, v, d) \<in> set receiving. v < mo_version m))"
proof -
  from assms(1) have lamport: "lamport_timestamp inputs receiving = Some (ts_lamport_timestamp ts0)"
    and digest: "ts_tx_digest ts0 = tx_digest"
    by (auto simp: temporary_store_new_def bind_eq_Some_conv)
  have same: "ts_lamport_timestamp ts = ts_lamport_timestamp ts0" "ts_tx_digest ts = tx_digest"
    using store_run_inv [OF assms(2)] digest by (auto simp: same_inputs_def)
  from assms(3) obtain written where
    upd: "map (\<lambda>(i, ob). map_option (Pair i) (update_written (ts_execution_results ts)
      (ts_lamport_timestamp ts) (ts_tx_digest ts) i ob)) (ts_written ts) = map Some written"
    and ts': "ts' = ts\<lparr>ts_execution_results := (ts_execution_results ts)\<lparr>written_objects := written\<rparr>\<rparr>"
    by (auto simp: update_object_version_and_prev_tx_def update_version_and_previous_tx_def
        bind_eq_Some_conv those_eq_Some)
  from assms(4) have "Some (i, ob) \<in> set (map Some written)" by (simp add: ts')
  then obtain old where
    ob: "update_written (ts_execution_results ts) (ts_lamport_timestamp ts0) tx_digest i old = Some ob"
    unfolding upd [symmetric] set_map image_iff eq_commute [of "Some (i, ob)"] by (auto simp: same)
  then have "o_previous_transaction ob = tx_digest"
    and version: "o_data ob = Move m \<Longrightarrow> mo_version m = ts_lamport_timestamp ts0" for m
    by (auto simp: update_written_def bind_eq_Some_conv increment_version_to_def
        split: obj_data.splits if_splits)
  moreover have "mo_version m' < ts_lamport_timestamp ts0"
    if "(kind, input) \<in> set inputs" "o_data input = Move m'" for kind input m'
    using lamport_increment_greater [OF lamport [unfolded lamport_timestamp_def], of "mo_version m'"] that
    by (force simp: List.map_filter_def)
  moreover have "v < ts_lamport_timestamp ts0" if "(j, v, d) \<in> set receiving" for j v d
    using lamport_increment_greater [OF lamport [unfolded lamport_timestamp_def], of v] that by force
  ultimately show ?thesis using same(1) by (auto simp: ts')
qed

definition empty_backing :: backing_store where
  "empty_backing = \<lparr>bs_get_object = (\<lambda>i. Inr None), bs_get_object_by_key = (\<lambda>i v. Inr None),
     bs_read_child_object = (\<lambda>p c v. Inr None), bs_get_package_object = (\<lambda>i. Inr None)\<rparr>"

definition sample_env :: object_env where
  "sample_env = \<lparr>serialized_type_tag_size = (\<lambda>t. 1), object_meta_size = 100, object_digest = (\<lambda>ob. 9)\<rparr>"

definition sample_store_config :: store_config where
  "sample_store_config = \<lparr>sc_version = 30, sc_move_binary_format_version = 6,
     sc_no_extraneous_module_bytes = True\<rparr>"

text \<open>Two gas coins, with identifiers 8 and 9, both at version 3.\<close>

definition sample_inputs :: input_objects where
  "sample_inputs =
     [(ImmOrOwnedMoveObject (8, 3, 9), gas_coin_object 8 600000 500),
      (ImmOrOwnedMoveObject (9, 3, 9), gas_coin_object 9 500000 700)]"

definition sample_store :: temporary_store where
  "sample_store = \<lparr>ts_store = empty_backing, ts_tx_digest = 42,
     ts_input_objects = [(8, gas_coin_object 8 600000 500), (9, gas_coin_object 9 500000 700)],
     ts_lamport_timestamp = 4,
     ts_mutable_input_refs = [(8, (3, 9), AddressOwner 17), (9, (3, 9), AddressOwner 17)],
     ts_execution_results = results_default, ts_loaded_runtime_objects = [],
     ts_protocol_config = sample_store_config, ts_runtime_packages_loaded_from_db = [],
     ts_receiving_objects = []\<rparr>"

lemma gas_coin_object_id [simp]: "object_id_of (gas_coin_object i v r) = Some (ucast i)"
proof -
  have "foldl (\<lambda>n b. n * 256 + ucast b) 0 (replicate k (0 :: u8)) = (0 :: object_id)" for k
    by (induction k) simp_all
  then show ?thesis
    by (simp add: object_id_of_def gas_coin_object_def mo_id_def id_opt_def ID_END_INDEX_def
        id_of_bytes_def)
qed

lemma sample_store_new:
  "temporary_store_new sample_env empty_backing sample_inputs [] 42 sample_store_config = Some sample_store"
  by (simp add: temporary_store_new_def sample_inputs_def mutable_inputs_def into_object_map_def
      lamport_timestamp_def lamport_increment_def List.map_filter_def btree_collect_def sample_store_def
      rust_assert_def gas_coin_object_def [of _ _ _, THEN arg_cong [of _ _ o_owner]]
      gas_coin_object_def [of _ _ _, THEN arg_cong [of _ _ o_data]])

lemma sample_inputs_loaded: "inputs_loaded sample_inputs"
  by (simp add: inputs_loaded_def sample_inputs_def object_version_def
      gas_coin_object_def [of _ _ _, THEN arg_cong [of _ _ o_data]])

theorem written_versions_exceed_inputs_witness:
  "\<exists>ts ts' ob. store_run sample_env sample_store ts \<and> update_object_version_and_prev_tx ts = Some ts' \<and>
    (8, ob) \<in> set (ts_written ts') \<and> o_previous_transaction ob = 42 \<and>
    (\<forall>m. o_data ob = Move m \<longrightarrow> mo_version m = ts_lamport_timestamp ts')"
proof -
  define coin where "coin = gas_coin_object 8 600000 500"
  define ts where "ts = update_results (write_object 8 coin \<circ> mark_modified 8) sample_store"
  have "mutate_input_object coin sample_store = Some ts"
    by (simp add: mutate_input_object_def ts_def coin_def)
  then have run: "store_run sample_env sample_store ts"
    by (blast intro: run_refl run_step step_mutate)
  have written: "ts_written ts = [(8, coin)]"
    by (simp add: ts_def update_results_def sample_store_def write_object_def mark_modified_def
        results_default_def)
  have "update_written r 4 42 8 coin \<noteq> None" for r
    by (simp add: update_written_def coin_def gas_coin_object_def)
  then obtain ob where "update_written (ts_execution_results ts) (ts_lamport_timestamp ts) (ts_tx_digest ts) 8 coin = Some ob"
    by (auto simp: ts_def update_results_def sample_store_def)
  then obtain ts' where upd: "update_object_version_and_prev_tx ts = Some ts'" and ob: "(8, ob) \<in> set (ts_written ts')"
    by (simp add: update_object_version_and_prev_tx_def update_version_and_previous_tx_def written)
  from written_versions_exceed_inputs [OF sample_store_new run upd ob] run upd ob
  show ?thesis by blast
qed

subsection \<open>Storage rebates before and after\<close>

definition rebate_before :: "object_env \<Rightarrow> temporary_store \<Rightarrow> object_id \<Rightarrow> u64" where
  "rebate_before env ts i =
     (case metadata_before env ts i of Some meta \<Rightarrow> lm_storage_rebate meta | None \<Rightarrow> 0)"

definition total_input_rebate :: "object_env \<Rightarrow> temporary_store \<Rightarrow> u64" where
  "total_input_rebate env ts = sum_list (map (rebate_before env ts) (ts_modified ts))"

definition total_output_rebate :: "temporary_store \<Rightarrow> u64" where
  "total_output_rebate ts = sum_list (map (\<lambda>e. o_storage_rebate (snd e)) (ts_written ts))"

definition modified_known :: "object_env \<Rightarrow> temporary_store \<Rightarrow> bool" where
  "modified_known env ts \<longleftrightarrow> (\<forall>i \<in> set (ts_modified ts). metadata_before env ts i \<noteq> None)"

lemma foldl_pair_sums:
  "foldl (\<lambda>(inp, out) e. (inp + f e, out + g e)) (a, b) es =
     (a + sum_list (map f es), b + sum_list (map g es))" for a b :: u64
  by (induction es arbitrary: a b) (simp_all add: add.assoc)

lemma get_modified_objects_eq:
  assumes "modified_known env ts"
  shows "get_modified_objects env ts = Some
    (map (\<lambda>i. (i, metadata_before env ts i, map_of (ts_written ts) i)) (ts_modified ts) @
     map (\<lambda>e. (fst e, None, Some (snd e))) (filter (\<lambda>e. fst e \<notin> set (ts_modified ts)) (ts_written ts)))"
proof -
  have "those (map (\<lambda>i. map_option (\<lambda>meta. (i, meta, map_of (ts_written ts) i)) (get_object_modified_at env ts i))
      (ts_modified ts)) =
    Some (map (\<lambda>i. (i, metadata_before env ts i, map_of (ts_written ts) i)) (ts_modified ts))"
    using assms by (intro those_map_Some) (auto simp: get_object_modified_at_def modified_known_def)
  moreover have "List.map_filter (\<lambda>(i, ob). if i \<in> S then None else Some (i, None, Some ob)) es =
    map (\<lambda>e. (fst e, None, Some (snd e))) (filter (\<lambda>e. fst e \<notin> S) es)"
    for S :: "object_id set" and es :: "(object_id \<times> sui_object) list"
    by (induction es) (auto simp: map_filter_simps)
  ultimately show ?thesis
    by (simp add: get_modified_objects_def)
qed

lemma check_sui_conserved_eq:
  assumes "results_inv (ts_execution_results ts)" and "modified_known env ts"
  shows "check_sui_conserved env ts True summ = Some (Inr ()) \<longleftrightarrow>
    (if gs_storage_cost summ = 0
     then total_input_rebate env ts =
       total_output_rebate ts + gs_storage_rebate summ + gs_non_refundable_storage_fee summ
     else total_input_rebate env ts = gs_storage_rebate summ + gs_non_refundable_storage_fee summ \<and>
       gs_storage_cost summ = total_output_rebate ts)"
proof -
  have dist: "distinct (ts_modified ts)" "distinct (map fst (ts_written ts))"
    using assms(1) by (auto simp: results_inv_def filed_def bitmap_inv_distinct btree_inv_distinct)
  obtain es where es: "get_modified_objects env ts = Some es" and split: "es =
     map (\<lambda>i. (i, metadata_before env ts i, map_of (ts_written ts) i)) (ts_modified ts) @
     map (\<lambda>e. (fst e, None, Some (snd e))) (filter (\<lambda>e. fst e \<notin> set (ts_modified ts)) (ts_written ts))"
    using get_modified_objects_eq [OF assms(2)] by simp
  have "sum_list (map output_rebate es) = total_output_rebate ts"
    using sum_list_lookup_split [OF dist, of o_storage_rebate]
    by (simp add: split total_output_rebate_def output_rebate_def comp_def)
  moreover have "sum_list (map input_rebate es) = total_input_rebate env ts"
    by (simp add: split total_input_rebate_def input_rebate_def rebate_before_def [abs_def] comp_def)
  ultimately show ?thesis
    by (simp add: check_sui_conserved_def es foldl_pair_sums)
qed

text \<open>The rebate an object had does not depend on what the transaction wrote.\<close>

lemma metadata_before_same:
  "same_inputs ts ts' \<Longrightarrow> ts_loaded_runtime_objects ts' = ts_loaded_runtime_objects ts \<Longrightarrow>
     metadata_before env ts' = metadata_before env ts"
  by (rule ext) (auto simp: metadata_before_def same_inputs_def split: option.splits)

subsection \<open>Mutating the inputs that were left alone\<close>

definition put_object :: "object_id \<Rightarrow> sui_object \<Rightarrow> temporary_store \<Rightarrow> temporary_store" where
  "put_object i ob ts = update_results (write_object i ob \<circ> mark_modified i) ts"

lemma mutate_input_object_eq:
  "mutate_input_object ob ts = map_option (\<lambda>i. put_object i ob ts) (object_id_of ob)"
  by (cases "object_id_of ob") (simp_all add: mutate_input_object_def put_object_def)

lemma put_object_post:
  assumes "results_inv (ts_execution_results ts)"
  shows "map_of (ts_written (put_object i ob ts)) = (map_of (ts_written ts))(i \<mapsto> ob)"
    and "set (ts_modified (put_object i ob ts)) = insert i (set (ts_modified ts))"
    and "object_id_of ob = Some i \<Longrightarrow> results_inv (ts_execution_results (put_object i ob ts))"
    and "same_inputs ts (put_object i ob ts)"
    and "ts_loaded_runtime_objects (put_object i ob ts) = ts_loaded_runtime_objects ts"
proof -
  have ts: "btree_inv (ts_written ts)" "bitmap_inv (ts_modified ts)"
    using assms by (simp_all add: results_inv_def filed_def)
  then show "map_of (ts_written (put_object i ob ts)) = (map_of (ts_written ts))(i \<mapsto> ob)"
    and "set (ts_modified (put_object i ob ts)) = insert i (set (ts_modified ts))"
    and "same_inputs ts (put_object i ob ts)"
    and "ts_loaded_runtime_objects (put_object i ob ts) = ts_loaded_runtime_objects ts"
    by (simp_all add: put_object_def update_results_def write_object_def mark_modified_def same_inputs_def)
  show "object_id_of ob = Some i \<Longrightarrow> results_inv (ts_execution_results (put_object i ob ts))"
    using assms by (simp add: put_object_def update_results_def results_inv_write)
qed

lemma mutate_all_inputs:
  assumes "filed m" and "\<And>i. i \<in> set ids \<Longrightarrow> map_of m i \<noteq> None"
  shows "mutate_all (map (the \<circ> map_of m) ids) ts =
    Some (fold (\<lambda>i. put_object i (the (map_of m i))) ids ts)"
  using assms(2)
proof (induction ids arbitrary: ts)
  case (Cons i ids)
  then obtain ob where "map_of m i = Some ob" by force
  with assms(1) have "object_id_of (the (map_of m i)) = Some i" by (simp add: filed_def)
  with Cons show ?case by (simp add: mutate_input_object_eq)
qed simp

lemma fold_put_inputs:
  assumes "filed m" and "\<And>i. i \<in> set ids \<Longrightarrow> map_of m i \<noteq> None"
    and "results_inv (ts_execution_results ts)"
    and "ts' = fold (\<lambda>i. put_object i (the (map_of m i))) ids ts"
  shows "map_of (ts_written ts') i = (if i \<in> set ids then map_of m i else map_of (ts_written ts) i) \<and>
    set (ts_modified ts') = set ids \<union> set (ts_modified ts)"
  using assms(2-4)
proof (induction ids arbitrary: ts)
  case (Cons j ids)
  obtain ob where ob: "map_of m j = Some ob" using Cons.prems(1) [of j] by auto
  with assms(1) have id: "object_id_of ob = Some j" by (simp add: filed_def)
  note put = put_object_post [OF Cons.prems(2), where i = j and ob = ob]
  have "ts' = fold (\<lambda>i. put_object i (the (map_of m i))) ids (put_object j ob ts)"
    using Cons.prems(3) by (simp add: ob)
  from Cons.IH [OF _ put(3) [OF id] this] Cons.prems(1) put(1,2) ob
  show ?case by auto
qed simp

lemma ensure_active_inputs_mutated_post:
  assumes "ensure_active_inputs_mutated ts = Some ts'" and "store_inv ts"
  shows "map_of (ts_written ts') i =
      (if i \<in> dom (map_of (ts_mutable_input_refs ts)) - set (ts_modified ts)
       then map_of (ts_input_objects ts) i else map_of (ts_written ts) i)"
    and "set (ts_modified ts') = dom (map_of (ts_mutable_input_refs ts)) \<union> set (ts_modified ts)"
proof -
  let ?ids = "filter (\<lambda>i. i \<notin> set (ts_modified ts)) (map fst (ts_mutable_input_refs ts))"
  have ids: "set ?ids = dom (map_of (ts_mutable_input_refs ts)) - set (ts_modified ts)"
    by (auto simp: dom_map_of_conv_image_fst)
  have inv: "results_inv (ts_execution_results ts)" "filed (ts_input_objects ts)"
    and dom: "dom (map_of (ts_mutable_input_refs ts)) \<subseteq> dom (map_of (ts_input_objects ts))"
    using assms(2) by (simp_all add: store_inv_def)
  have known: "map_of (ts_input_objects ts) i \<noteq> None" if "i \<in> set ?ids" for i
    using that dom unfolding ids by blast
  from assms(1) obtain obs where obs: "those (map (map_of (ts_input_objects ts)) ?ids) = Some obs"
    and ts': "mutate_all obs ts = Some ts'"
    by (auto simp: ensure_active_inputs_mutated_def bind_eq_Some_conv)
  from ts' have "ts' = fold (\<lambda>i. put_object i (the (map_of (ts_input_objects ts) i))) ?ids ts"
    unfolding those_map_SomeD(1) [OF obs] using mutate_all_inputs [OF inv(2) known, of ?ids] by simp
  note post = fold_put_inputs [OF inv(2) known inv(1) this, of i, unfolded ids]
  from post show "map_of (ts_written ts') i =
      (if i \<in> dom (map_of (ts_mutable_input_refs ts)) - set (ts_modified ts)
       then map_of (ts_input_objects ts) i else map_of (ts_written ts) i)"
    and "set (ts_modified ts') = dom (map_of (ts_mutable_input_refs ts)) \<union> set (ts_modified ts)"
    by auto
qed

lemma ensure_active_inputs_mutated_returns:
  "store_inv ts \<Longrightarrow> \<exists>ts'. ensure_active_inputs_mutated ts = Some ts'"
proof -
  assume inv: "store_inv ts"
  let ?ids = "filter (\<lambda>i. i \<notin> set (ts_modified ts)) (map fst (ts_mutable_input_refs ts))"
  have dom: "dom (map_of (ts_mutable_input_refs ts)) \<subseteq> dom (map_of (ts_input_objects ts))"
    and filed: "filed (ts_input_objects ts)" using inv by (simp_all add: store_inv_def)
  have known: "map_of (ts_input_objects ts) i \<noteq> None" if "i \<in> set ?ids" for i
  proof -
    have "i \<in> dom (map_of (ts_mutable_input_refs ts))" using that by (auto simp: dom_map_of_conv_image_fst)
    with dom show ?thesis by blast
  qed
  have "those (map (map_of (ts_input_objects ts)) ?ids) = Some (map (the \<circ> map_of (ts_input_objects ts)) ?ids)"
  proof (rule those_map_Some)
    fix i assume "i \<in> set ?ids"
    from known [OF this] show "map_of (ts_input_objects ts) i = Some ((the \<circ> map_of (ts_input_objects ts)) i)"
      by simp
  qed
  with mutate_all_inputs [OF filed known, of ?ids] show ?thesis
    by (simp add: ensure_active_inputs_mutated_def)
qed

end
