(* ===== verification/Gas_Charger.thy ===== *)
theory Gas_Charger
  imports Temporary_Store
begin

section \<open>Charging for gas\<close>

text \<open>
  Models \<open>src/sui-execution/latest/sui-adapter/src/gas_charger.rs\<close> and the methods of
  \<open>temporary_store.rs\<close> that take a gas charger.  The module is under \<open>with_checked_arithmetic\<close>.
  Each operation returns the new charger and the new store; \<^const>\<open>None\<close> is a panic.  The
  execution result is threaded as a value of the sum type.
\<close>

record gas_charger =
  gc_tx_digest :: digest
  gc_gas_model_version :: u64
  gc_gas_coins :: "object_ref list"
  gc_smashed_gas_coin :: "object_id option"
  gc_gas_status :: sui_gas_status

definition gas_charger_new ::
  "digest \<Rightarrow> object_ref list \<Rightarrow> sui_gas_status \<Rightarrow> protocol_config \<Rightarrow> gas_charger" where
  "gas_charger_new tx_digest gas_coins status config =
     \<lparr>gc_tx_digest = tx_digest, gc_gas_model_version = pc_gas_model_version config,
      gc_gas_coins = gas_coins, gc_smashed_gas_coin = None, gc_gas_status = status\<rparr>"

definition gas_charger_new_unmetered :: "digest \<Rightarrow> gas_charger option" where
  "gas_charger_new_unmetered tx_digest = do {
     status \<leftarrow> new_unmetered;
     Some \<lparr>gc_tx_digest = tx_digest, gc_gas_model_version = 6, gc_gas_coins = [],
       gc_smashed_gas_coin = None, gc_gas_status = status\<rparr>
   }"

definition no_charges :: "gas_charger \<Rightarrow> bool option" where
  "no_charges gc = do {
     used \<leftarrow> sui_gas_used (gc_gas_status gc);
     Some (used = 0 \<and> sg_storage_rebate (gc_gas_status gc) = 0 \<and> sg_storage_cost (gc_gas_status gc) = 0)
   }"

definition gas_coin_value :: "temporary_store \<Rightarrow> object_ref \<Rightarrow> u64 option" where
  "gas_coin_value ts r = do {
     ob \<leftarrow> map_of (ts_input_objects ts) (fst r);
     m \<leftarrow> try_as_move (o_data ob);
     rust_assert (is_gas_coin (mo_type m));
     get_coin_value_unsafe m
   }"

definition smash_gas :: "gas_charger \<Rightarrow> temporary_store \<Rightarrow> (gas_charger \<times> temporary_store) option" where
  "smash_gas gc ts =
     (case gc_gas_coins gc of
        [] \<Rightarrow> Some (gc, ts)
      | (gas_coin_id, version, digest) # others \<Rightarrow>
          if others = [] \<and> gas_coin_id = 0 then Some (gc, ts)
          else let gc = gc\<lparr>gc_smashed_gas_coin := Some gas_coin_id\<rparr> in
            if others = [] then Some (gc, ts)
            else do {
              values \<leftarrow> those (map (gas_coin_value ts) (gc_gas_coins gc));
              let new_balance = sum_list values;
              primary_gas_object \<leftarrow> map_of (ts_input_objects ts) gas_coin_id;
              let ts = fold (\<lambda>r. delete_input_object (fst r)) others ts;
              m \<leftarrow> try_as_move (o_data primary_gas_object);
              m \<leftarrow> set_coin_value_unsafe new_balance m;
              ts \<leftarrow> mutate_input_object (primary_gas_object\<lparr>o_data := Move m\<rparr>) ts;
              Some (gc, ts)
            })"

definition charger_track_storage_mutation ::
  "nat \<Rightarrow> u64 \<Rightarrow> gas_charger \<Rightarrow> (u64 \<times> gas_charger) option" where
  "charger_track_storage_mutation new_size storage_rebate gc = do {
     (n, s) \<leftarrow> track_storage_mutation new_size storage_rebate (gc_gas_status gc);
     Some (n, gc\<lparr>gc_gas_status := s\<rparr>)
   }"

definition charger_reset_storage :: "gas_charger \<Rightarrow> gas_charger" where
  "charger_reset_storage gc =
     gc\<lparr>gc_gas_status := reset_storage_cost_and_rebate (gc_gas_status gc)\<rparr>"

definition charger_publish_package ::
  "nat \<Rightarrow> gas_charger \<Rightarrow> (execution_error_kind + unit) \<times> gas_charger" where
  "charger_publish_package sz gc =
     (let (r, s) = charge_publish_package sz (gc_gas_status gc) in (r, gc\<lparr>gc_gas_status := s\<rparr>))"

definition charge_upgrade_package ::
  "nat \<Rightarrow> gas_charger \<Rightarrow> (execution_error_kind + unit) \<times> gas_charger" where
  "charge_upgrade_package sz gc =
     (if charge_upgrades (gc_gas_model_version gc) then charger_publish_package sz gc
      else (Inr (), gc))"

definition charge_input_objects ::
  "object_env \<Rightarrow> temporary_store \<Rightarrow> gas_charger \<Rightarrow> (execution_error_kind + unit) \<times> gas_charger" where
  "charge_input_objects env ts gc =
     (let total_size = sum_list (map (\<lambda>(i, ob). object_size_for_gas_metering env ob)
            (filter (\<lambda>(i, ob). \<not> is_system_package i) (ts_input_objects ts)));
          (r, s) = charge_storage_read total_size (gc_gas_status gc)
      in (r, gc\<lparr>gc_gas_status := s\<rparr>))"

definition charger_reset :: "gas_charger \<Rightarrow> temporary_store \<Rightarrow> (gas_charger \<times> temporary_store) option" where
  "charger_reset gc ts = smash_gas (charger_reset_storage gc) (drop_writes ts)"

subsection \<open>Storage cost and rebates\<close>

fun track_written ::
  "object_env \<Rightarrow> ((object_id \<times> sui_object) \<times> u64) list \<Rightarrow> gas_charger \<Rightarrow>
     (object_map \<times> gas_charger) option" where
  "track_written env [] gc = Some ([], gc)"
| "track_written env (((i, ob), old_storage_rebate) # rest) gc = do {
     (new_storage_rebate, gc) \<leftarrow>
       charger_track_storage_mutation (object_size_for_gas_metering env ob) old_storage_rebate gc;
     (written, gc) \<leftarrow> track_written env rest gc;
     Some ((i, ob\<lparr>o_storage_rebate := new_storage_rebate\<rparr>) # written, gc)
   }"

fun track_removed :: "u64 list \<Rightarrow> gas_charger \<Rightarrow> gas_charger option" where
  "track_removed [] gc = Some gc"
| "track_removed (storage_rebate # rest) gc = do {
     (n, gc) \<leftarrow> charger_track_storage_mutation 0 storage_rebate gc;
     track_removed rest gc
   }"

definition collect_rebate :: "object_env \<Rightarrow> temporary_store \<Rightarrow> gas_charger \<Rightarrow> gas_charger option" where
  "collect_rebate env ts gc = do {
     rebates \<leftarrow> those (map (\<lambda>i. do {
         meta \<leftarrow> get_object_modified_at env ts i;
         meta \<leftarrow> meta;
         Some (lm_storage_rebate meta)
       }) (filter (\<lambda>i. i \<notin> fst ` set (ts_written ts)) (ts_modified ts)));
     track_removed rebates gc
   }"

definition collect_storage_and_rebate ::
  "object_env \<Rightarrow> temporary_store \<Rightarrow> gas_charger \<Rightarrow> (gas_charger \<times> temporary_store) option" where
  "collect_storage_and_rebate env ts gc = do {
     old_storage_rebates \<leftarrow> those (map (\<lambda>i. map_option
         (\<lambda>meta. case meta of Some m \<Rightarrow> lm_storage_rebate m | None \<Rightarrow> 0)
         (get_object_modified_at env ts i)) (map fst (ts_written ts)));
     (written, gc) \<leftarrow> track_written env (zip (ts_written ts) old_storage_rebates) gc;
     let ts = update_results (\<lambda>r. r\<lparr>written_objects := written\<rparr>) ts;
     gc \<leftarrow> collect_rebate env ts gc;
     Some (gc, ts)
   }"

subsection \<open>The entry point\<close>

definition or_error :: "execution_error_kind \<Rightarrow> execution_error_kind + 'a \<Rightarrow> execution_error_kind + 'a" where
  "or_error err res = (case res of Inl e \<Rightarrow> Inl e | Inr _ \<Rightarrow> Inl err)"

text \<open>The last resort of both variants: no storage charge, the whole budget as computation.\<close>

definition give_up_on_storage ::
  "object_env \<Rightarrow> gas_charger \<Rightarrow> temporary_store \<Rightarrow> (gas_charger \<times> temporary_store) option" where
  "give_up_on_storage env gc ts = do {
     (gc, ts) \<leftarrow> charger_reset gc ts;
     let gc = gc\<lparr>gc_gas_status := adjust_computation_on_out_of_gas (gc_gas_status gc)\<rparr>;
     ts \<leftarrow> ensure_active_inputs_mutated ts;
     gc \<leftarrow> collect_rebate env ts gc;
     Some (gc, ts)
   }"

definition handle_storage_and_rebate_v1 ::
  "object_env \<Rightarrow> gas_charger \<Rightarrow> temporary_store \<Rightarrow> execution_error_kind + 'a \<Rightarrow>
     (gas_charger \<times> temporary_store \<times> (execution_error_kind + 'a)) option" where
  "handle_storage_and_rebate_v1 env gc ts res = do {
     charged \<leftarrow> charge_storage_and_rebate (gc_gas_status gc);
     (case charged of
        Inr u \<Rightarrow> Some (gc, ts, res)
      | Inl err \<Rightarrow> do {
          (gc, ts) \<leftarrow> give_up_on_storage env gc ts;
          Some (gc, ts, or_error err res)
        })
   }"

definition handle_storage_and_rebate_v2 ::
  "object_env \<Rightarrow> gas_charger \<Rightarrow> temporary_store \<Rightarrow> execution_error_kind + 'a \<Rightarrow>
     (gas_charger \<times> temporary_store \<times> (execution_error_kind + 'a)) option" where
  "handle_storage_and_rebate_v2 env gc ts res = do {
     charged \<leftarrow> charge_storage_and_rebate (gc_gas_status gc);
     (case charged of
        Inr u \<Rightarrow> Some (gc, ts, res)
      | Inl err \<Rightarrow> do {
          (gc, ts) \<leftarrow> charger_reset gc ts;
          ts \<leftarrow> ensure_active_inputs_mutated ts;
          (gc, ts) \<leftarrow> collect_storage_and_rebate env ts gc;
          charged \<leftarrow> charge_storage_and_rebate (gc_gas_status gc);
          (case charged of
             Inl err \<Rightarrow> do {
               (gc, ts) \<leftarrow> give_up_on_storage env gc ts;
               Some (gc, ts, or_error err res)
             }
           | Inr u \<Rightarrow> Some (gc, ts, or_error err res))
        })
   }"

definition summary_default :: gas_cost_summary where
  "summary_default = gas_cost_summary_new 0 0 0 0"

text \<open>Bucketing of the computation and, on an error, the reset before storage is charged.\<close>

definition charge_computation ::
  "gas_charger \<Rightarrow> temporary_store \<Rightarrow> execution_error_kind + 'a \<Rightarrow>
     (gas_charger \<times> temporary_store \<times> (execution_error_kind + 'a)) option" where
  "charge_computation gc ts res =
     (if gc_smashed_gas_coin gc = None then Some (gc, ts, res)
      else do {
        (r, s) \<leftarrow> bucketize_computation (gc_gas_status gc);
        let gc = gc\<lparr>gc_gas_status := s\<rparr>;
        let res = (case r of Inl err \<Rightarrow> or_error err res | Inr u \<Rightarrow> res);
        (case res of
           Inl e \<Rightarrow> do {
             (gc, ts) \<leftarrow> charger_reset gc ts;
             Some (gc, ts, res)
           }
         | Inr x \<Rightarrow> Some (gc, ts, res))
      })"

definition deduct_from_gas_coin ::
  "gas_charger \<Rightarrow> temporary_store \<Rightarrow> object_id \<Rightarrow> (gas_cost_summary \<times> temporary_store) option" where
  "deduct_from_gas_coin gc ts gas_object_id = do {
     cost_summary \<leftarrow> gas_summary (gc_gas_status gc);
     gas_used \<leftarrow> net_gas_usage cost_summary;
     gas_object \<leftarrow> read_object ts gas_object_id;
     gas_object \<leftarrow> deduct_gas_coin gas_object gas_used;
     ts \<leftarrow> mutate_input_object gas_object ts;
     Some (cost_summary, ts)
   }"

definition charge_gas ::
  "object_env \<Rightarrow> gas_charger \<Rightarrow> temporary_store \<Rightarrow> execution_error_kind + 'a \<Rightarrow>
     (gas_cost_summary \<times> gas_charger \<times> temporary_store \<times> (execution_error_kind + 'a)) option" where
  "charge_gas env gc ts res = do {
     (gc, ts, res) \<leftarrow> charge_computation gc ts res;
     ts \<leftarrow> ensure_active_inputs_mutated ts;
     (gc, ts) \<leftarrow> collect_storage_and_rebate env ts gc;
     (case gc_smashed_gas_coin gc of
        Some gas_object_id \<Rightarrow> do {
          (gc, ts, res) \<leftarrow>
            (if dont_charge_budget_on_storage_oog (gc_gas_model_version gc)
             then handle_storage_and_rebate_v2 env gc ts res
             else handle_storage_and_rebate_v1 env gc ts res);
          (cost_summary, ts) \<leftarrow> deduct_from_gas_coin gc ts gas_object_id;
          Some (cost_summary, gc, ts, res)
        }
      | None \<Rightarrow> Some (summary_default, gc, ts, res))
   }"

subsection \<open>What collecting adds to the gas status\<close>

definition add_storage :: "u64 \<Rightarrow> u64 \<Rightarrow> gas_charger \<Rightarrow> gas_charger" where
  "add_storage rebate cost gc =
     gc\<lparr>gc_gas_status := (gc_gas_status gc)
       \<lparr>sg_storage_rebate := sg_storage_rebate (gc_gas_status gc) + rebate,
        sg_storage_cost := sg_storage_cost (gc_gas_status gc) + cost\<rparr>\<rparr>"

abbreviation metered :: "gas_charger \<Rightarrow> bool" where
  "metered gc \<equiv> sg_charge (gc_gas_status gc)"

lemma add_storage_zero [simp]: "add_storage 0 0 gc = gc"
  by (simp add: add_storage_def)

lemma add_storage_add [simp]:
  "add_storage r c (add_storage r' c' gc) = add_storage (r' + r) (c' + c) gc"
  by (simp add: add_storage_def add.assoc)

lemma metered_add_storage [simp]: "metered (add_storage r c gc) = metered gc"
  by (simp add: add_storage_def)

lemma charger_track_metered:
  assumes "charger_track_storage_mutation n rebate gc = Some (cost, gc')" and "metered gc"
  shows "gc' = add_storage rebate cost gc" and "n = 0 \<Longrightarrow> cost = 0"
  using assms
  by (auto simp: charger_track_storage_mutation_def track_storage_mutation_def is_unmetered_def
      add_storage_def bind_eq_Some_conv checked_add_def checked_mul_def split: if_splits)

lemma track_removed_metered:
  "track_removed rebates gc = Some gc' \<Longrightarrow> metered gc \<Longrightarrow> gc' = add_storage (sum_list rebates) 0 gc"
proof (induction rebates arbitrary: gc)
  case (Cons r rebates)
  then obtain n gc1 where "charger_track_storage_mutation 0 r gc = Some (n, gc1)"
    "track_removed rebates gc1 = Some gc'"
    by (auto simp: bind_eq_Some_conv)
  with Cons.IH [of gc1] Cons.prems(2) charger_track_metered [of 0 r gc n gc1] show ?case by simp
qed simp

text \<open>Tracking keeps every written object but for its storage rebate.\<close>

definition same_but_rebate :: "sui_object \<Rightarrow> sui_object \<Rightarrow> bool" where
  "same_but_rebate ob ob' \<longleftrightarrow> o_data ob' = o_data ob \<and> o_owner ob' = o_owner ob \<and>
     o_previous_transaction ob' = o_previous_transaction ob"

lemma same_but_rebate_id: "same_but_rebate ob ob' \<Longrightarrow> object_id_of ob' = object_id_of ob"
  by (simp add: same_but_rebate_def object_id_of_def)

lemma track_written_metered:
  "track_written env (zip written rebates) gc = Some (written', gc') \<Longrightarrow> metered gc \<Longrightarrow>
     length rebates = length written \<Longrightarrow>
     gc' = add_storage (sum_list rebates) (sum_list (map (\<lambda>e. o_storage_rebate (snd e)) written')) gc \<and>
     list_all2 (\<lambda>e e'. fst e' = fst e \<and> same_but_rebate (snd e) (snd e')) written written'"
proof (induction written arbitrary: rebates gc written')
  case (Cons e written)
  obtain i ob where e: "e = (i, ob)" by (cases e)
  from Cons.prems(3) obtain r rs where rs: "rebates = r # rs" "length rs = length written"
    by (cases rebates) auto
  from Cons.prems(1) obtain n gc1 w where
    n: "charger_track_storage_mutation (object_size_for_gas_metering env ob) r gc = Some (n, gc1)" and
    w: "track_written env (zip written rs) gc1 = Some (w, gc')" and
    written': "written' = (i, ob\<lparr>o_storage_rebate := n\<rparr>) # w"
    by (auto simp: e rs bind_eq_Some_conv)
  note gc1 = charger_track_metered(1) [OF n Cons.prems(2)]
  have "metered gc1" using Cons.prems(2) by (simp add: gc1)
  from Cons.IH [OF w this rs(2)] show ?case
    by (simp add: gc1 e rs(1) written' same_but_rebate_def)
qed simp

lemma collect_rebate_metered:
  assumes "collect_rebate env ts gc = Some gc'" and "metered gc"
  shows "gc' = add_storage
      (sum_list (map (rebate_before env ts) (filter (\<lambda>i. i \<notin> fst ` set (ts_written ts)) (ts_modified ts)))) 0 gc"
    and "i \<in> set (ts_modified ts) \<Longrightarrow> i \<notin> fst ` set (ts_written ts) \<Longrightarrow> metadata_before env ts i \<noteq> None"
proof -
  let ?ids = "filter (\<lambda>i. i \<notin> fst ` set (ts_written ts)) (ts_modified ts)"
  let ?f = "\<lambda>i. do { meta \<leftarrow> get_object_modified_at env ts i; meta \<leftarrow> meta; Some (lm_storage_rebate meta) }"
  from assms(1) obtain rebates where rebates: "those (map ?f ?ids) = Some rebates"
    and gc': "track_removed rebates gc = Some gc'"
    by (auto simp: collect_rebate_def bind_eq_Some_conv)
  have f: "?f i = map_option lm_storage_rebate (metadata_before env ts i)" if "i \<in> set ?ids" for i
    using that by (cases "metadata_before env ts i") (simp_all add: get_object_modified_at_def)
  show known: "metadata_before env ts i \<noteq> None" if "i \<in> set (ts_modified ts)" "i \<notin> fst ` set (ts_written ts)" for i
    using those_map_SomeD(2) [OF rebates, of i] f [of i] that by auto
  have "rebates = map (rebate_before env ts) ?ids"
    unfolding those_map_SomeD(1) [OF rebates]
  proof (rule map_cong [OF refl])
    fix i assume "i \<in> set ?ids"
    with f [of i] known [of i] show "(the \<circ> ?f) i = rebate_before env ts i"
      by (auto simp: rebate_before_def)
  qed
  with track_removed_metered [OF gc' assms(2)]
  show "gc' = add_storage (sum_list (map (rebate_before env ts) ?ids)) 0 gc" by simp
qed

text \<open>
  After \<open>collect_storage_and_rebate\<close> the tracked rebate has grown by the rebates of everything
  the transaction modified, and the tracked cost by the new rebates of everything it wrote.
\<close>

lemma filed_same_but_rebate:
  assumes "list_all2 (\<lambda>e e'. fst e' = fst e \<and> same_but_rebate (snd e) (snd e')) m m'" and "filed m"
  shows "filed m'" and "map fst m' = map fst m"
proof -
  show keys: "map fst m' = map fst m"
    using assms(1) by (auto simp: list_all2_conv_all_nth intro: nth_equalityI)
  have inv: "btree_inv m'" "btree_inv m"
    using assms(2) btree_inv_map_snd [OF keys] by (simp_all add: filed_def)
  show "filed m'"
    unfolding filed_def
  proof (intro conjI allI impI)
    fix i ob' assume "map_of m' i = Some ob'"
    then obtain n where n: "n < length m'" "m' ! n = (i, ob')"
      by (metis in_set_conv_nth map_of_SomeD)
    with assms(1) have e: "n < length m" "fst (m ! n) = i" "same_but_rebate (snd (m ! n)) ob'"
      by (auto simp: list_all2_conv_all_nth)
    then have "map_of m i = Some (snd (m ! n))"
      using inv(2) by (metis map_of_btree_eq nth_mem prod.collapse)
    with assms(2) e(3) show "object_id_of ob' = Some i"
      by (simp add: filed_def same_but_rebate_id)
  qed (rule inv(1))
qed

lemma collect_storage_and_rebate_metered:
  assumes "collect_storage_and_rebate env ts gc = Some (gc', ts')" and "metered gc"
    and "results_inv (ts_execution_results ts)"
  shows "gc' = add_storage (total_input_rebate env ts) (total_output_rebate ts') gc"
    and "\<exists>written'. ts' = update_results (\<lambda>r. r\<lparr>written_objects := written'\<rparr>) ts \<and>
      list_all2 (\<lambda>e e'. fst e' = fst e \<and> same_but_rebate (snd e) (snd e')) (ts_written ts) written'"
    and "modified_known env ts"
proof -
  let ?f = "\<lambda>i. map_option (\<lambda>meta. case meta of Some m \<Rightarrow> lm_storage_rebate m | None \<Rightarrow> 0)
    (get_object_modified_at env ts i)"
  from assms(1) obtain rebates written' gc1 where
    rebates: "those (map ?f (map fst (ts_written ts))) = Some rebates" and
    w: "track_written env (zip (ts_written ts) rebates) gc = Some (written', gc1)" and
    ts': "ts' = update_results (\<lambda>r. r\<lparr>written_objects := written'\<rparr>) ts" and
    gc': "collect_rebate env ts' gc1 = Some gc'"
    by (auto simp: collect_storage_and_rebate_def bind_eq_Some_conv Let_def)
  have len: "length rebates = length (ts_written ts)"
    unfolding those_map_SomeD(1) [OF rebates] by simp
  note tracked = track_written_metered [OF w assms(2) len]
  show "\<exists>written'. ts' = update_results (\<lambda>r. r\<lparr>written_objects := written'\<rparr>) ts \<and>
      list_all2 (\<lambda>e e'. fst e' = fst e \<and> same_but_rebate (snd e) (snd e')) (ts_written ts) written'"
    using ts' tracked by blast
  have dist: "distinct (ts_modified ts)" "distinct (map fst (ts_written ts))"
    and filed: "filed (ts_written ts)"
    using assms(3) by (auto simp: results_inv_def filed_def bitmap_inv_distinct btree_inv_distinct)
  have keys: "map fst written' = map fst (ts_written ts)"
    using filed_same_but_rebate(2) tracked filed by blast
  have before: "metadata_before env ts' = metadata_before env ts"
    unfolding ts' by (rule metadata_before_same) (simp_all add: update_results_def same_inputs_def)
  have written: "ts_written ts' = written'" "ts_modified ts' = ts_modified ts"
    by (simp_all add: ts' update_results_def)
  have known: "i \<in> set (ts_modified ts) \<Longrightarrow> i \<in> fst ` set (ts_written ts) \<Longrightarrow> metadata_before env ts i \<noteq> None" for i
    using those_map_SomeD(2) [OF rebates, of i] by (auto simp: get_object_modified_at_def)
  have key_set: "fst ` set written' = fst ` set (ts_written ts)"
    using arg_cong [OF keys, of set] by simp
  note removed = collect_rebate_metered [OF gc', unfolded written before]
  have m1: "metered gc1" using tracked assms(2) by simp
  show "modified_known env ts"
    unfolding modified_known_def using known removed(2) [OF m1, unfolded key_set] by blast
  have "rebates = map (\<lambda>i. if i \<in> set (ts_modified ts) then rebate_before env ts i else 0) (map fst (ts_written ts))"
    unfolding those_map_SomeD(1) [OF rebates]
  proof (rule map_cong [OF refl])
    fix i assume "i \<in> set (map fst (ts_written ts))"
    with known [of i] show "(the \<circ> ?f) i = (if i \<in> set (ts_modified ts) then rebate_before env ts i else 0)"
      by (cases "i \<in> set (ts_modified ts)") (auto simp: get_object_modified_at_def rebate_before_def)
  qed
  then have "sum_list rebates +
      sum_list (map (rebate_before env ts) (filter (\<lambda>i. i \<notin> fst ` set written') (ts_modified ts))) =
    total_input_rebate env ts"
    using sum_list_keys_split [OF dist, of "rebate_before env ts"]
    by (simp add: total_input_rebate_def key_set)
  moreover have "rebate_before env ts' = rebate_before env ts"
    by (simp add: rebate_before_def [abs_def] before)
  ultimately show "gc' = add_storage (total_input_rebate env ts) (total_output_rebate ts') gc"
    using removed(1) [OF m1] tracked by (simp add: total_output_rebate_def written)
qed

subsection \<open>Resetting and smashing again\<close>

text \<open>The charger has picked \<open>c\<close>, its first coin, as the coin that pays.\<close>

definition pays_with :: "object_id \<Rightarrow> gas_charger \<Rightarrow> bool" where
  "pays_with c gc \<longleftrightarrow> gc_smashed_gas_coin gc = Some c \<and> (\<exists>v d others. gc_gas_coins gc = (c, v, d) # others)"

lemma pays_with_add_storage [simp]: "pays_with c (add_storage r k gc) = pays_with c gc"
  by (simp add: pays_with_def add_storage_def)

lemma fold_delete_post:
  "ts_written (fold (\<lambda>r. delete_input_object (fst r)) rs ts) = ts_written ts \<and>
   set (ts_modified (fold (\<lambda>r. delete_input_object (fst r)) rs ts)) = fst ` set rs \<union> set (ts_modified ts) \<and>
   same_inputs ts (fold (\<lambda>r. delete_input_object (fst r)) rs ts) \<and>
   ts_loaded_runtime_objects (fold (\<lambda>r. delete_input_object (fst r)) rs ts) = ts_loaded_runtime_objects ts \<and>
   (store_inv ts \<longrightarrow> store_inv (fold (\<lambda>r. delete_input_object (fst r)) rs ts))"
proof (induction rs arbitrary: ts)
  case (Cons r rs)
  have "ts_written (delete_input_object (fst r) ts) = ts_written ts"
    "set (ts_modified (delete_input_object (fst r) ts)) = insert (fst r) (set (ts_modified ts))"
    "ts_loaded_runtime_objects (delete_input_object (fst r) ts) = ts_loaded_runtime_objects ts"
    by (simp_all add: delete_input_object_def update_results_def mark_modified_def)
  then show ?case
    using Cons.IH [of "delete_input_object (fst r) ts"] delete_input_object_inv [of ts "fst r"]
    by (auto intro: same_inputs_trans)
qed simp

text \<open>
  Smashing leaves the coin alone when it is the only one; otherwise the coin is written with
  the combined balance and the others are marked as modified.
\<close>

lemma smash_gas_pays:
  assumes "smash_gas gc ts = Some (gc', ts')" and "pays_with c gc" and "store_inv ts"
  shows "gc' = gc \<and> (ts' = ts \<or>
    (\<exists>ob ob'. map_of (ts_input_objects ts) c = Some ob \<and> object_id_of ob' = Some c \<and>
       o_storage_rebate ob' = o_storage_rebate ob \<and>
       ts' = put_object c ob' (fold (\<lambda>r. delete_input_object (fst r)) (tl (gc_gas_coins gc)) ts)))"
proof -
  from assms(2) obtain v d others where coins: "gc_gas_coins gc = (c, v, d) # others"
    and smashed: "gc_smashed_gas_coin gc = Some c"
    by (auto simp: pays_with_def)
  have same: "gc\<lparr>gc_smashed_gas_coin := Some c\<rparr> = gc" using smashed by simp
  show ?thesis
  proof (cases "others = []")
    case True
    with assms(1) coins same show ?thesis by (auto simp: smash_gas_def split: if_splits)
  next
    case False
    with assms(1) coins same obtain new_balance ob m m' where
      ob: "map_of (ts_input_objects ts) c = Some ob" and
      m: "try_as_move (o_data ob) = Some m" "set_coin_value_unsafe new_balance m = Some m'" and
      ts': "mutate_input_object (ob\<lparr>o_data := Move m'\<rparr>)
        (fold (\<lambda>r. delete_input_object (fst r)) others ts) = Some ts'" and gc': "gc' = gc"
      by (auto simp: smash_gas_def bind_eq_Some_conv Let_def)
    have "o_data ob = Move m" using m(1) by (cases "o_data ob") auto
    moreover have "object_id_of ob = Some c" using ob assms(3) by (simp add: store_inv_def filed_def)
    ultimately have "object_id_of (ob\<lparr>o_data := Move m'\<rparr>) = Some c"
      using get_set_coin_value(2) [OF m(2)] by (simp add: object_id_of_def)
    with ts' ob coins gc' show ?thesis by (auto simp: mutate_input_object_eq)
  qed
qed

text \<open>A store in which everything written is a mutable input with its old storage rebate.\<close>

definition rebates_kept :: "object_env \<Rightarrow> temporary_store \<Rightarrow> bool" where
  "rebates_kept env ts \<longleftrightarrow> (\<forall>i ob. map_of (ts_written ts) i = Some ob \<longrightarrow>
     i \<in> dom (map_of (ts_mutable_input_refs ts)) \<and> i \<in> set (ts_modified ts) \<and>
     o_storage_rebate ob = rebate_before env ts i)"

lemma rebate_before_input:
  assumes "i \<in> dom (map_of (ts_mutable_input_refs ts))" and "map_of (ts_input_objects ts) i = Some ob"
  shows "rebate_before env ts i = o_storage_rebate ob"
  using assms by (auto simp: rebate_before_def metadata_before_def)

lemma charger_reset_pays:
  assumes "charger_reset gc ts = Some (gc', ts')" and "pays_with c gc" and "store_inv ts"
    and "c \<in> dom (map_of (ts_mutable_input_refs ts))"
  shows "gc' = charger_reset_storage gc" and "same_inputs ts ts'" and "store_inv ts'"
    and "rebates_kept env ts'"
    and "c \<in> set (ts_modified ts') \<Longrightarrow> c \<in> dom (map_of (ts_written ts'))"
proof -
  let ?ts = "drop_writes ts"
  let ?del = "fold (\<lambda>r. delete_input_object (fst r)) (tl (gc_gas_coins gc)) ?ts"
  have drop: "ts_written ?ts = []" "ts_modified ?ts = []"
    by (simp_all add: drop_writes_def update_results_def results_drop_writes_def)
  have inv: "store_inv ?ts" "same_inputs ts ?ts" using drop_writes_inv assms(3) by auto
  have pays: "pays_with c (charger_reset_storage gc)" and coins: "gc_gas_coins (charger_reset_storage gc) = gc_gas_coins gc"
    using assms(2) by (simp_all add: pays_with_def charger_reset_storage_def)
  note smash = smash_gas_pays [OF assms(1) [unfolded charger_reset_def] pays inv(1), unfolded coins]
  show "gc' = charger_reset_storage gc" using smash by blast
  consider (alone) "ts' = ?ts" | (smashed) ob ob' where "map_of (ts_input_objects ts) c = Some ob"
    "object_id_of ob' = Some c" "o_storage_rebate ob' = o_storage_rebate ob" "ts' = put_object c ob' ?del"
    using smash inv(2) by (auto simp: same_inputs_def)
  then have "same_inputs ts ts' \<and> store_inv ts' \<and> rebates_kept env ts' \<and>
      (c \<in> set (ts_modified ts') \<longrightarrow> c \<in> dom (map_of (ts_written ts')))"
  proof cases
    case alone
    with inv drop show ?thesis
      by (simp add: rebates_kept_def)
  next
    case smashed
    note del = fold_delete_post [of "tl (gc_gas_coins gc)" ?ts]
    have r: "results_inv (ts_execution_results ?del)" "store_inv ?del"
      using del inv(1) by (simp_all add: store_inv_def)
    note put = put_object_post [OF r(1), where i = c and ob = ob']
    have same: "same_inputs ts ts'"
      using inv(2) del put(4) smashed(4) by (auto intro: same_inputs_trans)
    moreover have "store_inv ts'"
      using r(2) put(3) [OF smashed(2)] put(4) unfolding smashed(4) by (simp add: store_inv_def same_inputs_def)
    moreover have "rebate_before env ts' c = o_storage_rebate ob'"
      using rebate_before_input [of c ts' ob] assms(4) same smashed(1,3) by (simp add: same_inputs_def)
    moreover have "map_of (ts_written ts') = [c \<mapsto> ob']" "c \<in> set (ts_modified ts')"
      using put(1,2) del drop smashed(4) by simp_all
    moreover have "c \<in> dom (map_of (ts_mutable_input_refs ts'))"
      using same assms(4) by (simp add: same_inputs_def)
    ultimately show ?thesis
      by (simp add: rebates_kept_def)
  qed
  then show "same_inputs ts ts'" and "store_inv ts'" and "rebates_kept env ts'"
    and "c \<in> set (ts_modified ts') \<Longrightarrow> c \<in> dom (map_of (ts_written ts'))"
    by auto
qed

subsection \<open>Rebates and costs balance\<close>

definition settled :: "object_env \<Rightarrow> gas_charger \<Rightarrow> temporary_store \<Rightarrow> bool" where
  "settled env gc ts \<longleftrightarrow> modified_known env ts \<and>
     (sg_storage_rebate (gc_gas_status gc) = total_input_rebate env ts \<and>
      sg_storage_cost (gc_gas_status gc) = total_output_rebate ts \<or>
      sg_storage_cost (gc_gas_status gc) = 0 \<and>
      total_input_rebate env ts = total_output_rebate ts + sg_storage_rebate (gc_gas_status gc))"

text \<open>The state between collecting and deducting.\<close>

definition charge_state :: "object_env \<Rightarrow> object_id \<Rightarrow> gas_charger \<Rightarrow> temporary_store \<Rightarrow> bool" where
  "charge_state env c gc ts \<longleftrightarrow> settled env gc ts \<and> store_inv ts \<and> metered gc \<and> pays_with c gc \<and>
     c \<in> dom (map_of (ts_written ts)) \<and> c \<in> set (ts_modified ts) \<and>
     c \<in> dom (map_of (ts_mutable_input_refs ts))"

lemma totals_same:
  assumes "same_inputs ts ts'" and "ts_loaded_runtime_objects ts' = ts_loaded_runtime_objects ts"
    and "ts_modified ts' = ts_modified ts"
  shows "total_input_rebate env ts' = total_input_rebate env ts"
    and "modified_known env ts' = modified_known env ts"
  using metadata_before_same [OF assms(1,2)] assms(3)
  by (simp_all add: total_input_rebate_def modified_known_def rebate_before_def [abs_def])

lemma ensure_rebates_kept:
  assumes "ensure_active_inputs_mutated ts = Some ts'" and "store_inv ts" and "rebates_kept env ts"
  shows "rebates_kept env ts'"
  unfolding rebates_kept_def
proof (intro allI impI)
  fix i ob assume written: "map_of (ts_written ts') i = Some ob"
  note post = ensure_active_inputs_mutated_post [OF assms(1,2)]
  have same: "same_inputs ts ts'" "ts_loaded_runtime_objects ts' = ts_loaded_runtime_objects ts"
    using ensure_active_inputs_mutated_inv [OF assms(1)] by auto
  have before: "rebate_before env ts' = rebate_before env ts"
    using metadata_before_same [OF same] by (simp add: rebate_before_def [abs_def])
  have refs: "ts_mutable_input_refs ts' = ts_mutable_input_refs ts" using same(1) by (simp add: same_inputs_def)
  show "i \<in> dom (map_of (ts_mutable_input_refs ts')) \<and> i \<in> set (ts_modified ts') \<and>
      o_storage_rebate ob = rebate_before env ts' i"
  proof (cases "i \<in> dom (map_of (ts_mutable_input_refs ts)) - set (ts_modified ts)")
    case True
    then have ref: "i \<in> dom (map_of (ts_mutable_input_refs ts))"
      and input: "map_of (ts_input_objects ts) i = Some ob"
      using written post(1) [of i] by simp_all
    have "rebate_before env ts i = o_storage_rebate ob" by (rule rebate_before_input [OF ref input])
    with ref show ?thesis unfolding before refs post(2) by simp
  next
    case False
    have "map_of (ts_written ts) i = Some ob" using written unfolding post(1) if_not_P [OF False] .
    with assms(3) show ?thesis unfolding before refs post(2) by (auto simp: rebates_kept_def)
  qed
qed

lemma settled_collect:
  assumes "collect_storage_and_rebate env ts gc = Some (gc', ts')" and "metered gc" and "store_inv ts"
    and "sg_storage_rebate (gc_gas_status gc) = 0" and "sg_storage_cost (gc_gas_status gc) = 0"
  shows "settled env gc' ts'" and "store_inv ts'" and "same_inputs ts ts'"
    and "dom (map_of (ts_written ts')) = dom (map_of (ts_written ts))" and "ts_modified ts' = ts_modified ts"
proof -
  have inv: "results_inv (ts_execution_results ts)" and filed: "filed (ts_written ts)"
    using assms(3) by (simp_all add: store_inv_def results_inv_def)
  note collect = collect_storage_and_rebate_metered [OF assms(1,2) inv]
  from collect(2) obtain w where ts': "ts' = update_results (\<lambda>r. r\<lparr>written_objects := w\<rparr>) ts"
    and w: "list_all2 (\<lambda>e e'. fst e' = fst e \<and> same_but_rebate (snd e) (snd e')) (ts_written ts) w"
    by blast
  note fw = filed_same_but_rebate [OF w filed]
  show same: "same_inputs ts ts'" and modified: "ts_modified ts' = ts_modified ts"
    by (simp_all add: ts' update_results_def same_inputs_def)
  have loaded: "ts_loaded_runtime_objects ts' = ts_loaded_runtime_objects ts"
    by (simp add: ts' update_results_def)
  show "dom (map_of (ts_written ts')) = dom (map_of (ts_written ts))"
    using arg_cong [OF fw(2), of set] by (simp add: ts' update_results_def dom_map_of_conv_image_fst)
  show "store_inv ts'"
    unfolding ts' using assms(3) fw(1) by (intro store_inv_update) (auto simp: results_inv_def)
  show "settled env gc' ts'"
    using collect(1,3) totals_same [OF same loaded modified, of env] assms(4,5)
    by (simp add: settled_def add_storage_def)
qed

lemma ensure_gas_coin:
  assumes "ensure_active_inputs_mutated ts = Some ts'" and "store_inv ts"
    and "c \<in> dom (map_of (ts_mutable_input_refs ts))"
    and "c \<in> set (ts_modified ts) \<Longrightarrow> c \<in> dom (map_of (ts_written ts))"
  shows "c \<in> dom (map_of (ts_written ts'))" and "c \<in> set (ts_modified ts')"
    and "c \<in> dom (map_of (ts_mutable_input_refs ts'))" and "store_inv ts'" and "same_inputs ts ts'"
proof -
  note post = ensure_active_inputs_mutated_post [OF assms(1,2)]
  show inv: "store_inv ts'" and same: "same_inputs ts ts'"
    using ensure_active_inputs_mutated_inv [OF assms(1)] assms(2) by auto
  show "c \<in> set (ts_modified ts')" "c \<in> dom (map_of (ts_mutable_input_refs ts'))"
    using post(2) assms(3) same by (simp_all add: same_inputs_def)
  have "c \<in> dom (map_of (ts_input_objects ts))" using assms(2,3) by (auto simp: store_inv_def)
  then show "c \<in> dom (map_of (ts_written ts'))"
    using post(1) [of c] assms(3,4) by (cases "c \<in> set (ts_modified ts)") auto
qed

lemma charge_state_collect:
  assumes "ensure_active_inputs_mutated ts = Some ts1" and "collect_storage_and_rebate env ts1 gc = Some (gc', ts')"
    and "metered gc" and "pays_with c gc" and "store_inv ts"
    and "c \<in> dom (map_of (ts_mutable_input_refs ts))"
    and "c \<in> set (ts_modified ts) \<Longrightarrow> c \<in> dom (map_of (ts_written ts))"
    and "sg_storage_rebate (gc_gas_status gc) = 0" and "sg_storage_cost (gc_gas_status gc) = 0"
  shows "charge_state env c gc' ts'" and "\<exists>r k. gc' = add_storage r k gc" and "same_inputs ts ts'"
proof -
  note coin = ensure_gas_coin [OF assms(1,5-7)]
  note stl = settled_collect [OF assms(2,3) coin(4) assms(8,9)]
  have "results_inv (ts_execution_results ts1)" using coin(4) by (simp add: store_inv_def)
  then show add: "\<exists>r k. gc' = add_storage r k gc"
    using collect_storage_and_rebate_metered(1) [OF assms(2,3)] by blast
  with stl coin(1-3) assms(3,4) show "charge_state env c gc' ts'"
    by (auto simp: charge_state_def same_inputs_def)
  show "same_inputs ts ts'" using coin(5) stl(3) by (rule same_inputs_trans)
qed

lemma charger_reset_storage_simps [simp]:
  "sg_storage_rebate (gc_gas_status (charger_reset_storage gc)) = 0"
  "sg_storage_cost (gc_gas_status (charger_reset_storage gc)) = 0"
  "metered (charger_reset_storage gc) = metered gc"
  "pays_with c (charger_reset_storage gc) = pays_with c gc"
  "sg_gas_budget (gc_gas_status (charger_reset_storage gc)) = sg_gas_budget (gc_gas_status gc)"
  "sg_computation_cost (gc_gas_status (charger_reset_storage gc)) = sg_computation_cost (gc_gas_status gc)"
  "sg_rebate_rate (gc_gas_status (charger_reset_storage gc)) = sg_rebate_rate (gc_gas_status gc)"
  "gc_gas_model_version (charger_reset_storage gc) = gc_gas_model_version gc"
  by (simp_all add: charger_reset_storage_def reset_storage_cost_and_rebate_def pays_with_def)

lemma add_storage_simps [simp]:
  "sg_storage_rebate (gc_gas_status (add_storage r k gc)) = sg_storage_rebate (gc_gas_status gc) + r"
  "sg_storage_cost (gc_gas_status (add_storage r k gc)) = sg_storage_cost (gc_gas_status gc) + k"
  "sg_gas_budget (gc_gas_status (add_storage r k gc)) = sg_gas_budget (gc_gas_status gc)"
  "sg_computation_cost (gc_gas_status (add_storage r k gc)) = sg_computation_cost (gc_gas_status gc)"
  "sg_rebate_rate (gc_gas_status (add_storage r k gc)) = sg_rebate_rate (gc_gas_status gc)"
  "gc_smashed_gas_coin (add_storage r k gc) = gc_smashed_gas_coin gc"
  "gc_gas_model_version (add_storage r k gc) = gc_gas_model_version gc"
  by (simp_all add: add_storage_def)

lemma rebates_kept_total:
  assumes "rebates_kept env ts" and "results_inv (ts_execution_results ts)"
  shows "total_input_rebate env ts = total_output_rebate ts +
    sum_list (map (rebate_before env ts) (filter (\<lambda>i. i \<notin> fst ` set (ts_written ts)) (ts_modified ts)))"
proof -
  have dist: "distinct (ts_modified ts)" "distinct (map fst (ts_written ts))"
    using assms(2) by (auto simp: results_inv_def filed_def bitmap_inv_distinct btree_inv_distinct)
  have "(i, ob) \<in> set (ts_written ts) \<Longrightarrow>
      i \<in> set (ts_modified ts) \<and> o_storage_rebate ob = rebate_before env ts i" for i ob
    using assms by (simp add: rebates_kept_def results_inv_def filed_def map_of_btree_eq)
  then have "map (\<lambda>i. if i \<in> set (ts_modified ts) then rebate_before env ts i else 0) (map fst (ts_written ts)) =
      map (\<lambda>e. o_storage_rebate (snd e)) (ts_written ts)"
    by (auto simp: case_prod_beta)
  then show ?thesis
    using sum_list_keys_split [OF dist, of "rebate_before env ts"]
    by (simp only: total_input_rebate_def total_output_rebate_def)
qed

lemma rebates_kept_known:
  assumes "rebates_kept env ts" and "store_inv ts" and "i \<in> fst ` set (ts_written ts)"
  shows "metadata_before env ts i \<noteq> None"
proof -
  from assms(3) obtain ob where "map_of (ts_written ts) i = Some ob"
    using map_of_eq_None_iff [of "ts_written ts" i] by auto
  with assms(1) have "i \<in> dom (map_of (ts_mutable_input_refs ts))" by (simp add: rebates_kept_def)
  then obtain vd own where ref: "map_of (ts_mutable_input_refs ts) i = Some (vd, own)"
    by (auto simp: dom_def)
  moreover from ref obtain input where "map_of (ts_input_objects ts) i = Some input"
    using assms(2) by (auto simp: store_inv_def)
  ultimately show ?thesis by (cases vd) (simp add: metadata_before_def)
qed

text \<open>Without storage charges the rebates of the deleted coins alone are tracked.\<close>

lemma give_up_on_storage_settles:
  assumes "give_up_on_storage env gc ts = Some (gc', ts')" and "charge_state env c gc ts"
  shows "charge_state env c gc' ts'" and "sg_storage_cost (gc_gas_status gc') = 0"
    and "sg_computation_cost (gc_gas_status gc') = sg_gas_budget (gc_gas_status gc')"
    and "sg_gas_budget (gc_gas_status gc') = sg_gas_budget (gc_gas_status gc)"
    and "sg_rebate_rate (gc_gas_status gc') = sg_rebate_rate (gc_gas_status gc)"
    and "same_inputs ts ts'"
proof -
  define gc1 where "gc1 = (charger_reset_storage gc)\<lparr>gc_gas_status :=
    adjust_computation_on_out_of_gas (gc_gas_status (charger_reset_storage gc))\<rparr>"
  have state: "pays_with c gc" "store_inv ts" "c \<in> dom (map_of (ts_mutable_input_refs ts))" "metered gc"
    using assms(2) by (simp_all add: charge_state_def)
  from assms(1) obtain gc0 ts0 where reset: "charger_reset gc ts = Some (gc0, ts0)"
    and rest: "do { ts \<leftarrow> ensure_active_inputs_mutated ts0;
      gc \<leftarrow> collect_rebate env ts
        (gc0\<lparr>gc_gas_status := adjust_computation_on_out_of_gas (gc_gas_status gc0)\<rparr>);
      Some (gc, ts) } = Some (gc', ts')"
    by (auto simp: give_up_on_storage_def bind_eq_Some_conv Let_def)
  note res = charger_reset_pays [OF reset state(1-3)]
  from rest have ensure: "ensure_active_inputs_mutated ts0 = Some ts'"
    and rebate: "collect_rebate env ts' gc1 = Some gc'"
    by (auto simp: bind_eq_Some_conv res(1) gc1_def)
  have refs: "c \<in> dom (map_of (ts_mutable_input_refs ts0))" using res(2) state(3) by (simp add: same_inputs_def)
  note coin = ensure_gas_coin [OF ensure res(3) refs res(5)]
  show "same_inputs ts ts'" using res(2) coin(5) by (rule same_inputs_trans)
  have kept: "rebates_kept env ts'" by (rule ensure_rebates_kept [OF ensure res(3,4)])
  have m1: "metered gc1" using state(4) by (simp add: gc1_def adjust_computation_on_out_of_gas_def)
  note collected = collect_rebate_metered [OF rebate m1]
  have inv: "results_inv (ts_execution_results ts')" using coin(4) by (simp add: store_inv_def)
  note total = rebates_kept_total [OF kept inv]
  have known: "modified_known env ts'"
    unfolding modified_known_def using rebates_kept_known [OF kept coin(4)] collected(2) by blast
  show cost: "sg_storage_cost (gc_gas_status gc') = 0"
    unfolding collected(1) by (simp add: gc1_def adjust_computation_on_out_of_gas_def)
  show "sg_computation_cost (gc_gas_status gc') = sg_gas_budget (gc_gas_status gc')"
    and "sg_gas_budget (gc_gas_status gc') = sg_gas_budget (gc_gas_status gc)"
    and "sg_rebate_rate (gc_gas_status gc') = sg_rebate_rate (gc_gas_status gc)"
    unfolding collected(1) by (simp_all add: gc1_def adjust_computation_on_out_of_gas_def)
  have "sg_storage_rebate (gc_gas_status gc') =
      sum_list (map (rebate_before env ts') (filter (\<lambda>i. i \<notin> fst ` set (ts_written ts')) (ts_modified ts')))"
    unfolding collected(1) by (simp add: gc1_def adjust_computation_on_out_of_gas_def)
  then have "settled env gc' ts'" using known cost total by (simp add: settled_def)
  moreover have "metered gc' \<and> pays_with c gc'"
    unfolding collected(1) using m1 state(1) by (simp add: gc1_def) (simp add: pays_with_def charger_reset_storage_def)
  ultimately show "charge_state env c gc' ts'" using coin by (simp add: charge_state_def)
qed

subsection \<open>Charging conserves SUI\<close>

text \<open>The status can pay: storage fits what is left of the budget, or no storage is charged.\<close>

definition affordable :: "sui_gas_status \<Rightarrow> bool" where
  "affordable s \<longleftrightarrow> sg_computation_cost s \<le> sg_gas_budget s \<and>
     (charge_storage_and_rebate s = Some (Inr ()) \<or> sg_storage_cost s = 0)"

lemma sum_unit_cases: "(r :: 'e + unit) = Inr () \<or> (\<exists>e. r = Inl e)"
  by (cases r) auto

lemma handle_v1_charge_state:
  assumes "handle_storage_and_rebate_v1 env gc ts res = Some (gc', ts', res')"
    and "charge_state env c gc ts" and "sg_computation_cost (gc_gas_status gc) \<le> sg_gas_budget (gc_gas_status gc)"
  shows "charge_state env c gc' ts' \<and> affordable (gc_gas_status gc') \<and> same_inputs ts ts' \<and>
    sg_gas_budget (gc_gas_status gc') = sg_gas_budget (gc_gas_status gc)"
proof -
  from assms(1) obtain r where r: "charge_storage_and_rebate (gc_gas_status gc) = Some r"
    by (auto simp: handle_storage_and_rebate_v1_def bind_eq_Some_conv)
  from sum_unit_cases [of r] show ?thesis
  proof (elim disjE exE)
    assume "r = Inr ()"
    with assms r show ?thesis by (simp add: handle_storage_and_rebate_v1_def affordable_def)
  next
    fix e assume "r = Inl e"
    with assms(1) r have "give_up_on_storage env gc ts = Some (gc', ts')"
      by (auto simp: handle_storage_and_rebate_v1_def bind_eq_Some_conv)
    from give_up_on_storage_settles [OF this assms(2)] show ?thesis by (simp add: affordable_def)
  qed
qed

lemma handle_v2_charge_state:
  assumes "handle_storage_and_rebate_v2 env gc ts res = Some (gc', ts', res')"
    and "charge_state env c gc ts" and "sg_computation_cost (gc_gas_status gc) \<le> sg_gas_budget (gc_gas_status gc)"
  shows "charge_state env c gc' ts' \<and> affordable (gc_gas_status gc') \<and> same_inputs ts ts' \<and>
    sg_gas_budget (gc_gas_status gc') = sg_gas_budget (gc_gas_status gc)"
proof -
  from assms(1) obtain r where r: "charge_storage_and_rebate (gc_gas_status gc) = Some r"
    by (auto simp: handle_storage_and_rebate_v2_def bind_eq_Some_conv)
  from sum_unit_cases [of r] show ?thesis
  proof (elim disjE exE)
    assume "r = Inr ()"
    with assms r show ?thesis by (simp add: handle_storage_and_rebate_v2_def affordable_def)
  next
    fix e assume "r = Inl e"
    with assms(1) r obtain gc0 ts0 ts1 gc2 ts2 r2 where
      reset: "charger_reset gc ts = Some (gc0, ts0)" and ensure: "ensure_active_inputs_mutated ts0 = Some ts1" and
      collect: "collect_storage_and_rebate env ts1 gc0 = Some (gc2, ts2)" and
      r2: "charge_storage_and_rebate (gc_gas_status gc2) = Some r2" and
      rest: "(case r2 of Inl err \<Rightarrow> do { (gc, ts) \<leftarrow> give_up_on_storage env gc2 ts2; Some (gc, ts, or_error err res) }
        | Inr u \<Rightarrow> Some (gc2, ts2, or_error e res)) = Some (gc', ts', res')"
      by (auto simp: handle_storage_and_rebate_v2_def bind_eq_Some_conv)
    have state: "pays_with c gc" "store_inv ts" "c \<in> dom (map_of (ts_mutable_input_refs ts))" "metered gc"
      using assms(2) by (simp_all add: charge_state_def)
    note res = charger_reset_pays [OF reset state(1-3)]
    have refs: "c \<in> dom (map_of (ts_mutable_input_refs ts0))" using res(2) state(3) by (simp add: same_inputs_def)
    have "metered gc0" "pays_with c gc0" "sg_storage_rebate (gc_gas_status gc0) = 0" "sg_storage_cost (gc_gas_status gc0) = 0"
      using state(1,4) by (simp_all add: res(1))
    note again = charge_state_collect [OF ensure collect this(1,2) res(3) refs res(5) this(3,4)]
    have budget: "sg_gas_budget (gc_gas_status gc2) = sg_gas_budget (gc_gas_status gc)"
      "sg_computation_cost (gc_gas_status gc2) = sg_computation_cost (gc_gas_status gc)"
      using again(2) by (auto simp: res(1))
    have same: "same_inputs ts ts2" using res(2) again(3) by (rule same_inputs_trans)
    from sum_unit_cases [of r2] show ?thesis
    proof (elim disjE exE)
      assume "r2 = Inr ()"
      with rest again(1) r2 budget same assms(3) show ?thesis by (simp add: affordable_def)
    next
      fix e2 assume "r2 = Inl e2"
      with rest have "give_up_on_storage env gc2 ts2 = Some (gc', ts')" by (auto simp: bind_eq_Some_conv)
      from give_up_on_storage_settles [OF this again(1)] budget same show ?thesis
        by (auto simp: affordable_def intro: same_inputs_trans)
    qed
  qed
qed

lemma bucketize_computation_Some:
  assumes "bucketize_computation s = Some (r, s')"
  obtains x where "s' = s\<lparr>sg_computation_cost := x\<rparr>" and "x \<le> sg_gas_budget s"
    and "r = Inl InsufficientGas \<or> r = Inr ()"
  using assms
  by (auto simp: bucketize_computation_def bind_eq_Some_conv split: if_splits option.splits)

text \<open>What \<open>charge_gas\<close> needs when execution ends.\<close>

definition ready_to_charge :: "object_id \<Rightarrow> gas_charger \<Rightarrow> temporary_store \<Rightarrow> bool" where
  "ready_to_charge c gc ts \<longleftrightarrow> pays_with c gc \<and> metered gc \<and> store_inv ts \<and>
     sg_storage_rebate (gc_gas_status gc) = 0 \<and> sg_storage_cost (gc_gas_status gc) = 0 \<and>
     c \<in> dom (map_of (ts_mutable_input_refs ts)) \<and>
     (c \<in> set (ts_modified ts) \<longrightarrow> c \<in> dom (map_of (ts_written ts)))"

lemma charge_computation_ready:
  assumes "charge_computation gc ts res = Some (gc', ts', res')" and "ready_to_charge c gc ts"
  shows "ready_to_charge c gc' ts'" and "same_inputs ts ts'"
    and "sg_computation_cost (gc_gas_status gc') \<le> sg_gas_budget (gc_gas_status gc')"
    and "sg_gas_budget (gc_gas_status gc') = sg_gas_budget (gc_gas_status gc)"
proof -
  have ready: "pays_with c gc" "metered gc" "store_inv ts" "c \<in> dom (map_of (ts_mutable_input_refs ts))"
    and coin: "gc_smashed_gas_coin gc = Some c"
    using assms(2) by (auto simp: ready_to_charge_def pays_with_def)
  from assms(1) coin obtain r s where bucket: "bucketize_computation (gc_gas_status gc) = Some (r, s)"
    by (auto simp: charge_computation_def bind_eq_Some_conv)
  obtain x where s: "s = (gc_gas_status gc)\<lparr>sg_computation_cost := x\<rparr>" and x: "x \<le> sg_gas_budget (gc_gas_status gc)"
    using bucketize_computation_Some [OF bucket] by blast
  define gc1 where "gc1 = gc\<lparr>gc_gas_status := s\<rparr>"
  have gc1: "pays_with c gc1" "metered gc1" "sg_gas_budget (gc_gas_status gc1) = sg_gas_budget (gc_gas_status gc)"
    "sg_computation_cost (gc_gas_status gc1) = x" "sg_storage_rebate (gc_gas_status gc1) = 0"
    "sg_storage_cost (gc_gas_status gc1) = 0"
    using ready assms(2) by (simp_all add: gc1_def s pays_with_def ready_to_charge_def)
  from assms(1) coin bucket have
    "(gc', ts') = (gc1, ts) \<or> charger_reset gc1 ts = Some (gc', ts')"
    by (auto simp: charge_computation_def gc1_def [symmetric] bind_eq_Some_conv Let_def split: sum.splits)
  then have "ready_to_charge c gc' ts' \<and> same_inputs ts ts' \<and>
      sg_computation_cost (gc_gas_status gc') = x \<and>
      sg_gas_budget (gc_gas_status gc') = sg_gas_budget (gc_gas_status gc)"
  proof
    assume "(gc', ts') = (gc1, ts)"
    with gc1 assms(2) show ?thesis by (simp add: ready_to_charge_def)
  next
    assume reset: "charger_reset gc1 ts = Some (gc', ts')"
    note res = charger_reset_pays [OF reset gc1(1) ready(3,4)]
    have "c \<in> dom (map_of (ts_mutable_input_refs ts'))" using res(2) ready(4) by (simp add: same_inputs_def)
    with res gc1 show ?thesis by (simp add: ready_to_charge_def)
  qed
  with x show "ready_to_charge c gc' ts'" and "same_inputs ts ts'"
    and "sg_computation_cost (gc_gas_status gc') \<le> sg_gas_budget (gc_gas_status gc')"
    and "sg_gas_budget (gc_gas_status gc') = sg_gas_budget (gc_gas_status gc)"
    by simp_all
qed

text \<open>The stages of a charge with a gas coin.\<close>

lemma charge_gas_decomp:
  assumes "charge_gas env gc ts res = Some (summ, gc', ts', res')" and "ready_to_charge c gc ts"
  obtains gc1 ts1 res1 ts2 gc3 ts3 ts4 where
    "charge_computation gc ts res = Some (gc1, ts1, res1)"
    and "ensure_active_inputs_mutated ts1 = Some ts2"
    and "collect_storage_and_rebate env ts2 gc1 = Some (gc3, ts3)"
    and "handle_storage_and_rebate_v1 env gc3 ts3 res1 = Some (gc', ts4, res') \<or>
      handle_storage_and_rebate_v2 env gc3 ts3 res1 = Some (gc', ts4, res')"
    and "deduct_from_gas_coin gc' ts4 c = Some (summ, ts')"
    and "charge_state env c gc3 ts3" and "same_inputs ts ts3" and "ready_to_charge c gc1 ts1"
    and "\<exists>r k. gc3 = add_storage r k gc1"
    and "sg_computation_cost (gc_gas_status gc3) \<le> sg_gas_budget (gc_gas_status gc3)"
    and "sg_gas_budget (gc_gas_status gc3) = sg_gas_budget (gc_gas_status gc)"
proof -
  from assms(1) obtain gc1 ts1 res1 ts2 gc3 ts3 where
    comp: "charge_computation gc ts res = Some (gc1, ts1, res1)" and
    ensure: "ensure_active_inputs_mutated ts1 = Some ts2" and
    collect: "collect_storage_and_rebate env ts2 gc1 = Some (gc3, ts3)" and
    rest: "(case gc_smashed_gas_coin gc3 of
        Some gas_object_id \<Rightarrow> do {
          (gc, ts, res) \<leftarrow>
            (if dont_charge_budget_on_storage_oog (gc_gas_model_version gc3)
             then handle_storage_and_rebate_v2 env gc3 ts3 res1
             else handle_storage_and_rebate_v1 env gc3 ts3 res1);
          (cost_summary, ts) \<leftarrow> deduct_from_gas_coin gc ts gas_object_id;
          Some (cost_summary, gc, ts, res)
        }
      | None \<Rightarrow> Some (summary_default, gc3, ts3, res1)) = Some (summ, gc', ts', res')"
    unfolding charge_gas_def by (auto simp: bind_eq_Some_conv)
  note ready = charge_computation_ready [OF comp assms(2)]
  have r1: "metered gc1" "pays_with c gc1" "store_inv ts1" "c \<in> dom (map_of (ts_mutable_input_refs ts1))"
    "c \<in> set (ts_modified ts1) \<Longrightarrow> c \<in> dom (map_of (ts_written ts1))"
    "sg_storage_rebate (gc_gas_status gc1) = 0" "sg_storage_cost (gc_gas_status gc1) = 0"
    using ready(1) by (simp_all add: ready_to_charge_def)
  note state = charge_state_collect [OF ensure collect r1]
  have coin: "gc_smashed_gas_coin gc3 = Some c" using state(1) by (simp add: charge_state_def pays_with_def)
  from rest coin obtain ts4 where
    either: "(if dont_charge_budget_on_storage_oog (gc_gas_model_version gc3)
      then handle_storage_and_rebate_v2 env gc3 ts3 res1
      else handle_storage_and_rebate_v1 env gc3 ts3 res1) = Some (gc', ts4, res')" and
    deduct: "deduct_from_gas_coin gc' ts4 c = Some (summ, ts')"
    by (auto simp: bind_eq_Some_conv)
  from either have handled: "handle_storage_and_rebate_v1 env gc3 ts3 res1 = Some (gc', ts4, res') \<or>
      handle_storage_and_rebate_v2 env gc3 ts3 res1 = Some (gc', ts4, res')"
    by (cases "dont_charge_budget_on_storage_oog (gc_gas_model_version gc3)") simp_all
  have budget: "sg_computation_cost (gc_gas_status gc3) \<le> sg_gas_budget (gc_gas_status gc3)"
    "sg_gas_budget (gc_gas_status gc3) = sg_gas_budget (gc_gas_status gc)"
    using state(2) ready(3,4) by auto
  from that [OF comp ensure collect handled deduct state(1) same_inputs_trans [OF ready(2) state(3)]
      ready(1) state(2) budget]
  show ?thesis .
qed

lemma charge_gas_stages:
  assumes "charge_gas env gc ts res = Some (summ, gc', ts', res')" and "ready_to_charge c gc ts"
  obtains ts1 where "charge_state env c gc' ts1" and "affordable (gc_gas_status gc')"
    and "deduct_from_gas_coin gc' ts1 c = Some (summ, ts')" and "same_inputs ts ts1"
    and "sg_gas_budget (gc_gas_status gc') = sg_gas_budget (gc_gas_status gc)"
proof -
  obtain gc1 ts1 res1 ts2 gc3 ts3 ts4 where
    "charge_computation gc ts res = Some (gc1, ts1, res1)" and
    "ensure_active_inputs_mutated ts1 = Some ts2" and
    "collect_storage_and_rebate env ts2 gc1 = Some (gc3, ts3)" and
    handled: "handle_storage_and_rebate_v1 env gc3 ts3 res1 = Some (gc', ts4, res') \<or>
      handle_storage_and_rebate_v2 env gc3 ts3 res1 = Some (gc', ts4, res')" and
    deduct: "deduct_from_gas_coin gc' ts4 c = Some (summ, ts')" and
    state: "charge_state env c gc3 ts3" and same: "same_inputs ts ts3" and
    "ready_to_charge c gc1 ts1" and "\<exists>r k. gc3 = add_storage r k gc1" and
    budget: "sg_computation_cost (gc_gas_status gc3) \<le> sg_gas_budget (gc_gas_status gc3)"
    "sg_gas_budget (gc_gas_status gc3) = sg_gas_budget (gc_gas_status gc)"
    by (rule charge_gas_decomp [OF assms])
  from handled have "charge_state env c gc' ts4 \<and> affordable (gc_gas_status gc') \<and> same_inputs ts3 ts4 \<and>
      sg_gas_budget (gc_gas_status gc') = sg_gas_budget (gc_gas_status gc3)"
  proof
    assume "handle_storage_and_rebate_v1 env gc3 ts3 res1 = Some (gc', ts4, res')"
    from handle_v1_charge_state [OF this state budget(1)] show ?thesis .
  next
    assume "handle_storage_and_rebate_v2 env gc3 ts3 res1 = Some (gc', ts4, res')"
    from handle_v2_charge_state [OF this state budget(1)] show ?thesis .
  qed
  with that [OF _ _ deduct] budget(2) same_inputs_trans [OF same] show ?thesis by simp
qed

lemma gas_summary_Some:
  assumes "gas_summary s = Some summ"
  shows "gs_storage_rebate summ + gs_non_refundable_storage_fee summ = sg_storage_rebate s"
    and "gs_storage_cost summ = sg_storage_cost s" and "gs_computation_cost summ = sg_computation_cost s"
    and "sender_rebate (sg_storage_rebate s) (sg_rebate_rate s) = Some (gs_storage_rebate summ)"
  using assms by (auto simp: gas_summary_def bind_eq_Some_conv checked_sub_def split: if_splits)

lemma deduct_from_gas_coin_conserves:
  assumes "deduct_from_gas_coin gc ts c = Some (summ, ts')" and "charge_state env c gc ts"
    and "\<And>ob ob' n. deduct_gas_coin ob n = Some ob' \<Longrightarrow>
      o_storage_rebate ob' = o_storage_rebate ob \<and> object_id_of ob' = object_id_of ob"
  shows "check_sui_conserved env ts' True summ = Some (Inr ())"
proof -
  have state: "settled env gc ts" "store_inv ts" "c \<in> set (ts_modified ts)"
    and inv: "results_inv (ts_execution_results ts)" and filed: "filed (ts_written ts)"
    using assms(2) by (simp_all add: charge_state_def store_inv_def results_inv_def)
  from assms(2) obtain ob where ob: "map_of (ts_written ts) c = Some ob" by (auto simp: charge_state_def)
  from assms(1) obtain n ob' where summ: "gas_summary (gc_gas_status gc) = Some summ"
    and ob': "deduct_gas_coin ob n = Some ob'" and ts': "mutate_input_object ob' ts = Some ts'"
    by (auto simp: deduct_from_gas_coin_def bind_eq_Some_conv read_object_def ob)
  have id: "object_id_of ob' = Some c" and rebate: "o_storage_rebate ob' = o_storage_rebate ob"
    using assms(3) [OF ob'] ob filed by (simp_all add: filed_def)
  have put: "ts' = put_object c ob' ts" using ts' id by (simp add: mutate_input_object_eq)
  note post = put_object_post [OF inv, where i = c and ob = ob']
  have modified: "ts_modified ts' = ts_modified ts"
    using state(3) by (simp add: put put_object_def update_results_def write_object_def mark_modified_def
        bitmap_insert_present)
  have out: "total_output_rebate ts' = total_output_rebate ts"
    using map_values_btree_replace [of "ts_written ts" c ob o_storage_rebate ob'] ob rebate filed
    by (simp add: total_output_rebate_def put put_object_def update_results_def write_object_def
        mark_modified_def filed_def)
  note totals = totals_same [OF post(4,5) modified [unfolded put], of env, folded put]
  have inv': "results_inv (ts_execution_results ts')" using post(3) [OF id] by (simp add: put)
  have known: "modified_known env ts'" using state(1) totals(2) by (simp add: settled_def)
  show ?thesis
    unfolding check_sui_conserved_eq [OF inv' known]
    using state(1) gas_summary_Some [OF summ] totals(1) out
    by (auto simp: settled_def add.assoc)
qed

text \<open>
  How a transaction reaches \<open>charge_gas\<close>: its store is created from its loaded inputs, the gas
  coins are smashed, execution works on the store and charges computation to the gas status,
  and leaves the storage counters at zero and the paying coin in place.
\<close>

definition executed ::
  "object_env \<Rightarrow> input_objects \<Rightarrow> gas_charger \<Rightarrow> object_id \<Rightarrow> gas_charger \<Rightarrow> temporary_store \<Rightarrow> bool" where
  "executed env inputs gc0 c gc ts \<longleftrightarrow>
     (\<exists>store receiving tx_digest config ts0 gc1 ts1.
        temporary_store_new env store inputs receiving tx_digest config = Some ts0 \<and>
        smash_gas gc0 ts0 = Some (gc1, ts1) \<and> gc_smashed_gas_coin gc1 = Some c \<and>
        store_run env ts1 ts \<and> c \<in> dom (map_of (ts_mutable_input_refs ts0)) \<and>
        gc_gas_coins gc = gc_gas_coins gc1 \<and> gc_smashed_gas_coin gc = gc_smashed_gas_coin gc1) \<and>
     inputs_loaded inputs \<and> gc_smashed_gas_coin gc0 = None \<and>
     sg_charge (gc_gas_status gc) \<and>
     sg_storage_rebate (gc_gas_status gc) = 0 \<and> sg_storage_cost (gc_gas_status gc) = 0 \<and>
     (c \<in> set (ts_modified ts) \<longrightarrow> c \<in> dom (map_of (ts_written ts)))"

lemma executedI:
  assumes "temporary_store_new env store inputs receiving tx_digest config = Some ts0"
    and "smash_gas gc0 ts0 = Some (gc1, ts1)" and "gc_smashed_gas_coin gc1 = Some c"
    and "store_run env ts1 ts" and "c \<in> dom (map_of (ts_mutable_input_refs ts0))"
    and "gc_gas_coins gc = gc_gas_coins gc1" and "gc_smashed_gas_coin gc = gc_smashed_gas_coin gc1"
    and "inputs_loaded inputs" and "gc_smashed_gas_coin gc0 = None" and "sg_charge (gc_gas_status gc)"
    and "sg_storage_rebate (gc_gas_status gc) = 0" and "sg_storage_cost (gc_gas_status gc) = 0"
    and "c \<in> dom (map_of (ts_written ts))"
  shows "executed env inputs gc0 c gc ts"
  unfolding executed_def using assms by blast

lemma smash_gas_first:
  assumes "smash_gas gc ts = Some (gc', ts')" and "gc_smashed_gas_coin gc = None"
    and "gc_smashed_gas_coin gc' = Some c"
  shows "pays_with c gc'"
  using assms by (auto simp: smash_gas_def pays_with_def bind_eq_Some_conv Let_def split: list.splits if_splits)

lemma smash_gas_inv:
  assumes "smash_gas gc ts = Some (gc', ts')" and "store_inv ts"
  shows "store_inv ts' \<and> same_inputs ts ts'"
proof -
  consider "ts' = ts" | ob and others :: "object_ref list" where "mutate_input_object ob
      (fold (\<lambda>r. delete_input_object (fst r)) others ts) = Some ts'"
    using assms(1)
    by (auto simp: smash_gas_def bind_eq_Some_conv Let_def split: list.splits if_splits)
  then show ?thesis
  proof cases
    case (2 ob others)
    with mutate_input_object_inv [OF 2] fold_delete_post [of others ts] assms(2) show ?thesis
      by (auto intro: same_inputs_trans)
  qed (use assms(2) in simp)
qed

lemma executed_ready: "executed env inputs gc0 c gc ts \<Longrightarrow> ready_to_charge c gc ts"
proof -
  assume exec: "executed env inputs gc0 c gc ts"
  then obtain store receiving tx_digest config ts0 gc1 ts1 where
    new: "temporary_store_new env store inputs receiving tx_digest config = Some ts0" and
    smash: "smash_gas gc0 ts0 = Some (gc1, ts1)" "gc_smashed_gas_coin gc1 = Some c" and
    run: "store_run env ts1 ts" and refs: "c \<in> dom (map_of (ts_mutable_input_refs ts0))" and
    same: "gc_gas_coins gc = gc_gas_coins gc1" "gc_smashed_gas_coin gc = gc_smashed_gas_coin gc1" and
    loaded: "inputs_loaded inputs" and fresh: "gc_smashed_gas_coin gc0 = None"
    unfolding executed_def by blast
  have "pays_with c gc"
    using smash_gas_first [OF smash(1) fresh smash(2)] same by (simp add: pays_with_def)
  moreover have inv: "store_inv ts" and "same_inputs ts0 ts"
    using temporary_store_new_inv [OF new loaded] smash_gas_inv [OF smash(1)] store_run_inv [OF run]
    by (auto intro: same_inputs_trans)
  moreover have "c \<in> dom (map_of (ts_mutable_input_refs ts))"
    using refs \<open>same_inputs ts0 ts\<close> by (simp add: same_inputs_def)
  ultimately show ?thesis using exec by (simp add: executed_def ready_to_charge_def)
qed

lemma deduct_gas_coin_keeps:
  "deduct_gas_coin ob n = Some ob' \<Longrightarrow>
     o_storage_rebate ob' = o_storage_rebate ob \<and> object_id_of ob' = object_id_of ob"
  by (cases "o_data ob")
    (auto simp: deduct_gas_coin_def bind_eq_Some_conv object_id_of_def dest: get_set_coin_value(2))

text \<open>
  C2.  Whatever a transaction did to its store, whether it succeeded, failed or ran out of gas
  for computation or for storage, and in both variants of the out-of-gas handling: when
  \<open>charge_gas\<close> returns, \<open>check_sui_conserved\<close> accepts the store with the summary it returned.
  The rebates of all modified objects went to the sender's rebate and the non-refundable fee,
  and the storage charged is exactly what the written objects now hold (or, when no storage
  could be charged, everything written kept its old rebate).
\<close>

theorem charge_gas_conserves_sui:
  assumes "executed env inputs gc0 c gc ts"
    and "charge_gas env gc ts res = Some (summ, gc', ts', res')"
  shows "check_sui_conserved env ts' True summ = Some (Inr ())"
proof -
  obtain ts1 where "charge_state env c gc' ts1" "deduct_from_gas_coin gc' ts1 c = Some (summ, ts')"
    using charge_gas_stages [OF assms(2) executed_ready [OF assms(1)]] by blast
  then show ?thesis
    using deduct_from_gas_coin_conserves deduct_gas_coin_keeps by blast
qed

definition sample_charger :: gas_charger where
  "sample_charger = \<lparr>gc_tx_digest = 42, gc_gas_model_version = 8, gc_gas_coins = [(8, 3, 9), (9, 3, 9)],
     gc_smashed_gas_coin = None, gc_gas_status = sample_status 0\<rparr>"

definition sample_smashed :: "gas_charger \<times> temporary_store" where
  "sample_smashed = the (smash_gas sample_charger sample_store)"

lemma sample_smash: "smash_gas sample_charger sample_store = Some sample_smashed"
proof -
  have "\<not> Option.is_none (smash_gas sample_charger sample_store)" by code_simp
  then show ?thesis by (cases "smash_gas sample_charger sample_store") (simp_all add: sample_smashed_def)
qed

lemma sample_executed:
  "executed sample_env sample_inputs sample_charger 8 (fst sample_smashed) (snd sample_smashed)"
proof (rule executedI [OF sample_store_new])
  show "smash_gas sample_charger sample_store = Some (fst sample_smashed, snd sample_smashed)"
    by (simp add: sample_smash)
  show "store_run sample_env (snd sample_smashed) (snd sample_smashed)" by (rule run_refl)
  show "8 \<in> dom (map_of (ts_mutable_input_refs sample_store))" by (simp add: sample_store_def)
  show "gc_smashed_gas_coin sample_charger = None" by (simp add: sample_charger_def)
  have "\<not> Option.is_none (map_of (ts_written (snd sample_smashed)) 8)" by code_simp
  then show "8 \<in> dom (map_of (ts_written (snd sample_smashed)))" by (auto simp: Option.is_none_def)
  show "gc_smashed_gas_coin (fst sample_smashed) = Some 8" by code_simp
  show "sg_charge (gc_gas_status (fst sample_smashed))" by code_simp
  show "sg_storage_rebate (gc_gas_status (fst sample_smashed)) = 0" by code_simp
  show "sg_storage_cost (gc_gas_status (fst sample_smashed)) = 0" by code_simp
qed (simp_all add: sample_inputs_loaded)

lemma sample_charged:
  "\<exists>summ gc ts res. charge_gas sample_env (fst sample_smashed) (snd sample_smashed)
      (Inr () :: execution_error_kind + unit) = Some (summ, gc, ts, res)"
proof -
  have "\<not> Option.is_none (charge_gas sample_env (fst sample_smashed) (snd sample_smashed)
      (Inr () :: execution_error_kind + unit))"
    by code_simp
  then show ?thesis by (auto simp: Option.is_none_def)
qed

theorem charge_gas_conserves_sui_witness:
  "\<exists>summ gc ts res. charge_gas sample_env (fst sample_smashed) (snd sample_smashed)
      (Inr () :: execution_error_kind + unit) = Some (summ, gc, ts, res) \<and>
    check_sui_conserved sample_env ts True summ = Some (Inr ())"
proof -
  obtain summ gc ts res where r: "charge_gas sample_env (fst sample_smashed) (snd sample_smashed)
      (Inr () :: execution_error_kind + unit) = Some (summ, gc, ts, res)"
    using sample_charged by blast
  with charge_gas_conserves_sui [OF sample_executed r] show ?thesis by blast
qed

subsection \<open>The budget bounds the charge\<close>

lemma affordable_bound:
  assumes "affordable s" and "gas_summary s = Some summ"
  shows "unat (gs_computation_cost summ) \<le> unat (sg_gas_budget s)"
    and "unat (gs_computation_cost summ) + unat (gs_storage_cost summ) \<le>
      unat (sg_gas_budget s) + unat (gs_storage_rebate summ)"
proof -
  note summ = gas_summary_Some [OF assms(2)]
  show comp: "unat (gs_computation_cost summ) \<le> unat (sg_gas_budget s)"
    using assms(1) summ(3) by (simp add: affordable_def word_le_nat_alt)
  from assms(1) summ(4) consider "sg_storage_cost s = 0" | "sg_storage_cost s \<le> gs_storage_rebate summ"
    | left due where "checked_sub (sg_gas_budget s) (sg_computation_cost s) = Some left"
      "checked_sub (sg_storage_cost s) (gs_storage_rebate summ) = Some due" "\<not> left < due"
    by (auto simp: affordable_def charge_storage_and_rebate_def bind_eq_Some_conv split: if_splits)
  then show "unat (gs_computation_cost summ) + unat (gs_storage_cost summ) \<le>
      unat (sg_gas_budget s) + unat (gs_storage_rebate summ)"
    by cases (use comp summ in \<open>simp_all add: word_le_nat_alt word_less_nat_alt checked_sub_eq_Some\<close>)
qed

text \<open>
  C11.  Whatever happened during execution, the computation cost in the summary never exceeds the
  budget of the transaction, and computation and storage together exceed it by at most the
  rebate: the sender never pays more than the budget out of the coins provided.
\<close>

theorem charges_stay_within_budget:
  assumes "executed env inputs gc0 c gc ts" and "charge_gas env gc ts res = Some (summ, gc', ts', res')"
  shows "unat (gs_computation_cost summ) \<le> unat (sg_gas_budget (gc_gas_status gc)) \<and>
    unat (gs_computation_cost summ) + unat (gs_storage_cost summ) \<le>
      unat (sg_gas_budget (gc_gas_status gc)) + unat (gs_storage_rebate summ)"
proof -
  obtain ts1 where ts1: "affordable (gc_gas_status gc')" "deduct_from_gas_coin gc' ts1 c = Some (summ, ts')"
    "sg_gas_budget (gc_gas_status gc') = sg_gas_budget (gc_gas_status gc)"
    using charge_gas_stages [OF assms(2) executed_ready [OF assms(1)]] by blast
  then have "gas_summary (gc_gas_status gc') = Some summ"
    by (auto simp: deduct_from_gas_coin_def bind_eq_Some_conv)
  from affordable_bound [OF ts1(1) this] ts1(3) show ?thesis by simp
qed

theorem charges_stay_within_budget_witness:
  "\<exists>summ gc ts res. charge_gas sample_env (fst sample_smashed) (snd sample_smashed)
      (Inr () :: execution_error_kind + unit) = Some (summ, gc, ts, res) \<and>
    unat (gs_computation_cost summ) + unat (gs_storage_cost summ) \<le> 100000 + unat (gs_storage_rebate summ)"
proof -
  have "sg_gas_budget (gc_gas_status (fst sample_smashed)) = 100000" by code_simp
  then have budget: "unat (sg_gas_budget (gc_gas_status (fst sample_smashed))) = 100000" by simp
  obtain summ gc ts res where r: "charge_gas sample_env (fst sample_smashed) (snd sample_smashed)
      (Inr () :: execution_error_kind + unit) = Some (summ, gc, ts, res)"
    using sample_charged by blast
  from charges_stay_within_budget [OF sample_executed r] r show ?thesis unfolding budget by blast
qed

end
