(* ===== verification/Failed_Transactions.thy ===== *)
theory Failed_Transactions
  imports Gas_Charger
begin

text \<open>
  What a failed transaction leaves behind.  When execution failed, or gas for computation or
  storage ran out, \<open>charge_gas\<close> of \<open>src/sui-execution/latest/sui-adapter/src/gas_charger.rs\<close> resets
  the store, smashes the gas coins again and charges.  The theorems show that then only the gas
  coins change and that no SUI is created or lost, with the check of
  \<open>check_sui_conserved_expensive\<close>.
\<close>

subsection \<open>A failed transaction changes nothing but the gas coins\<close>

text \<open>Equal up to the storage rebates of the written objects.\<close>

definition same_writes :: "temporary_store \<Rightarrow> temporary_store \<Rightarrow> bool" where
  "same_writes ts ts' \<longleftrightarrow> same_inputs ts ts' \<and> ts_modified ts' = ts_modified ts \<and>
     list_all2 (\<lambda>e e'. fst e' = fst e \<and> same_but_rebate (snd e) (snd e')) (ts_written ts) (ts_written ts')"

text \<open>The store was reset, the gas coins smashed again and the other inputs mutated as they were.\<close>

definition rolled_back :: "object_ref list \<Rightarrow> temporary_store \<Rightarrow> temporary_store \<Rightarrow> bool" where
  "rolled_back coins ts ts' \<longleftrightarrow> (\<exists>gc1 gc2 ts1 ts2 ts3. gc_gas_coins gc1 = coins \<and>
     (\<exists>c. pays_with c gc1) \<and> store_inv ts1 \<and> same_inputs ts ts1 \<and>
     charger_reset gc1 ts1 = Some (gc2, ts2) \<and>
     ensure_active_inputs_mutated ts2 = Some ts3 \<and> same_writes ts3 ts')"

lemma same_but_rebate_refl [simp]: "same_but_rebate ob ob"
  by (simp add: same_but_rebate_def)

lemma same_writes_refl [simp]: "same_writes ts ts"
  by (auto simp: same_writes_def list_all2_conv_all_nth)

lemma rolled_backI:
  assumes "charger_reset gc1 ts1 = Some (gc2, ts2)" and "ensure_active_inputs_mutated ts2 = Some ts3"
    and "same_writes ts3 ts'" and "pays_with c gc1" and "store_inv ts1" and "same_inputs ts ts1"
    and "gc_gas_coins gc1 = coins"
  shows "rolled_back coins ts ts'"
  unfolding rolled_back_def using assms by blast

lemma rolled_back_trans: "rolled_back coins ts1 ts2 \<Longrightarrow> same_inputs ts ts1 \<Longrightarrow> rolled_back coins ts ts2"
  unfolding rolled_back_def by (blast intro: same_inputs_trans)

lemma collect_same_writes:
  assumes "collect_storage_and_rebate env ts gc = Some (gc', ts')" and "metered gc" and "store_inv ts"
  shows "same_writes ts ts'"
proof -
  have "results_inv (ts_execution_results ts)" using assms(3) by (simp add: store_inv_def)
  from collect_storage_and_rebate_metered(2) [OF assms(1,2) this] show ?thesis
    by (auto simp: same_writes_def update_results_def same_inputs_def)
qed

lemma give_up_rolled_back:
  assumes "give_up_on_storage env gc ts = Some (gc', ts')" and "charge_state env c gc ts"
  shows "rolled_back (gc_gas_coins gc) ts ts'"
proof -
  have state: "pays_with c gc" "store_inv ts" using assms(2) by (simp_all add: charge_state_def)
  from assms(1) obtain gc0 ts0 where "charger_reset gc ts = Some (gc0, ts0)"
    "ensure_active_inputs_mutated ts0 = Some ts'"
    by (auto simp: give_up_on_storage_def bind_eq_Some_conv Let_def)
  from rolled_backI [OF this same_writes_refl state same_inputs_refl refl] show ?thesis .
qed

lemma handle_v1_failed:
  assumes "handle_storage_and_rebate_v1 env gc ts res = Some (gc', ts', res')" and "charge_state env c gc ts"
  shows "(ts' = ts \<and> res' = res) \<or> rolled_back (gc_gas_coins gc) ts ts'"
proof -
  from assms(1) obtain r where r: "charge_storage_and_rebate (gc_gas_status gc) = Some r"
    by (auto simp: handle_storage_and_rebate_v1_def bind_eq_Some_conv)
  have "(ts' = ts \<and> res' = res) \<or> give_up_on_storage env gc ts = Some (gc', ts')"
    using assms(1) r sum_unit_cases [of r]
    by (auto simp: handle_storage_and_rebate_v1_def bind_eq_Some_conv)
  with give_up_rolled_back [OF _ assms(2)] show ?thesis by blast
qed

lemma handle_v2_failed:
  assumes "handle_storage_and_rebate_v2 env gc ts res = Some (gc', ts', res')" and "charge_state env c gc ts"
  shows "(ts' = ts \<and> res' = res) \<or> rolled_back (gc_gas_coins gc) ts ts'"
proof -
  from assms(1) obtain r where r: "charge_storage_and_rebate (gc_gas_status gc) = Some r"
    by (auto simp: handle_storage_and_rebate_v2_def bind_eq_Some_conv)
  from sum_unit_cases [of r] show ?thesis
  proof (elim disjE exE)
    assume "r = Inr ()"
    with assms r show ?thesis by (simp add: handle_storage_and_rebate_v2_def)
  next
    fix e assume "r = Inl e"
    with assms(1) r obtain gc0 ts0 ts1 gc2 ts2 r2 where
      reset: "charger_reset gc ts = Some (gc0, ts0)" and ensure: "ensure_active_inputs_mutated ts0 = Some ts1" and
      collect: "collect_storage_and_rebate env ts1 gc0 = Some (gc2, ts2)" and
      r2: "charge_storage_and_rebate (gc_gas_status gc2) = Some r2" and
      rest: "(case r2 of Inl err \<Rightarrow> do { (gc, ts) \<leftarrow> give_up_on_storage env gc2 ts2; Some (gc, ts, or_error err res) }
        | Inr u \<Rightarrow> Some (gc2, ts2, or_error e res)) = Some (gc', ts', res')"
      by (auto simp: handle_storage_and_rebate_v2_def bind_eq_Some_conv)
    have state: "pays_with c gc" "store_inv ts" "c \<in> dom (map_of (ts_mutable_input_refs ts))" "metered gc"
      using assms(2) by (simp_all add: charge_state_def)
    note res = charger_reset_pays [OF reset state(1-3)]
    have refs: "c \<in> dom (map_of (ts_mutable_input_refs ts0))" using res(2) state(3) by (simp add: same_inputs_def)
    have gc0: "metered gc0" "pays_with c gc0" "sg_storage_rebate (gc_gas_status gc0) = 0"
      "sg_storage_cost (gc_gas_status gc0) = 0" "gc_gas_coins gc0 = gc_gas_coins gc"
      using state(1,4) by (simp_all add: res(1)) (simp add: charger_reset_storage_def)
    note again = charge_state_collect [OF ensure collect gc0(1,2) res(3) refs res(5) gc0(3,4)]
    have coins: "gc_gas_coins gc2 = gc_gas_coins gc" using again(2) gc0(5) by (auto simp: add_storage_def)
    have inv: "store_inv ts1" using ensure_active_inputs_mutated_inv [OF ensure] res(3) by blast
    have rolled: "rolled_back (gc_gas_coins gc) ts ts2"
      by (rule rolled_backI [OF reset ensure collect_same_writes [OF collect gc0(1) inv] state(1,2)]) simp_all
    have same: "same_inputs ts ts2" using res(2) again(3) by (rule same_inputs_trans)
    from rest sum_unit_cases [of r2] have "ts' = ts2 \<or> give_up_on_storage env gc2 ts2 = Some (gc', ts')"
      by (auto simp: bind_eq_Some_conv)
    with rolled give_up_rolled_back [OF _ again(1)] coins rolled_back_trans [OF _ same] show ?thesis
      by metis
  qed
qed

lemma charge_computation_cases:
  assumes "charge_computation gc ts res = Some (gc1, ts1, res1)" and "pays_with c gc"
  obtains (kept) s x where "gc1 = gc\<lparr>gc_gas_status := s\<rparr>" and "ts1 = ts" and "res1 = Inr x"
  | (failed) s e where "charger_reset (gc\<lparr>gc_gas_status := s\<rparr>) ts = Some (gc1, ts1)" and "res1 = Inl e"
proof -
  from assms obtain r s where bucket: "bucketize_computation (gc_gas_status gc) = Some (r, s)"
    by (auto simp: charge_computation_def pays_with_def bind_eq_Some_conv)
  define res' where "res' = (case r of Inl err \<Rightarrow> or_error err res | Inr u \<Rightarrow> res)"
  then show ?thesis
    using assms bucket that
    by (cases res')
      (auto simp: charge_computation_def pays_with_def Let_def bind_eq_Some_conv res'_def [symmetric])
qed

lemma charge_computation_coins:
  assumes "charge_computation gc ts res = Some (gc1, ts1, res1)" and "pays_with c gc"
  shows "gc_gas_coins gc1 = gc_gas_coins gc"
  using assms
proof (cases rule: charge_computation_cases)
  case (failed s e)
  then show ?thesis
    by (auto simp: charger_reset_def charger_reset_storage_def smash_gas_def bind_eq_Some_conv Let_def
        split: list.splits if_splits)
qed simp

lemma charge_computation_failed:
  assumes "charge_computation gc ts res = Some (gc1, ts1, Inl e)" and "pays_with c gc"
  obtains gc0 where "charger_reset gc0 ts = Some (gc1, ts1)" and "pays_with c gc0"
    and "gc_gas_coins gc0 = gc_gas_coins gc"
proof -
  from assms obtain s where "charger_reset (gc\<lparr>gc_gas_status := s\<rparr>) ts = Some (gc1, ts1)"
    by (cases rule: charge_computation_cases) auto
  with that [of "gc\<lparr>gc_gas_status := s\<rparr>"] assms(2) show ?thesis by (simp add: pays_with_def)
qed

lemma charge_gas_failed:
  assumes "charge_gas env gc ts res = Some (summ, gc', ts', Inl e)" and "ready_to_charge c gc ts"
  obtains ts1 where "rolled_back (gc_gas_coins gc) ts ts1" and "charge_state env c gc' ts1"
    and "deduct_from_gas_coin gc' ts1 c = Some (summ, ts')"
proof -
  obtain gc1 ts1 res1 ts2 gc3 ts3 ts4 where
    comp: "charge_computation gc ts res = Some (gc1, ts1, res1)" and
    ensure: "ensure_active_inputs_mutated ts1 = Some ts2" and
    collect: "collect_storage_and_rebate env ts2 gc1 = Some (gc3, ts3)" and
    handled: "handle_storage_and_rebate_v1 env gc3 ts3 res1 = Some (gc', ts4, Inl e) \<or>
      handle_storage_and_rebate_v2 env gc3 ts3 res1 = Some (gc', ts4, Inl e)" and
    deduct: "deduct_from_gas_coin gc' ts4 c = Some (summ, ts')" and
    state: "charge_state env c gc3 ts3" and same: "same_inputs ts ts3" and
    ready: "ready_to_charge c gc1 ts1" and add: "\<exists>r k. gc3 = add_storage r k gc1" and
    budget: "sg_computation_cost (gc_gas_status gc3) \<le> sg_gas_budget (gc_gas_status gc3)"
    "sg_gas_budget (gc_gas_status gc3) = sg_gas_budget (gc_gas_status gc)"
    by (rule charge_gas_decomp [OF assms])
  have pays: "pays_with c gc" "store_inv ts" using assms(2) by (simp_all add: ready_to_charge_def)
  have coins: "gc_gas_coins gc3 = gc_gas_coins gc"
    using add charge_computation_coins [OF comp pays(1)] by (auto simp: add_storage_def)
  have charged: "charge_state env c gc' ts4"
    and outcome: "(ts4 = ts3 \<and> res1 = Inl e) \<or> rolled_back (gc_gas_coins gc) ts3 ts4"
    using handled handle_v1_charge_state [OF _ state budget(1)] handle_v2_charge_state [OF _ state budget(1)]
      handle_v1_failed [OF _ state] handle_v2_failed [OF _ state] coins by metis+
  from outcome have "rolled_back (gc_gas_coins gc) ts ts4"
  proof
    assume failed: "ts4 = ts3 \<and> res1 = Inl e"
    with charge_computation_failed [of gc ts res gc1 ts1 e c] comp pays(1) obtain gc0 where
      gc0: "charger_reset gc0 ts = Some (gc1, ts1)" "pays_with c gc0" "gc_gas_coins gc0 = gc_gas_coins gc"
      by metis
    have "metered gc1" "store_inv ts2"
      using ready ensure_active_inputs_mutated_inv [OF ensure] by (auto simp: ready_to_charge_def)
    from rolled_backI [OF gc0(1) ensure collect_same_writes [OF collect this] gc0(2) pays(2) same_inputs_refl gc0(3)]
    show ?thesis using failed by simp
  qed (use same rolled_back_trans in blast)
  from that [OF this charged deduct] show ?thesis .
qed

text \<open>The gas coins of a charger among the inputs: distinct mutable inputs, all of them gas coins.\<close>

definition coins_ok :: "object_ref list \<Rightarrow> u64 list \<Rightarrow> temporary_store \<Rightarrow> bool" where
  "coins_ok coins vals ts \<longleftrightarrow> distinct (map fst coins) \<and>
     fst ` set coins \<subseteq> dom (map_of (ts_mutable_input_refs ts)) \<and>
     those (map (gas_coin_value ts) coins) = Some vals"

definition gas_coin_holds :: "sui_object \<Rightarrow> u64 \<Rightarrow> bool" where
  "gas_coin_holds ob v \<longleftrightarrow> (\<exists>m. o_data ob = Move m \<and> is_gas_coin (mo_type m) \<and> get_coin_value_unsafe m = Some v)"

lemma gas_coin_value_holds:
  "gas_coin_value ts r = Some v \<longleftrightarrow>
     (\<exists>ob. map_of (ts_input_objects ts) (fst r) = Some ob \<and> gas_coin_holds ob v)"
  unfolding gas_coin_value_def gas_coin_holds_def
  by (auto simp: bind_eq_Some_conv) (metis obj_data.exhaust option.distinct(1) option.inject try_as_move.simps)+

text \<open>
  The store after smashing on a clean store: the first coin holds the value of all coins, the
  others are gone, and nothing else is touched.
\<close>

definition smashed_clean :: "object_ref list \<Rightarrow> u64 list \<Rightarrow> temporary_store \<Rightarrow> temporary_store \<Rightarrow> bool" where
  "smashed_clean coins vals ts ts' \<longleftrightarrow> same_inputs ts ts' \<and> store_inv ts' \<and>
     (if length coins = 1 then ts_written ts' = [] \<and> ts_modified ts' = []
      else set (ts_modified ts') = fst ` set coins \<and>
        (\<exists>ob. map_of (ts_written ts') = [fst (hd coins) \<mapsto> ob] \<and> gas_coin_holds ob (sum_list vals)))"

lemma charger_reset_smashed_clean:
  assumes "charger_reset gc ts = Some (gc', ts')" and "pays_with c gc" and "store_inv ts"
    and "coins_ok (gc_gas_coins gc) vals ts"
  shows "smashed_clean (gc_gas_coins gc) vals ts ts'"
proof -
  let ?ts = "drop_writes ts"
  have drop: "ts_written ?ts = []" "ts_modified ?ts = []" "ts_input_objects ?ts = ts_input_objects ts"
    by (simp_all add: drop_writes_def update_results_def results_drop_writes_def)
  have inv: "store_inv ?ts" "same_inputs ts ?ts" using drop_writes_inv assms(3) by auto
  from assms(2) obtain v d others where coins: "gc_gas_coins gc = (c, v, d) # others"
    by (auto simp: pays_with_def)
  have vals: "those (map (gas_coin_value ?ts) (gc_gas_coins gc)) = Some vals"
    using assms(4) drop(3) by (simp add: coins_ok_def gas_coin_value_def [abs_def])
  show ?thesis
  proof (cases "others = []")
    case True
    with assms(1) coins inv drop show ?thesis
      by (auto simp: smashed_clean_def charger_reset_def charger_reset_storage_def smash_gas_def split: if_splits)
  next
    case False
    define del where "del = fold (\<lambda>r. delete_input_object (fst r)) others ?ts"
    from assms(1) coins False vals obtain ob m m' where
      ob: "map_of (ts_input_objects ts) c = Some ob" and
      m: "try_as_move (o_data ob) = Some m" "set_coin_value_unsafe (sum_list vals) m = Some m'" and
      ts': "mutate_input_object (ob\<lparr>o_data := Move m'\<rparr>) del = Some ts'"
      by (auto simp: charger_reset_def charger_reset_storage_def smash_gas_def bind_eq_Some_conv Let_def drop del_def)
    have data: "o_data ob = Move m" using m(1) by (cases "o_data ob") auto
    have "gas_coin_value ts (c, v, d) \<noteq> None"
      using those_map_SomeD(2) [of "gas_coin_value ts" "gc_gas_coins gc" vals "(c, v, d)"] assms(4) coins
      by (simp add: coins_ok_def)
    then have gas: "is_gas_coin (mo_type m)" by (auto simp: gas_coin_value_holds gas_coin_holds_def ob data)
    note set = get_set_coin_value [OF m(2)]
    have "object_id_of ob = Some c" using ob assms(3) by (simp add: store_inv_def filed_def)
    then have id: "object_id_of (ob\<lparr>o_data := Move m'\<rparr>) = Some c"
      using set(2) data by (simp add: object_id_of_def)
    have put: "ts' = put_object c (ob\<lparr>o_data := Move m'\<rparr>) del"
      using ts' id by (simp add: mutate_input_object_eq)
    note deleted = fold_delete_post [of others ?ts, folded del_def]
    have r: "results_inv (ts_execution_results del)" "store_inv del"
      using deleted inv(1) by (simp_all add: store_inv_def)
    note post = put_object_post [OF r(1), where i = c and ob = "ob\<lparr>o_data := Move m'\<rparr>"]
    have "store_inv ts'" using r(2) post(3) [OF id] post(4) unfolding put by (simp add: store_inv_def same_inputs_def)
    moreover have "same_inputs ts ts'"
      using inv(2) deleted post(4) unfolding put by (auto intro: same_inputs_trans)
    moreover have "gas_coin_holds (ob\<lparr>o_data := Move m'\<rparr>) (sum_list vals)"
      using set gas by (simp add: gas_coin_holds_def)
    ultimately show ?thesis
      using post(1,2) deleted drop False coins unfolding put by (auto simp: smashed_clean_def)
  qed
qed

text \<open>
  What a transaction that failed may change: of its inputs only the gas coins (the first holds
  \<open>v\<close>, the others are gone); every other mutable input is written back as it was, up to its
  storage rebate, and nothing else is written.
\<close>

definition only_gas_changed :: "object_ref list \<Rightarrow> u64 \<Rightarrow> temporary_store \<Rightarrow> temporary_store \<Rightarrow> bool" where
  "only_gas_changed coins v ts ts' \<longleftrightarrow> same_inputs ts ts' \<and>
     set (ts_modified ts') = dom (map_of (ts_mutable_input_refs ts)) \<and>
     (\<forall>i. i \<notin> fst ` set coins \<longrightarrow>
        rel_option same_but_rebate
          (if i \<in> dom (map_of (ts_mutable_input_refs ts)) then map_of (ts_input_objects ts) i else None)
          (map_of (ts_written ts') i)) \<and>
     (\<forall>i \<in> fst ` set (tl coins). map_of (ts_written ts') i = None) \<and>
     (\<exists>ob. map_of (ts_written ts') (fst (hd coins)) = Some ob \<and> gas_coin_holds ob v)"

lemma same_writes_lookup:
  assumes "list_all2 (\<lambda>e e'. fst e' = fst e \<and> R (snd e) (snd e')) xs ys"
  shows "rel_option R (map_of xs i) (map_of ys i)"
  using assms by (induction rule: list_all2_induct) (auto split: prod.splits)

lemma same_but_rebate_holds: "same_but_rebate ob ob' \<Longrightarrow> gas_coin_holds ob' v = gas_coin_holds ob v"
  by (simp add: same_but_rebate_def gas_coin_holds_def)

lemma only_gas_changed_writes:
  assumes "only_gas_changed coins v ts ts1" and "same_writes ts1 ts2"
  shows "only_gas_changed coins v ts ts2"
proof -
  have look: "rel_option same_but_rebate (map_of (ts_written ts1) i) (map_of (ts_written ts2) i)" for i
    using assms(2) by (intro same_writes_lookup) (simp add: same_writes_def)
  have trans: "rel_option same_but_rebate x y \<Longrightarrow> rel_option same_but_rebate y z \<Longrightarrow> rel_option same_but_rebate x z"
    for x y z by (cases x; cases y; cases z) (auto simp: same_but_rebate_def)
  have none: "map_of (ts_written ts1) i = None \<Longrightarrow> map_of (ts_written ts2) i = None" for i
    using look [of i] by simp
  have held: "\<exists>ob. map_of (ts_written ts2) i = Some ob \<and> gas_coin_holds ob v"
    if "map_of (ts_written ts1) i = Some ob" "gas_coin_holds ob v" for i ob
    using look [of i] that by (auto simp: option_rel_Some1 same_but_rebate_holds)
  show ?thesis
    using assms trans [OF _ look] none held same_inputs_trans [of ts ts1 ts2]
    unfolding only_gas_changed_def same_writes_def by (metis (no_types, lifting))
qed

lemma smashed_ensure_only_gas:
  assumes "smashed_clean coins vals ts ts1" and "ensure_active_inputs_mutated ts1 = Some ts2"
    and "coins_ok coins vals ts" and "coins \<noteq> []"
  shows "only_gas_changed coins (sum_list vals) ts ts2"
proof -
  obtain c v d others where coins: "coins = (c, v, d) # others" using assms(4) by (cases coins) auto
  have smashed: "store_inv ts1" "same_inputs ts ts1" using assms(1) by (simp_all add: smashed_clean_def)
  note post = ensure_active_inputs_mutated_post [OF assms(2) smashed(1)]
  have same: "same_inputs ts ts2"
    using smashed(2) ensure_active_inputs_mutated_inv [OF assms(2)] same_inputs_trans by blast
  have eqs: "ts_mutable_input_refs ts1 = ts_mutable_input_refs ts" "ts_input_objects ts1 = ts_input_objects ts"
    using smashed(2) by (simp_all add: same_inputs_def)
  have refs: "fst ` set coins \<subseteq> dom (map_of (ts_mutable_input_refs ts))"
    and dist: "c \<notin> fst ` set others" using assms(3) coins by (auto simp: coins_ok_def)
  show ?thesis
  proof (cases "others = []")
    case True
    then have clean: "ts_written ts1 = []" "ts_modified ts1 = []"
      using assms(1) coins by (simp_all add: smashed_clean_def)
    from True assms(3) coins obtain w where w: "vals = [w]" "gas_coin_value ts (c, v, d) = Some w"
      by (auto simp: coins_ok_def split: option.splits)
    then obtain ob where "map_of (ts_input_objects ts) c = Some ob" "gas_coin_holds ob w"
      by (auto simp: gas_coin_value_holds)
    with same clean post coins True w(1) refs show ?thesis
      by (simp add: only_gas_changed_def eqs option.rel_refl)
  next
    case False
    then obtain ob where mod: "set (ts_modified ts1) = fst ` set coins"
      and ob: "map_of (ts_written ts1) = [c \<mapsto> ob]" "gas_coin_holds ob (sum_list vals)"
      using assms(1) coins by (auto simp: smashed_clean_def)
    have "set (ts_modified ts2) = dom (map_of (ts_mutable_input_refs ts))"
      using post(2) mod refs eqs by auto
    moreover have "map_of (ts_written ts2) i = None" if "i \<in> fst ` set others" for i
      using post(1) [of i] that dist mod ob(1) coins eqs by auto
    moreover have "map_of (ts_written ts2) c = Some ob" using post(1) [of c] mod ob(1) coins by simp
    moreover have "map_of (ts_written ts2) i =
        (if i \<in> dom (map_of (ts_mutable_input_refs ts)) then map_of (ts_input_objects ts) i else None)"
      if "i \<notin> fst ` set coins" for i
      using post(1) [of i] that mod ob(1) coins eqs by auto
    ultimately show ?thesis using same ob(2) coins by (simp add: only_gas_changed_def option.rel_refl)
  qed
qed

lemma rolled_back_only_gas:
  assumes "rolled_back coins ts ts'" and "coins_ok coins vals ts"
  shows "only_gas_changed coins (sum_list vals) ts ts'"
proof -
  from assms(1) obtain gc1 gc2 ts1 ts2 ts3 c where r: "gc_gas_coins gc1 = coins" "pays_with c gc1"
    "store_inv ts1" "same_inputs ts ts1" "charger_reset gc1 ts1 = Some (gc2, ts2)"
    "ensure_active_inputs_mutated ts2 = Some ts3" "same_writes ts3 ts'"
    unfolding rolled_back_def by blast
  have ok: "coins_ok coins vals ts1"
    using assms(2) r(4) by (simp add: coins_ok_def same_inputs_def gas_coin_value_def [abs_def])
  have eqs: "ts_mutable_input_refs ts1 = ts_mutable_input_refs ts" "ts_input_objects ts1 = ts_input_objects ts"
    using r(4) by (simp_all add: same_inputs_def)
  have "only_gas_changed coins (sum_list vals) ts1 ts3"
    using smashed_ensure_only_gas [OF _ r(6) ok] charger_reset_smashed_clean [OF r(5,2,3)] ok r(1,2)
    by (auto simp: pays_with_def)
  then have "only_gas_changed coins (sum_list vals) ts ts3"
    using same_inputs_trans [OF r(4), of ts3] unfolding only_gas_changed_def eqs by iprover
  then show ?thesis using r(7) by (rule only_gas_changed_writes)
qed

lemma deduct_gas_coin_word:
  assumes "deduct_gas_coin ob n = Some ob'" and "gas_coin_holds ob v"
  shows "gas_coin_holds ob' (v - word_of_int n)"
proof -
  from assms(2) obtain m where m: "o_data ob = Move m" "is_gas_coin (mo_type m)" "get_coin_value_unsafe m = Some v"
    by (auto simp: gas_coin_holds_def)
  with assms(1) obtain nb m' where
    nb: "(if n < 0 then do { negated \<leftarrow> i64_range (- n); checked_add v (word_of_int negated) }
      else do { rust_assert (word_of_int n \<le> v); checked_sub v (word_of_int n) }) = Some nb" and
    m': "set_coin_value_unsafe nb m = Some m'" "ob' = ob\<lparr>o_data := Move m'\<rparr>"
    by (auto simp: deduct_gas_coin_def bind_eq_Some_conv)
  from nb have "nb = v - word_of_int n"
    by (auto simp: i64_range_def checked_add_def checked_sub_def bind_eq_Some_conv split: if_splits)
  with get_set_coin_value [OF m'(1)] m(2) m'(2) show ?thesis by (simp add: gas_coin_holds_def)
qed

lemma net_gas_usage_word:
  "net_gas_usage summ = Some n \<Longrightarrow>
     (word_of_int n :: u64) = gs_computation_cost summ + gs_storage_cost summ - gs_storage_rebate summ"
  by (auto simp: net_gas_usage_def summary_gas_used_def bind_eq_Some_conv i64_range_def checked_add_def split: if_splits)

lemma deduct_only_gas:
  assumes "deduct_from_gas_coin gc ts1 c = Some (summ, ts')" and "charge_state env c gc ts1"
    and "only_gas_changed coins v ts ts1" and "fst (hd coins) = c" and "c \<notin> fst ` set (tl coins)" and "coins \<noteq> []"
  shows "only_gas_changed coins
    (v - (gs_computation_cost summ + gs_storage_cost summ - gs_storage_rebate summ)) ts ts'"
proof -
  have inv: "results_inv (ts_execution_results ts1)" and filed: "filed (ts_written ts1)"
    and mod: "c \<in> set (ts_modified ts1)"
    using assms(2) by (simp_all add: charge_state_def store_inv_def results_inv_def)
  from assms(3,4) obtain ob where ob: "map_of (ts_written ts1) c = Some ob" "gas_coin_holds ob v"
    by (auto simp: only_gas_changed_def)
  from assms(1) obtain n ob' where n: "net_gas_usage summ = Some n"
    and ob': "deduct_gas_coin ob n = Some ob'" and ts': "mutate_input_object ob' ts1 = Some ts'"
    by (auto simp: deduct_from_gas_coin_def bind_eq_Some_conv read_object_def ob)
  have "object_id_of ob' = Some c" using deduct_gas_coin_keeps [OF ob'] ob filed by (simp add: filed_def)
  then have put: "ts' = put_object c ob' ts1" using ts' by (simp add: mutate_input_object_eq)
  note post = put_object_post [OF inv, where i = c and ob = ob', folded put]
  have holds: "gas_coin_holds ob' (v - (gs_computation_cost summ + gs_storage_cost summ - gs_storage_rebate summ))"
    using deduct_gas_coin_word [OF ob' ob(2)] net_gas_usage_word [OF n] by simp
  have c: "c \<in> fst ` set coins" using assms(4,6) by (cases coins) auto
  have "same_inputs ts ts'" using assms(3) post(4) same_inputs_trans by (auto simp: only_gas_changed_def)
  moreover have "set (ts_modified ts') = set (ts_modified ts1)" using post(2) mod by auto
  moreover have "map_of (ts_written ts') i = map_of (ts_written ts1) i" if "i \<noteq> c" for i
    using post(1) that by simp
  moreover have "map_of (ts_written ts') c = Some ob'" using post(1) by simp
  ultimately show ?thesis
    using assms(3,4,5) holds c unfolding only_gas_changed_def by (metis (no_types, lifting))
qed

lemma charge_gas_only_gas:
  assumes "executed env inputs gc0 c gc ts" and "coins_ok (gc_gas_coins gc) vals ts"
    and "charge_gas env gc ts res = Some (summ, gc', ts', Inl e)"
  shows "only_gas_changed (gc_gas_coins gc)
    (sum_list vals - (gs_computation_cost summ + gs_storage_cost summ - gs_storage_rebate summ)) ts ts'"
proof -
  note ready = executed_ready [OF assms(1)]
  obtain ts1 where ts1: "rolled_back (gc_gas_coins gc) ts ts1" "charge_state env c gc' ts1"
    "deduct_from_gas_coin gc' ts1 c = Some (summ, ts')"
    by (rule charge_gas_failed [OF assms(3) ready])
  obtain v d others where "gc_gas_coins gc = (c, v, d) # others"
    using ready by (auto simp: ready_to_charge_def pays_with_def)
  then have "fst (hd (gc_gas_coins gc)) = c" "c \<notin> fst ` set (tl (gc_gas_coins gc))" "gc_gas_coins gc \<noteq> []"
    using assms(2) by (simp_all add: coins_ok_def)
  from deduct_only_gas [OF ts1(3,2) rolled_back_only_gas [OF ts1(1) assms(2)] this] show ?thesis .
qed

subsection \<open>A failed transaction conserves all SUI\<close>

text \<open>The SUI an object holds besides its storage rebate, where the decoder can tell.\<close>

definition sui_known :: "decoder \<Rightarrow> sui_object \<Rightarrow> bool" where
  "sui_known decode ob \<longleftrightarrow> (\<exists>n. get_total_sui decode ob = Some (Inr n))"

definition sui_held :: "decoder \<Rightarrow> sui_object \<Rightarrow> u64" where
  "sui_held decode ob = (case get_total_sui decode ob of Some (Inr n) \<Rightarrow> n - o_storage_rebate ob | _ \<Rightarrow> 0)"

lemma sui_known_total:
  "sui_known decode ob \<Longrightarrow> get_total_sui decode ob = Some (Inr (o_storage_rebate ob + sui_held decode ob))"
  by (auto simp: sui_known_def sui_held_def)

lemma sui_held_same:
  assumes "same_but_rebate ob ob'"
  shows "sui_known decode ob' = sui_known decode ob" and "sui_held decode ob' = sui_held decode ob"
proof -
  have data: "o_data ob' = o_data ob" using assms by (simp add: same_but_rebate_def)
  show "sui_known decode ob' = sui_known decode ob"
  proof (cases "o_data ob")
    case (Move m)
    with data show ?thesis
      by (cases "move_get_total_sui decode m") (auto simp: sui_known_def get_total_sui_def map_sum_def split: sum.splits)
  qed (use data in \<open>simp add: sui_known_def get_total_sui_def\<close>)
  show "sui_held decode ob' = sui_held decode ob"
  proof (cases "o_data ob")
    case (Move m)
    with data show ?thesis
      by (cases "move_get_total_sui decode m") (auto simp: sui_held_def get_total_sui_def map_sum_def split: sum.splits)
  qed (use data in \<open>simp add: sui_held_def get_total_sui_def\<close>)
qed

lemma is_gas_coin_iff: "is_gas_coin t \<longleftrightarrow> t = GasCoin"
  by (cases t) simp_all

lemma sui_held_gas_coin:
  assumes "gas_coin_holds ob v"
  shows "sui_known decode ob" and "sui_held decode ob = v"
proof -
  have "get_total_sui decode ob = Some (Inr (o_storage_rebate ob + v))"
    using assms
    by (auto simp: gas_coin_holds_def is_gas_coin_iff get_total_sui_def move_get_total_sui_def get_coin_balances_def
        add_balance_def word_gt_0)
  then show "sui_known decode ob" and "sui_held decode ob = v" by (simp_all add: sui_known_def sui_held_def)
qed

lemma sum_sui_all:
  assumes "\<And>i inp out. (i, inp, out) \<in> set es \<Longrightarrow>
      (\<exists>meta. inp = Some meta \<and> get_input_sui decode ts i (lm_version meta) = Some (Inr (f i)))"
    and "\<And>i inp out. (i, inp, out) \<in> set es \<Longrightarrow>
      (case out of Some ob \<Rightarrow> get_total_sui decode ob = Some (Inr (g i)) | None \<Rightarrow> g i = 0)"
  shows "sum_sui decode ts es a b = Some (Inr (a + sum_list (map (\<lambda>e. f (fst e)) es), b + sum_list (map (\<lambda>e. g (fst e)) es)))"
  using assms
proof (induction es arbitrary: a b)
  case (Cons e es)
  obtain i inp out where e: "e = (i, inp, out)" by (cases e)
  from Cons.prems(1) [of i inp out] obtain meta where
    meta: "inp = Some meta" "get_input_sui decode ts i (lm_version meta) = Some (Inr (f i))" by (auto simp: e)
  have ih: "sum_sui decode ts es a b =
      Some (Inr (a + sum_list (map (\<lambda>e. f (fst e)) es), b + sum_list (map (\<lambda>e. g (fst e)) es)))" for a b
    by (rule Cons.IH; rule Cons.prems, rule list.set_intros(2), assumption)
  show ?case
  proof (cases out)
    case None
    then have "g i = 0" using Cons.prems(2) [of i inp out] by (simp add: e)
    then show ?thesis using meta None by (simp add: e ih add.assoc)
  next
    case (Some ob)
    then have "get_total_sui decode ob = Some (Inr (g i))" using Cons.prems(2) [of i inp out] by (simp add: e)
    then show ?thesis using meta Some by (simp add: e ih add.assoc as_invariant_violation_def)
  qed
qed simp

lemma sum_distinct_eq: "distinct xs \<Longrightarrow> set xs = S \<Longrightarrow> sum_list (map f xs) = sum f S"
  by (metis sum_list_distinct_conv_sum_set)

text \<open>
  The totals of the expensive check after a failed transaction: the inputs' rebates and
  holdings on one side, the outputs' rebates, the untouched holdings and the balance of the
  paying coin on the other.
\<close>

lemma failed_input_sui:
  assumes "coins_ok coins vals ts" and "finite D" and "fst ` set coins \<subseteq> D"
  shows "sum (\<lambda>i. sui_held decode (the (map_of (ts_input_objects ts) i))) D =
    sum (\<lambda>i. sui_held decode (the (map_of (ts_input_objects ts) i))) (D - fst ` set coins) + sum_list vals"
proof -
  let ?h = "\<lambda>i. sui_held decode (the (map_of (ts_input_objects ts) i))"
  have dist: "distinct (map fst coins)" and some: "those (map (gas_coin_value ts) coins) = Some vals"
    using assms(1) by (simp_all add: coins_ok_def)
  have worth: "?h (fst r) = the (gas_coin_value ts r)" if r: "r \<in> set coins" for r
  proof -
    from those_map_SomeD(2) [OF some r] obtain v where v: "gas_coin_value ts r = Some v" by auto
    then obtain ob where "map_of (ts_input_objects ts) (fst r) = Some ob" "gas_coin_holds ob v"
      by (auto simp: gas_coin_value_holds)
    with v sui_held_gas_coin(2) show ?thesis by simp
  qed
  have "sum ?h (fst ` set coins) = sum_list (map ?h (map fst coins))"
    using sum_distinct_eq [OF dist, of _ ?h] by simp
  also have "\<dots> = sum_list (map (the \<circ> gas_coin_value ts) coins)"
    using worth by (simp add: comp_def cong: map_cong)
  also have "\<dots> = sum_list vals" using those_map_SomeD(1) [OF some] by simp
  finally show ?thesis using sum.subset_diff [OF assms(3,2), of ?h] by simp
qed

lemma only_gas_changedD:
  assumes "only_gas_changed coins v ts ts'"
  shows "same_inputs ts ts'" and "set (ts_modified ts') = dom (map_of (ts_mutable_input_refs ts))"
    and "\<exists>ob. map_of (ts_written ts') (fst (hd coins)) = Some ob \<and> gas_coin_holds ob v"
    and "i \<in> fst ` set (tl coins) \<Longrightarrow> map_of (ts_written ts') i = None"
    and "i \<notin> fst ` set coins \<Longrightarrow> i \<in> dom (map_of (ts_mutable_input_refs ts)) \<Longrightarrow>
      rel_option same_but_rebate (map_of (ts_input_objects ts) i) (map_of (ts_written ts') i)"
    and "i \<notin> fst ` set coins \<Longrightarrow> i \<notin> dom (map_of (ts_mutable_input_refs ts)) \<Longrightarrow> map_of (ts_written ts') i = None"
proof -
  have parts: "same_inputs ts ts'" "set (ts_modified ts') = dom (map_of (ts_mutable_input_refs ts))"
    "\<exists>ob. map_of (ts_written ts') (fst (hd coins)) = Some ob \<and> gas_coin_holds ob v"
    and rest: "\<forall>i \<in> fst ` set (tl coins). map_of (ts_written ts') i = None"
    and others: "\<forall>i. i \<notin> fst ` set coins \<longrightarrow> rel_option same_but_rebate
      (if i \<in> dom (map_of (ts_mutable_input_refs ts)) then map_of (ts_input_objects ts) i else None)
      (map_of (ts_written ts') i)"
    by (insert assms [unfolded only_gas_changed_def], elim conjE, assumption)+
  show "same_inputs ts ts'" "set (ts_modified ts') = dom (map_of (ts_mutable_input_refs ts))"
    "\<exists>ob. map_of (ts_written ts') (fst (hd coins)) = Some ob \<and> gas_coin_holds ob v"
    by (fact parts)+
  show "map_of (ts_written ts') i = None" if "i \<in> fst ` set (tl coins)" using rest that by (rule bspec)
  note other = mp [OF spec [OF others]]
  show "rel_option same_but_rebate (map_of (ts_input_objects ts) i) (map_of (ts_written ts') i)"
    if "i \<notin> fst ` set coins" "i \<in> dom (map_of (ts_mutable_input_refs ts))"
    using other [OF that(1)] by (simp only: that(2) if_True)
  show "map_of (ts_written ts') i = None"
    if "i \<notin> fst ` set coins" "i \<notin> dom (map_of (ts_mutable_input_refs ts))"
    using other [OF that(1)] by (simp only: that(2) if_False rel_option_None1)
qed

lemma failed_output_sui:
  assumes "only_gas_changed coins v ts ts'" and "coins \<noteq> []" and "finite D"
    and "D = dom (map_of (ts_mutable_input_refs ts))" and "fst ` set coins \<subseteq> D"
    and "fst (hd coins) \<notin> fst ` set (tl coins)" and "D \<subseteq> dom (map_of (ts_input_objects ts))"
  shows "sum (\<lambda>i. case map_of (ts_written ts') i of Some ob \<Rightarrow> sui_held decode ob | None \<Rightarrow> 0) D =
    sum (\<lambda>i. sui_held decode (the (map_of (ts_input_objects ts) i))) (D - fst ` set coins) + v"
proof -
  let ?h = "\<lambda>i. sui_held decode (the (map_of (ts_input_objects ts) i))"
  let ?g = "\<lambda>i. case map_of (ts_written ts') i of Some ob \<Rightarrow> sui_held decode ob | None \<Rightarrow> 0"
  let ?c = "fst (hd coins)"
  have K: "fst ` set coins = insert ?c (fst ` set (tl coins))" using assms(2) by (cases coins) simp_all
  have rest: "?g i = ?h i" if i: "i \<in> D - fst ` set coins" for i
  proof -
    have "i \<in> dom (map_of (ts_input_objects ts))" using assms(7) i by (meson DiffD1 subsetD)
    then obtain ob where ob: "map_of (ts_input_objects ts) i = Some ob" by (meson domD)
    have "rel_option same_but_rebate (Some ob) (map_of (ts_written ts') i)"
      using only_gas_changedD(5) [OF assms(1), of i] assms(4) i ob by (metis DiffD1 DiffD2)
    then obtain ob' where "map_of (ts_written ts') i = Some ob'" "same_but_rebate ob ob'"
      by (auto simp: option_rel_Some1)
    then show ?thesis using sui_held_same(2) [of ob ob' decode] ob by simp
  qed
  from only_gas_changedD(3) [OF assms(1)] obtain ob where
    ob: "map_of (ts_written ts') ?c = Some ob" "gas_coin_holds ob v" by (elim exE conjE)
  have first: "?g ?c = v" using ob sui_held_gas_coin(2) [OF ob(2)] by simp
  have gone: "sum ?g (fst ` set (tl coins)) = 0"
    by (rule sum.neutral, rule ballI) (simp only: only_gas_changedD(4) [OF assms(1)] option.case)
  have "sum ?g (fst ` set coins) = ?g ?c + sum ?g (fst ` set (tl coins))"
    unfolding K by (rule sum.insert) (use assms(6) in simp_all)
  then have "sum ?g (fst ` set coins) = v" unfolding first gone by simp
  moreover have "sum ?g (D - fst ` set coins) = sum ?h (D - fst ` set coins)"
    by (rule sum.cong [OF refl rest])
  ultimately show ?thesis unfolding sum.subset_diff [OF assms(5,3), of ?g] by simp
qed

lemma conserved_totals:
  assumes "check_sui_conserved env ts True summ = Some (Inr ())"
    and "results_inv (ts_execution_results ts)" and "modified_known env ts"
  shows "total_input_rebate env ts + gs_storage_cost summ =
    total_output_rebate ts + gs_storage_rebate summ + gs_non_refundable_storage_fee summ"
  using assms(1) unfolding check_sui_conserved_eq [OF assms(2,3)] by (auto split: if_splits simp: ac_simps)

text \<open>The versions of the mutable inputs are those the transaction names.\<close>

definition versions_match :: "temporary_store \<Rightarrow> bool" where
  "versions_match ts \<longleftrightarrow> (\<forall>i v d own. map_of (ts_mutable_input_refs ts) i = Some ((v, d), own) \<longrightarrow>
     (\<forall>ob. map_of (ts_input_objects ts) i = Some ob \<longrightarrow> object_version ob = v))"

definition inputs_sui_known :: "decoder \<Rightarrow> temporary_store \<Rightarrow> bool" where
  "inputs_sui_known decode ts \<longleftrightarrow> (\<forall>i \<in> dom (map_of (ts_mutable_input_refs ts)).
     \<forall>ob. map_of (ts_input_objects ts) i = Some ob \<longrightarrow> sui_known decode ob)"

lemma input_sui_before:
  assumes "i \<in> dom (map_of (ts_mutable_input_refs ts))" and "map_of (ts_input_objects ts) i = Some ob"
    and "versions_match ts" and "inputs_sui_known decode ts"
  shows "\<exists>meta. metadata_before env ts i = Some meta \<and>
    get_input_sui decode ts i (lm_version meta) = Some (Inr (rebate_before env ts i + sui_held decode ob))"
proof -
  from assms(1) obtain v d own where ref: "map_of (ts_mutable_input_refs ts) i = Some ((v, d), own)" by auto
  have "object_version ob = v" using assms(2,3) ref by (auto simp: versions_match_def)
  moreover have "sui_known decode ob" using assms(1,2,4) by (auto simp: inputs_sui_known_def)
  ultimately show ?thesis
    using assms(2) ref sui_known_total [of decode ob]
    by (simp add: metadata_before_def get_input_sui_def rebate_before_def as_invariant_violation_def)
qed

lemma failed_outputs_known:
  assumes "only_gas_changed coins v ts ts'" and "inputs_sui_known decode ts" and "map_of (ts_written ts') i = Some ob"
    and "coins \<noteq> []"
  shows "sui_known decode ob"
proof (cases "i \<in> fst ` set coins")
  case True
  have "i \<notin> fst ` set (tl coins)" using only_gas_changedD(4) [OF assms(1), of i] assms(3) by auto
  with True assms(4) have "i = fst (hd coins)" by (cases coins) auto
  then show ?thesis using only_gas_changedD(3) [OF assms(1)] assms(3) sui_held_gas_coin(1) by auto
next
  case False
  have "i \<in> dom (map_of (ts_mutable_input_refs ts))"
    using only_gas_changedD(6) [OF assms(1) False] assms(3) by (metis option.distinct(1))
  with only_gas_changedD(5) [OF assms(1) False this] assms(3) obtain ob' where
    "map_of (ts_input_objects ts) i = Some ob'" "same_but_rebate ob' ob" "sui_known decode ob'"
    using assms(2) unfolding inputs_sui_known_def by (auto simp: option_rel_Some2)
  then show ?thesis using sui_held_same(1) by blast
qed

lemma failed_sums:
  assumes changed: "only_gas_changed coins v ts ts'" and ok: "coins_ok coins vals ts" and "coins \<noteq> []"
    and inv: "store_inv ts'" and known: "modified_known env ts'"
    and match: "versions_match ts" and sui: "inputs_sui_known decode ts"
  obtains es B where "get_modified_objects env ts' = Some es"
    and "sum_sui decode ts' es 0 0 =
      Some (Inr (total_input_rebate env ts' + (B + sum_list vals), total_output_rebate ts' + (B + v)))"
proof -
  define D where "D = dom (map_of (ts_mutable_input_refs ts))"
  have same: "ts_mutable_input_refs ts' = ts_mutable_input_refs ts" "ts_input_objects ts' = ts_input_objects ts"
    using only_gas_changedD(1) [OF changed] by (simp_all add: same_inputs_def)
  have fin: "finite D" by (simp add: D_def finite_dom_map_of)
  have inp: "D \<subseteq> dom (map_of (ts_input_objects ts))" using inv same by (simp add: store_inv_def D_def)
  have coins: "fst ` set coins \<subseteq> D" "fst (hd coins) \<notin> fst ` set (tl coins)"
    using ok \<open>coins \<noteq> []\<close> by (cases coins; simp add: coins_ok_def D_def)+
  have mod: "set (ts_modified ts') = D" using only_gas_changedD(2) [OF changed] by (simp add: D_def)
  have dist: "distinct (ts_modified ts')" and written: "distinct (map fst (ts_written ts'))"
    using inv by (auto simp: store_inv_def results_inv_def filed_def bitmap_inv_distinct btree_inv_distinct)
  have outside: "filter (\<lambda>e. fst e \<notin> set (ts_modified ts')) (ts_written ts') = []"
    unfolding mod filter_empty_conv
  proof (intro ballI, rule ccontr)
    fix e assume e: "e \<in> set (ts_written ts')" "\<not> \<not> fst e \<notin> D"
    then have no: "fst e \<notin> D" by simp
    have "map_of (ts_written ts') (fst e) = None"
      by (rule only_gas_changedD(6) [OF changed contra_subsetD [OF coins(1) no] no [unfolded D_def]])
    with e(1) show False by (metis imageI map_of_eq_None_iff)
  qed
  let ?h = "\<lambda>i. sui_held decode (the (map_of (ts_input_objects ts) i))"
  let ?f = "\<lambda>i. rebate_before env ts' i + ?h i"
  let ?r = "\<lambda>i. case map_of (ts_written ts') i of Some ob \<Rightarrow> o_storage_rebate ob | None \<Rightarrow> 0"
  let ?g = "\<lambda>i. ?r i + (case map_of (ts_written ts') i of Some ob \<Rightarrow> sui_held decode ob | None \<Rightarrow> 0)"
  define es where "es = map (\<lambda>i. (i, metadata_before env ts' i, map_of (ts_written ts') i)) (ts_modified ts')"
  have es: "get_modified_objects env ts' = Some es"
    unfolding get_modified_objects_eq [OF known] outside es_def by simp
  have "sum_sui decode ts' es 0 0 = Some (Inr (0 + sum_list (map (\<lambda>e. ?f (fst e)) es), 0 + sum_list (map (\<lambda>e. ?g (fst e)) es)))"
  proof (rule sum_sui_all)
    fix i inp out assume "(i, inp, out) \<in> set es"
    then have i: "i \<in> D" "inp = metadata_before env ts' i" "out = map_of (ts_written ts') i"
      using mod by (auto simp: es_def)
    obtain ob where ob: "map_of (ts_input_objects ts') i = Some ob" using i(1) inp same by (metis domD subsetD)
    have "versions_match ts'" "inputs_sui_known decode ts'" "i \<in> dom (map_of (ts_mutable_input_refs ts'))"
      using match sui i(1) same by (simp_all add: versions_match_def inputs_sui_known_def D_def)
    from input_sui_before [OF this(3) ob this(1,2), of env] show "\<exists>meta. inp = Some meta \<and>
        get_input_sui decode ts' i (lm_version meta) = Some (Inr (?f i))"
      using ob same(2) i(2) by simp
    show "case out of None \<Rightarrow> ?g i = 0 | Some ob \<Rightarrow> get_total_sui decode ob = Some (Inr (?g i))"
    proof (cases out)
      case (Some ob)
      then have w: "map_of (ts_written ts') i = Some ob" using i(3) by simp
      show ?thesis
        using sui_known_total [OF failed_outputs_known [OF changed sui w \<open>coins \<noteq> []\<close>]] by (simp add: Some w)
    qed (use i(3) in simp)
  qed
  moreover have "sum_list (map (\<lambda>e. ?f (fst e)) es) = total_input_rebate env ts' +
      (sum ?h (D - fst ` set coins) + sum_list vals)"
    using failed_input_sui [OF ok fin coins(1), of decode] sum_distinct_eq [OF dist mod, of ?h]
    by (simp add: es_def comp_def sum_list_addf total_input_rebate_def)
  moreover have "sum_list (map (\<lambda>e. ?g (fst e)) es) = total_output_rebate ts' + (sum ?h (D - fst ` set coins) + v)"
    using failed_output_sui [OF changed \<open>coins \<noteq> []\<close> fin D_def coins inp, of decode]
      sum_distinct_eq [OF dist mod, of "\<lambda>i. case map_of (ts_written ts') i of Some ob \<Rightarrow> sui_held decode ob | None \<Rightarrow> 0"]
      sum_list_lookup_split [OF dist written, of o_storage_rebate] outside
    by (simp add: es_def comp_def sum_list_addf total_output_rebate_def)
  ultimately show ?thesis using that [OF es] by simp
qed

lemma failed_conserves:
  assumes changed: "only_gas_changed coins v ts ts'" and ok: "coins_ok coins vals ts" and "coins \<noteq> []"
    and v: "v = sum_list vals - (gs_computation_cost summ + gs_storage_cost summ - gs_storage_rebate summ)"
    and inv: "store_inv ts'" and known: "modified_known env ts'"
    and rebates: "check_sui_conserved env ts' True summ = Some (Inr ())"
    and match: "versions_match ts" and sui: "inputs_sui_known decode ts"
  shows "check_sui_conserved_expensive env decode ts' summ None = Some (Inr ())"
proof -
  obtain es B where es: "get_modified_objects env ts' = Some es" and
    sums: "sum_sui decode ts' es 0 0 =
      Some (Inr (total_input_rebate env ts' + (B + sum_list vals), total_output_rebate ts' + (B + v)))"
    by (rule failed_sums [OF changed ok \<open>coins \<noteq> []\<close> inv known match sui])
  have "total_input_rebate env ts' + gs_storage_cost summ =
      total_output_rebate ts' + gs_storage_rebate summ + gs_non_refundable_storage_fee summ"
    using conserved_totals [OF rebates _ known] inv by (simp add: store_inv_def)
  then have "total_input_rebate env ts' + (B + sum_list vals) =
      total_output_rebate ts' + (B + v) + (gs_computation_cost summ + gs_non_refundable_storage_fee summ)"
    unfolding v by (simp add: algebra_simps)
  then show ?thesis by (simp add: check_sui_conserved_expensive_def es sums)
qed

lemma charge_gas_store_inv:
  assumes "executed env inputs gc0 c gc ts" and "charge_gas env gc ts res = Some (summ, gc', ts', res')"
  shows "store_inv ts'" and "check_sui_conserved env ts' True summ = Some (Inr ())"
proof -
  obtain ts1 where ts1: "charge_state env c gc' ts1" "deduct_from_gas_coin gc' ts1 c = Some (summ, ts')"
    using charge_gas_stages [OF assms(2) executed_ready [OF assms(1)]] by blast
  then obtain ob where "mutate_input_object ob ts1 = Some ts'"
    by (auto simp: deduct_from_gas_coin_def bind_eq_Some_conv)
  then show "store_inv ts'" using mutate_input_object_inv(2) ts1(1) by (simp add: charge_state_def)
  show "check_sui_conserved env ts' True summ = Some (Inr ())"
    using deduct_from_gas_coin_conserves [OF ts1(2,1)] deduct_gas_coin_keeps by blast
qed

lemma modified_inputs_known:
  assumes "store_inv ts" and "set (ts_modified ts) \<subseteq> dom (map_of (ts_mutable_input_refs ts))"
  shows "modified_known env ts"
  unfolding modified_known_def
proof
  fix i assume "i \<in> set (ts_modified ts)"
  then have dom: "i \<in> dom (map_of (ts_mutable_input_refs ts))" using assms(2) by (rule rev_subsetD)
  then obtain r where ref: "map_of (ts_mutable_input_refs ts) i = Some r" by (meson domD)
  have "i \<in> dom (map_of (ts_input_objects ts))"
    using assms(1) dom unfolding store_inv_def by (elim conjE) (rule subsetD)
  then obtain ob where "map_of (ts_input_objects ts) i = Some ob" by (meson domD)
  with ref show "metadata_before env ts i \<noteq> None"
    by (cases r) (auto simp: metadata_before_def)
qed

text \<open>
  C3.  A transaction whose execution failed, or that ran out of gas for computation or storage,
  has no effect but on its gas coins.  The modified objects are exactly the mutable inputs; every
  one that is not a gas coin is written back with its contents and owner unchanged; of the gas
  coins only the first is left and holds what all of them held minus the charges plus the rebate;
  nothing else is written.
\<close>

theorem failed_transaction_changes_only_gas:
  assumes "executed env inputs gc0 c gc ts" and "coins_ok (gc_gas_coins gc) vals ts"
    and "charge_gas env gc ts res = Some (summ, gc', ts', Inl e)"
  shows "only_gas_changed (gc_gas_coins gc)
    (sum_list vals - (gs_computation_cost summ + gs_storage_cost summ - gs_storage_rebate summ)) ts ts'"
  using assms by (rule charge_gas_only_gas)

lemma sample_coins_ok: "coins_ok (gc_gas_coins (fst sample_smashed)) [600000, 500000] (snd sample_smashed)"
proof -
  have "gc_gas_coins (fst sample_smashed) = [(8, 3, 9), (9, 3, 9)]" by code_simp
  moreover have "ts_input_objects (snd sample_smashed) = ts_input_objects sample_store"
    "ts_mutable_input_refs (snd sample_smashed) = ts_mutable_input_refs sample_store" by code_simp+
  moreover have "those (map (gas_coin_value sample_store) [(8, 3, 9), (9, 3, 9)]) = Some [600000, 500000]"
    by code_simp
  ultimately show ?thesis
    by (simp add: coins_ok_def gas_coin_value_def [abs_def]) (simp add: sample_store_def)
qed

lemma sample_failed:
  "\<exists>summ gc ts. charge_gas sample_env (fst sample_smashed) (snd sample_smashed)
      (Inl InsufficientGas :: execution_error_kind + unit) = Some (summ, gc, ts, Inl InsufficientGas)"
proof -
  have "map_option (snd \<circ> snd \<circ> snd) (charge_gas sample_env (fst sample_smashed) (snd sample_smashed)
      (Inl InsufficientGas :: execution_error_kind + unit)) = Some (Inl InsufficientGas)"
    by code_simp
  then show ?thesis by (auto simp: comp_def)
qed

theorem failed_transaction_changes_only_gas_witness:
  "\<exists>summ gc ts. charge_gas sample_env (fst sample_smashed) (snd sample_smashed)
      (Inl InsufficientGas :: execution_error_kind + unit) = Some (summ, gc, ts, Inl InsufficientGas) \<and>
    only_gas_changed (gc_gas_coins (fst sample_smashed))
      (1100000 - (gs_computation_cost summ + gs_storage_cost summ - gs_storage_rebate summ)) (snd sample_smashed) ts"
proof -
  obtain summ gc ts where r: "charge_gas sample_env (fst sample_smashed) (snd sample_smashed)
      (Inl InsufficientGas :: execution_error_kind + unit) = Some (summ, gc, ts, Inl InsufficientGas)"
    using sample_failed by blast
  from failed_transaction_changes_only_gas [OF sample_executed sample_coins_ok r] r show ?thesis by auto
qed

text \<open>
  C4.  Such a transaction also passes the expensive conservation check: the SUI of all modified
  objects, in their Move contents and in their storage rebates, is found again in the written
  objects, the computation cost and the non-refundable fee.  The hypotheses say that the inputs
  have the versions the transaction names and that the layout resolver can read them.
\<close>

theorem failed_transaction_conserves_all_sui:
  assumes "executed env inputs gc0 c gc ts" and "coins_ok (gc_gas_coins gc) vals ts"
    and "versions_match ts" and "inputs_sui_known decode ts"
    and "charge_gas env gc ts res = Some (summ, gc', ts', Inl e)"
  shows "check_sui_conserved_expensive env decode ts' summ None = Some (Inr ())"
proof -
  note changed = charge_gas_only_gas [OF assms(1,2,5)]
  note inv = charge_gas_store_inv [OF assms(1,5)]
  have refs: "ts_mutable_input_refs ts' = ts_mutable_input_refs ts"
    using only_gas_changedD(1) [OF changed] by (simp add: same_inputs_def)
  have "modified_known env ts'"
    using modified_inputs_known [OF inv(1)] only_gas_changedD(2) [OF changed] refs by simp
  moreover have "gc_gas_coins gc \<noteq> []"
    using executed_ready [OF assms(1)] by (auto simp: ready_to_charge_def pays_with_def)
  ultimately show ?thesis
    using failed_conserves [OF changed assms(2) _ refl inv(1) _ inv(2) assms(3,4)] by blast
qed

theorem failed_transaction_conserves_all_sui_witness:
  "\<exists>summ gc ts. charge_gas sample_env (fst sample_smashed) (snd sample_smashed)
      (Inl InsufficientGas :: execution_error_kind + unit) = Some (summ, gc, ts, Inl InsufficientGas) \<and>
    check_sui_conserved_expensive sample_env (\<lambda>m. Inl (LayoutError 0)) ts summ None = Some (Inr ())"
proof -
  obtain summ gc ts where r: "charge_gas sample_env (fst sample_smashed) (snd sample_smashed)
      (Inl InsufficientGas :: execution_error_kind + unit) = Some (summ, gc, ts, Inl InsufficientGas)"
    using sample_failed by blast
  have eqs: "ts_input_objects (snd sample_smashed) = ts_input_objects sample_store"
    "ts_mutable_input_refs (snd sample_smashed) = ts_mutable_input_refs sample_store" by code_simp+
  have "versions_match (snd sample_smashed)"
    by (simp add: versions_match_def eqs sample_store_def object_version_def gas_coin_object_def)
  moreover have "inputs_sui_known (\<lambda>m. Inl (LayoutError 0)) (snd sample_smashed)"
  proof -
    have "gas_coin_holds (gas_coin_object 8 600000 500) 600000" "gas_coin_holds (gas_coin_object 9 500000 700) 500000"
      unfolding gas_coin_holds_def by (rule exI, intro conjI, simp add: gas_coin_object_def, simp, code_simp)+
    then show ?thesis
      using sui_held_gas_coin(1) by (auto simp: inputs_sui_known_def eqs sample_store_def)
  qed
  ultimately show ?thesis
    using failed_transaction_conserves_all_sui [OF sample_executed sample_coins_ok _ _ r] r by blast
qed

end
