(* ===== verification/Transaction_Effects.thy ===== *)
theory Transaction_Effects
  imports Gas_Charger "HOL-Library.Multiset"
begin

text \<open>
  Models the transaction effects: \<open>new_from_execution_v2\<close> of
  \<open>src/crates/sui-types/src/effects/mod.rs\<close>, which sorts the object changes of a transaction into
  the lists of \<open>TransactionEffectsV1\<close> (\<open>effects_v1.rs\<close>), the accessors of \<open>TransactionEffectsV2\<close>
  (\<open>effects_v2.rs\<close>), which derive the same lists from the changes, and
  \<open>TemporaryStore::into_effects\<close>.  An object change whose input state, output state and
  identifier operation do not fit together is the \<open>unreachable!\<close> of the code: \<open>panic\<close>.
  The digest of the events is a parameter, as hashing lies outside the sources.  The test
  helpers and the display code are left out.
\<close>

subsection \<open>Digests that mark removed objects\<close>

text \<open>A digest of 32 equal bytes, read as a big-endian number.\<close>

definition digest_of_byte :: "nat \<Rightarrow> digest" where
  "digest_of_byte b = foldl (\<lambda>n _. n * 256 + b) 0 [0..<32]"

definition OBJECT_DIGEST_DELETED :: digest where
  "OBJECT_DIGEST_DELETED = digest_of_byte 99"

definition OBJECT_DIGEST_WRAPPED :: digest where
  "OBJECT_DIGEST_WRAPPED = digest_of_byte 88"

subsection \<open>Effects of version 1\<close>

datatype execution_status = Success | Failure execution_error_kind "nat option"

type_synonym owned_ref_list = "(object_ref \<times> owner) list"

record effects_v1 =
  e1_status :: execution_status
  e1_executed_epoch :: u64
  e1_gas_used :: gas_cost_summary
  e1_modified_at_versions :: "(object_id \<times> sequence_number) list"
  e1_shared_objects :: "object_ref list"
  e1_transaction_digest :: digest
  e1_created :: owned_ref_list
  e1_mutated :: owned_ref_list
  e1_unwrapped :: owned_ref_list
  e1_deleted :: "object_ref list"
  e1_unwrapped_then_deleted :: "object_ref list"
  e1_wrapped :: "object_ref list"
  e1_gas_object :: "object_ref \<times> owner"
  e1_events_digest :: "digest option"
  e1_dependencies :: "digest list"

datatype input_shared_object_kind = Mutate | ReadOnly

definition v1_input_shared_objects :: "effects_v1 \<Rightarrow> (object_ref \<times> input_shared_object_kind) list" where
  "v1_input_shared_objects e =
     (let modified = fst ` set (e1_modified_at_versions e)
      in map (\<lambda>r. (r, if fst r \<in> modified then Mutate else ReadOnly)) (e1_shared_objects e))"

subsection \<open>Sorting the object changes\<close>

text \<open>The eight lists that the loop of \<open>new_from_execution_v2\<close> fills.\<close>

record change_lists =
  cl_created :: owned_ref_list
  cl_mutated :: owned_ref_list
  cl_unwrapped :: owned_ref_list
  cl_deleted :: "object_ref list"
  cl_unwrapped_then_deleted :: "object_ref list"
  cl_wrapped :: "object_ref list"
  cl_modified_at_versions :: "(object_id \<times> sequence_number) list"
  cl_deleted_at_versions :: "(object_id \<times> sequence_number) list"

definition no_changes :: change_lists where
  "no_changes = \<lparr>cl_created = [], cl_mutated = [], cl_unwrapped = [], cl_deleted = [],
     cl_unwrapped_then_deleted = [], cl_wrapped = [], cl_modified_at_versions = [],
     cl_deleted_at_versions = []\<rparr>"

definition classify_change ::
  "sequence_number \<Rightarrow> object_id \<times> effects_object_change \<Rightarrow> change_lists \<Rightarrow> change_lists option" where
  "classify_change lamport_version = (\<lambda>(i, change) cl.
     case oc_input_state change of
       InExist (old_version, old_digest) old_owner \<Rightarrow>
         (case (oc_output_state change, oc_id_operation change) of
            (ObjectWrite new_digest new_owner, IdNone) \<Rightarrow>
              Some (cl\<lparr>cl_mutated := cl_mutated cl @ [((i, lamport_version, new_digest), new_owner)],
                cl_modified_at_versions := cl_modified_at_versions cl @ [(i, old_version)]\<rparr>)
          | (PackageWrite (new_version, new_digest), IdNone) \<Rightarrow>
              Some (cl\<lparr>cl_mutated := cl_mutated cl @ [((i, new_version, new_digest), Immutable)],
                cl_modified_at_versions := cl_modified_at_versions cl @ [(i, old_version)]\<rparr>)
          | (OutNotExist, IdDeleted) \<Rightarrow>
              Some (cl\<lparr>cl_deleted := cl_deleted cl @ [(i, lamport_version, OBJECT_DIGEST_DELETED)],
                cl_deleted_at_versions := cl_deleted_at_versions cl @ [(i, old_version)]\<rparr>)
          | (OutNotExist, IdNone) \<Rightarrow>
              Some (cl\<lparr>cl_wrapped := cl_wrapped cl @ [(i, lamport_version, OBJECT_DIGEST_WRAPPED)],
                cl_deleted_at_versions := cl_deleted_at_versions cl @ [(i, old_version)]\<rparr>)
          | _ \<Rightarrow> panic)
     | InNotExist \<Rightarrow>
         (case (oc_output_state change, oc_id_operation change) of
            (ObjectWrite new_digest new_owner, IdCreated) \<Rightarrow>
              Some (cl\<lparr>cl_created := cl_created cl @ [((i, lamport_version, new_digest), new_owner)]\<rparr>)
          | (PackageWrite (new_version, new_digest), IdCreated) \<Rightarrow>
              Some (cl\<lparr>cl_created := cl_created cl @ [((i, new_version, new_digest), Immutable)]\<rparr>)
          | (ObjectWrite new_digest new_owner, IdNone) \<Rightarrow>
              Some (cl\<lparr>cl_unwrapped := cl_unwrapped cl @ [((i, lamport_version, new_digest), new_owner)]\<rparr>)
          | (OutNotExist, IdDeleted) \<Rightarrow>
              Some (cl\<lparr>cl_unwrapped_then_deleted := cl_unwrapped_then_deleted cl @
                [(i, lamport_version, OBJECT_DIGEST_DELETED)]\<rparr>)
          | (OutNotExist, IdCreated) \<Rightarrow> Some cl
          | _ \<Rightarrow> panic))"

fun classify_changes ::
  "sequence_number \<Rightarrow> (object_id \<times> effects_object_change) list \<Rightarrow> change_lists \<Rightarrow> change_lists option" where
  "classify_changes lamport_version [] cl = Some cl"
| "classify_changes lamport_version (c # cs) cl =
     Option.bind (classify_change lamport_version c cl) (classify_changes lamport_version cs)"

definition new_from_execution_v2 ::
  "execution_status \<Rightarrow> u64 \<Rightarrow> gas_cost_summary \<Rightarrow> object_ref list \<Rightarrow> digest \<Rightarrow> sequence_number \<Rightarrow>
     (object_id, effects_object_change) btree_map \<Rightarrow> object_ref \<times> owner \<Rightarrow> digest option \<Rightarrow> digest list \<Rightarrow>
     effects_v1 option" where
  "new_from_execution_v2 status executed_epoch gas_used shared_objects transaction_digest lamport_version
       object_changes gas_object events_digest dependencies = do {
     cl \<leftarrow> classify_changes lamport_version object_changes no_changes;
     Some \<lparr>e1_status = status, e1_executed_epoch = executed_epoch, e1_gas_used = gas_used,
       e1_modified_at_versions = cl_modified_at_versions cl @ cl_deleted_at_versions cl,
       e1_shared_objects = shared_objects, e1_transaction_digest = transaction_digest,
       e1_created = cl_created cl, e1_mutated = cl_mutated cl, e1_unwrapped = cl_unwrapped cl,
       e1_deleted = cl_deleted cl, e1_unwrapped_then_deleted = cl_unwrapped_then_deleted cl,
       e1_wrapped = cl_wrapped cl, e1_gas_object = gas_object, e1_events_digest = events_digest,
       e1_dependencies = dependencies\<rparr>
   }"

datatype write_kind = WkMutate | WkCreate | WkUnwrap
datatype object_remove_kind = RkDelete | RkWrap

definition all_changed_objects :: "effects_v1 \<Rightarrow> (object_ref \<times> owner \<times> write_kind) list" where
  "all_changed_objects e =
     map (\<lambda>(r, own). (r, own, WkMutate)) (e1_mutated e) @
     map (\<lambda>(r, own). (r, own, WkCreate)) (e1_created e) @
     map (\<lambda>(r, own). (r, own, WkUnwrap)) (e1_unwrapped e)"

definition all_removed_objects :: "effects_v1 \<Rightarrow> (object_ref \<times> object_remove_kind) list" where
  "all_removed_objects e =
     map (\<lambda>r. (r, RkDelete)) (e1_deleted e) @ map (\<lambda>r. (r, RkWrap)) (e1_wrapped e)"

definition mutated_excluding_gas :: "effects_v1 \<Rightarrow> owned_ref_list" where
  "mutated_excluding_gas e = filter (\<lambda>o'. o' \<noteq> e1_gas_object e) (e1_mutated e)"

subsection \<open>Effects of version 2\<close>

datatype unchanged_shared_kind = ReadOnlyRoot version_digest

record effects_v2 =
  e2_status :: execution_status
  e2_executed_epoch :: u64
  e2_gas_used :: gas_cost_summary
  e2_transaction_digest :: digest
  e2_gas_object_index :: nat
  e2_events_digest :: "digest option"
  e2_dependencies :: "digest list"
  e2_lamport_version :: sequence_number
  e2_changed_objects :: "(object_id \<times> effects_object_change) list"
  e2_unchanged_shared_objects :: "(object_id \<times> unchanged_shared_kind) list"
  e2_aux_data_digest :: "digest option"

definition v2_modified_at_versions :: "effects_v2 \<Rightarrow> (object_id \<times> sequence_number) list" where
  "v2_modified_at_versions e = List.map_filter (\<lambda>(i, change).
     case oc_input_state change of
       InExist (version, digest) own \<Rightarrow> Some (i, version)
     | InNotExist \<Rightarrow> None) (e2_changed_objects e)"

definition v2_input_shared_objects :: "effects_v2 \<Rightarrow> (object_ref \<times> input_shared_object_kind) list" where
  "v2_input_shared_objects e =
     List.map_filter (\<lambda>(i, change).
       case oc_input_state change of
         InExist (version, digest) (Shared initial) \<Rightarrow> Some ((i, version, digest), Mutate)
       | _ \<Rightarrow> None) (e2_changed_objects e) @
     map (\<lambda>(i, kind). case kind of ReadOnlyRoot (version, digest) \<Rightarrow> ((i, version, digest), ReadOnly))
       (e2_unchanged_shared_objects e)"

definition v2_created :: "effects_v2 \<Rightarrow> owned_ref_list" where
  "v2_created e = List.map_filter (\<lambda>(i, change).
     case (oc_input_state change, oc_output_state change, oc_id_operation change) of
       (InNotExist, ObjectWrite digest own, IdCreated) \<Rightarrow> Some ((i, e2_lamport_version e, digest), own)
     | (InNotExist, PackageWrite (version, digest), IdCreated) \<Rightarrow> Some ((i, version, digest), Immutable)
     | _ \<Rightarrow> None) (e2_changed_objects e)"

definition v2_mutated :: "effects_v2 \<Rightarrow> owned_ref_list" where
  "v2_mutated e = List.map_filter (\<lambda>(i, change).
     case (oc_input_state change, oc_output_state change) of
       (InExist vd old_owner, ObjectWrite digest own) \<Rightarrow> Some ((i, e2_lamport_version e, digest), own)
     | (InExist vd old_owner, PackageWrite (version, digest)) \<Rightarrow> Some ((i, version, digest), Immutable)
     | _ \<Rightarrow> None) (e2_changed_objects e)"

definition v2_unwrapped :: "effects_v2 \<Rightarrow> owned_ref_list" where
  "v2_unwrapped e = List.map_filter (\<lambda>(i, change).
     case (oc_input_state change, oc_output_state change, oc_id_operation change) of
       (InNotExist, ObjectWrite digest own, IdNone) \<Rightarrow> Some ((i, e2_lamport_version e, digest), own)
     | _ \<Rightarrow> None) (e2_changed_objects e)"

definition v2_deleted :: "effects_v2 \<Rightarrow> object_ref list" where
  "v2_deleted e = List.map_filter (\<lambda>(i, change).
     case (oc_input_state change, oc_output_state change, oc_id_operation change) of
       (InExist vd own, OutNotExist, IdDeleted) \<Rightarrow> Some (i, e2_lamport_version e, OBJECT_DIGEST_DELETED)
     | _ \<Rightarrow> None) (e2_changed_objects e)"

definition v2_unwrapped_then_deleted :: "effects_v2 \<Rightarrow> object_ref list" where
  "v2_unwrapped_then_deleted e = List.map_filter (\<lambda>(i, change).
     case (oc_input_state change, oc_output_state change, oc_id_operation change) of
       (InNotExist, OutNotExist, IdDeleted) \<Rightarrow> Some (i, e2_lamport_version e, OBJECT_DIGEST_DELETED)
     | _ \<Rightarrow> None) (e2_changed_objects e)"

definition v2_wrapped :: "effects_v2 \<Rightarrow> object_ref list" where
  "v2_wrapped e = List.map_filter (\<lambda>(i, change).
     case (oc_input_state change, oc_output_state change, oc_id_operation change) of
       (InExist vd own, OutNotExist, IdNone) \<Rightarrow> Some (i, e2_lamport_version e, OBJECT_DIGEST_WRAPPED)
     | _ \<Rightarrow> None) (e2_changed_objects e)"

definition v2_gas_object :: "effects_v2 \<Rightarrow> (object_ref \<times> owner) option" where
  "v2_gas_object e =
     (if e2_gas_object_index e < length (e2_changed_objects e) then
        let (i, change) = e2_changed_objects e ! e2_gas_object_index e in
        (case oc_output_state change of
           ObjectWrite digest own \<Rightarrow> Some ((i, e2_lamport_version e, digest), own)
         | _ \<Rightarrow> panic)
      else panic)"

text \<open>The body of the loop of \<open>_check_invariant\<close>: what each change must look like.\<close>

fun change_ok :: "sequence_number \<Rightarrow> effects_object_change \<Rightarrow> bool" where
  "change_ok lamport_version change =
     (case (oc_input_state change, oc_output_state change, oc_id_operation change) of
        (InNotExist, OutNotExist, IdCreated) \<Rightarrow> True
      | (InNotExist, OutNotExist, IdDeleted) \<Rightarrow> True
      | (InNotExist, ObjectWrite digest own, IdNone) \<Rightarrow> (case own of Shared v \<Rightarrow> False | _ \<Rightarrow> True)
      | (InNotExist, ObjectWrite digest own, IdCreated) \<Rightarrow> True
      | (InNotExist, PackageWrite vd, IdCreated) \<Rightarrow> True
      | (InExist vd own, OutNotExist, IdNone) \<Rightarrow> True
      | (InExist vd own, OutNotExist, IdDeleted) \<Rightarrow> True
      | (InExist (old_version, old_digest) own, ObjectWrite new_digest new_owner, IdNone) \<Rightarrow>
          old_version < lamport_version \<and> old_digest \<noteq> new_digest
      | (InExist (old_version, old_digest) own, PackageWrite (new_version, new_digest), IdNone) \<Rightarrow>
          old_version + 1 = new_version
      | _ \<Rightarrow> False)"

definition v2_check_invariant :: "effects_v2 \<Rightarrow> bool" where
  "v2_check_invariant e \<longleftrightarrow>
     distinct (map fst (e2_changed_objects e) @ map fst (e2_unchanged_shared_objects e)) \<and>
     list_all (\<lambda>(i, change). change_ok (e2_lamport_version e) change) (e2_changed_objects e) \<and>
     (case v2_gas_object e of Some (r, own) \<Rightarrow> is_address_owned own | None \<Rightarrow> False)"

subsection \<open>From the store to the effects\<close>

text \<open>
  The dependencies on the transactions that last wrote the received objects: only those the
  execution loaded with the version, digest and address owner the transaction names.
\<close>

definition receive_dependency ::
  "(object_id, loaded_metadata) btree_map \<Rightarrow> object_ref \<Rightarrow> digest btree_set \<Rightarrow> digest btree_set" where
  "receive_dependency loaded = (\<lambda>(i, expected_version, expected_digest) deps.
     case map_of loaded i of
       Some meta \<Rightarrow>
         (if lm_version meta = expected_version \<and> lm_digest meta = expected_digest \<and>
             is_address_owned (lm_owner meta)
          then bitmap_insert (lm_previous_transaction meta) deps else deps)
     | None \<Rightarrow> deps)"

definition updated_gas_object_info ::
  "object_env \<Rightarrow> temporary_store \<Rightarrow> gas_charger \<Rightarrow> (object_ref \<times> owner) option" where
  "updated_gas_object_info env ts gc =
     (case gc_smashed_gas_coin gc of
        Some coin_id \<Rightarrow> do {
          ob \<leftarrow> map_of (ts_written ts) coin_id;
          r \<leftarrow> compute_object_reference env ob;
          Some (r, o_owner ob)
        }
      | None \<Rightarrow> Some ((0, 0, 0), AddressOwner 0))"

definition into_effects ::
  "object_env \<Rightarrow> (nat list \<Rightarrow> digest) \<Rightarrow> temporary_store \<Rightarrow> object_ref list \<Rightarrow> digest \<Rightarrow>
     digest btree_set \<Rightarrow> gas_cost_summary \<Rightarrow> execution_status \<Rightarrow> gas_charger \<Rightarrow> u64 \<Rightarrow>
     (inner_temporary_store \<times> effects_v1) option" where
  "into_effects env events_digest ts shared_object_refs transaction_digest dependencies0
       gas_cost_summary status gc epoch = do {
     ts \<leftarrow> update_object_version_and_prev_tx ts;
     let dependencies = fold (receive_dependency (ts_loaded_runtime_objects ts)) (ts_receiving_objects ts)
  dependencies0;
     gas_object \<leftarrow> updated_gas_object_info env ts gc;
     object_changes \<leftarrow> get_object_changes env ts;
     let inner = into_inner ts;
     effects \<leftarrow> new_from_execution_v2 status epoch gas_cost_summary shared_object_refs transaction_digest
       (ts_lamport_timestamp ts) object_changes gas_object
       (if its_events inner = [] then None else Some (events_digest (its_events inner))) dependencies;
     Some (inner, effects)
   }"

subsection \<open>Both versions of the effects present the same changes\<close>

lemmas v2_accessors = v2_created_def v2_mutated_def v2_unwrapped_def v2_deleted_def
  v2_unwrapped_then_deleted_def v2_wrapped_def v2_modified_at_versions_def

text \<open>One change goes to exactly one list, or to none when it was created and wrapped.\<close>

lemma classify_change_lists:
  assumes "classify_change (e2_lamport_version e) c cl = Some cl'"
  shows "cl_created cl' = cl_created cl @ v2_created (e\<lparr>e2_changed_objects := [c]\<rparr>)"
    and "cl_mutated cl' = cl_mutated cl @ v2_mutated (e\<lparr>e2_changed_objects := [c]\<rparr>)"
    and "cl_unwrapped cl' = cl_unwrapped cl @ v2_unwrapped (e\<lparr>e2_changed_objects := [c]\<rparr>)"
    and "cl_deleted cl' = cl_deleted cl @ v2_deleted (e\<lparr>e2_changed_objects := [c]\<rparr>)"
    and "cl_unwrapped_then_deleted cl' =
      cl_unwrapped_then_deleted cl @ v2_unwrapped_then_deleted (e\<lparr>e2_changed_objects := [c]\<rparr>)"
    and "cl_wrapped cl' = cl_wrapped cl @ v2_wrapped (e\<lparr>e2_changed_objects := [c]\<rparr>)"
    and "mset (cl_modified_at_versions cl' @ cl_deleted_at_versions cl') =
      mset (cl_modified_at_versions cl @ cl_deleted_at_versions cl) +
      mset (v2_modified_at_versions (e\<lparr>e2_changed_objects := [c]\<rparr>))"
proof -
  obtain i inp out op where c: "c = (i, \<lparr>oc_input_state = inp, oc_output_state = out, oc_id_operation = op\<rparr>)"
    by (cases c, cases "snd c") auto
  show "cl_created cl' = cl_created cl @ v2_created (e\<lparr>e2_changed_objects := [c]\<rparr>)"
    "cl_mutated cl' = cl_mutated cl @ v2_mutated (e\<lparr>e2_changed_objects := [c]\<rparr>)"
    "cl_unwrapped cl' = cl_unwrapped cl @ v2_unwrapped (e\<lparr>e2_changed_objects := [c]\<rparr>)"
    "cl_deleted cl' = cl_deleted cl @ v2_deleted (e\<lparr>e2_changed_objects := [c]\<rparr>)"
    "cl_unwrapped_then_deleted cl' =
      cl_unwrapped_then_deleted cl @ v2_unwrapped_then_deleted (e\<lparr>e2_changed_objects := [c]\<rparr>)"
    "cl_wrapped cl' = cl_wrapped cl @ v2_wrapped (e\<lparr>e2_changed_objects := [c]\<rparr>)"
    "mset (cl_modified_at_versions cl' @ cl_deleted_at_versions cl') =
      mset (cl_modified_at_versions cl @ cl_deleted_at_versions cl) +
      mset (v2_modified_at_versions (e\<lparr>e2_changed_objects := [c]\<rparr>))"
    using assms unfolding c
    by (cases inp; cases out; cases op; auto simp: classify_change_def v2_accessors map_filter_simps
        split: prod.splits)+
qed

text \<open>The accessors of a list of changes are those of its elements.\<close>

lemma map_filter_Cons_append: "List.map_filter f (x # xs) = List.map_filter f [x] @ List.map_filter f xs"
  by (cases "f x") (simp_all add: map_filter_simps)

lemma with_changes:
  "e2_lamport_version (e\<lparr>e2_changed_objects := cs\<rparr>) = e2_lamport_version e"
  "e2_changed_objects (e\<lparr>e2_changed_objects := cs\<rparr>) = cs"
  by simp_all

lemma v2_accessors_Cons:
  "v2_created (e\<lparr>e2_changed_objects := c # cs\<rparr>) =
     v2_created (e\<lparr>e2_changed_objects := [c]\<rparr>) @ v2_created (e\<lparr>e2_changed_objects := cs\<rparr>)"
  "v2_mutated (e\<lparr>e2_changed_objects := c # cs\<rparr>) =
     v2_mutated (e\<lparr>e2_changed_objects := [c]\<rparr>) @ v2_mutated (e\<lparr>e2_changed_objects := cs\<rparr>)"
  "v2_unwrapped (e\<lparr>e2_changed_objects := c # cs\<rparr>) =
     v2_unwrapped (e\<lparr>e2_changed_objects := [c]\<rparr>) @ v2_unwrapped (e\<lparr>e2_changed_objects := cs\<rparr>)"
  "v2_deleted (e\<lparr>e2_changed_objects := c # cs\<rparr>) =
     v2_deleted (e\<lparr>e2_changed_objects := [c]\<rparr>) @ v2_deleted (e\<lparr>e2_changed_objects := cs\<rparr>)"
  "v2_unwrapped_then_deleted (e\<lparr>e2_changed_objects := c # cs\<rparr>) =
     v2_unwrapped_then_deleted (e\<lparr>e2_changed_objects := [c]\<rparr>) @
     v2_unwrapped_then_deleted (e\<lparr>e2_changed_objects := cs\<rparr>)"
  "v2_wrapped (e\<lparr>e2_changed_objects := c # cs\<rparr>) =
     v2_wrapped (e\<lparr>e2_changed_objects := [c]\<rparr>) @ v2_wrapped (e\<lparr>e2_changed_objects := cs\<rparr>)"
  "v2_modified_at_versions (e\<lparr>e2_changed_objects := c # cs\<rparr>) =
     v2_modified_at_versions (e\<lparr>e2_changed_objects := [c]\<rparr>) @
     v2_modified_at_versions (e\<lparr>e2_changed_objects := cs\<rparr>)"
  unfolding v2_accessors with_changes map_filter_Cons_append [of _ c cs] by (rule refl)+

lemma v2_accessors_Nil:
  "v2_created (e\<lparr>e2_changed_objects := []\<rparr>) = []" "v2_mutated (e\<lparr>e2_changed_objects := []\<rparr>) = []"
  "v2_unwrapped (e\<lparr>e2_changed_objects := []\<rparr>) = []" "v2_deleted (e\<lparr>e2_changed_objects := []\<rparr>) = []"
  "v2_unwrapped_then_deleted (e\<lparr>e2_changed_objects := []\<rparr>) = []" "v2_wrapped (e\<lparr>e2_changed_objects := []\<rparr>) = []"
  "v2_modified_at_versions (e\<lparr>e2_changed_objects := []\<rparr>) = []"
  unfolding v2_accessors with_changes map_filter_simps by (rule refl)+

lemma classify_changes_lists:
  assumes "classify_changes (e2_lamport_version e) cs cl = Some cl'"
  shows "cl_created cl' = cl_created cl @ v2_created (e\<lparr>e2_changed_objects := cs\<rparr>) \<and>
    cl_mutated cl' = cl_mutated cl @ v2_mutated (e\<lparr>e2_changed_objects := cs\<rparr>) \<and>
    cl_unwrapped cl' = cl_unwrapped cl @ v2_unwrapped (e\<lparr>e2_changed_objects := cs\<rparr>) \<and>
    cl_deleted cl' = cl_deleted cl @ v2_deleted (e\<lparr>e2_changed_objects := cs\<rparr>) \<and>
    cl_unwrapped_then_deleted cl' =
      cl_unwrapped_then_deleted cl @ v2_unwrapped_then_deleted (e\<lparr>e2_changed_objects := cs\<rparr>) \<and>
    cl_wrapped cl' = cl_wrapped cl @ v2_wrapped (e\<lparr>e2_changed_objects := cs\<rparr>) \<and>
    mset (cl_modified_at_versions cl' @ cl_deleted_at_versions cl') =
      mset (cl_modified_at_versions cl @ cl_deleted_at_versions cl) +
      mset (v2_modified_at_versions (e\<lparr>e2_changed_objects := cs\<rparr>))"
  using assms
proof (induction cs arbitrary: cl)
  case Nil
  then show ?case by (simp add: v2_accessors_Nil)
next
  case (Cons c cs)
  then obtain cl1 where cl1: "classify_change (e2_lamport_version e) c cl = Some cl1"
    "classify_changes (e2_lamport_version e) cs cl1 = Some cl'"
    by (auto simp: bind_eq_Some_conv)
  from classify_change_lists [OF cl1(1)] Cons.IH [OF cl1(2)] show ?case
    unfolding v2_accessors_Cons [where e = e and c = c and cs = cs] by simp
qed

text \<open>
  C12.  The effects that the code builds from the object changes of a transaction, in the format of
  version 1, present exactly what the accessors of version 2 compute from the same changes: the
  same created, mutated, unwrapped, deleted, unwrapped-then-deleted and wrapped objects in the same
  order, and the same versions of modified objects up to order.
\<close>

theorem effects_v1_refine_v2:
  assumes "new_from_execution_v2 status epoch gas shared tx (e2_lamport_version e) (e2_changed_objects e)
      gas_object events deps = Some e1"
  shows "e1_created e1 = v2_created e \<and> e1_mutated e1 = v2_mutated e \<and> e1_unwrapped e1 = v2_unwrapped e \<and>
    e1_deleted e1 = v2_deleted e \<and> e1_unwrapped_then_deleted e1 = v2_unwrapped_then_deleted e \<and>
    e1_wrapped e1 = v2_wrapped e \<and>
    mset (e1_modified_at_versions e1) = mset (v2_modified_at_versions e)"
proof -
  from assms obtain cl where
    cl: "classify_changes (e2_lamport_version e) (e2_changed_objects e) no_changes = Some cl" and
    e1: "e1_created e1 = cl_created cl" "e1_mutated e1 = cl_mutated cl" "e1_unwrapped e1 = cl_unwrapped cl"
      "e1_deleted e1 = cl_deleted cl" "e1_unwrapped_then_deleted e1 = cl_unwrapped_then_deleted cl"
      "e1_wrapped e1 = cl_wrapped cl"
      "e1_modified_at_versions e1 = cl_modified_at_versions cl @ cl_deleted_at_versions cl"
    by (auto simp: new_from_execution_v2_def bind_eq_Some_conv)
  have self: "e\<lparr>e2_changed_objects := e2_changed_objects e\<rparr> = e" by simp
  from classify_changes_lists [OF cl] show ?thesis
    unfolding self e1 by (simp add: no_changes_def)
qed

subsection \<open>The effects report what the store hands over\<close>

text \<open>What a change contributes to the objects that exist afterwards, and to those that are gone.\<close>

definition written_ref :: "sequence_number \<Rightarrow> object_id \<times> effects_object_change \<Rightarrow> (object_ref \<times> owner) set" where
  "written_ref l = (\<lambda>(i, change). case oc_output_state change of
     OutNotExist \<Rightarrow> {}
   | ObjectWrite d own \<Rightarrow> {((i, l, d), own)}
   | PackageWrite (v, d) \<Rightarrow> {((i, v, d), Immutable)})"

definition removed_id :: "object_id \<times> effects_object_change \<Rightarrow> object_id set" where
  "removed_id = (\<lambda>(i, change).
     if oc_input_state change \<noteq> InNotExist \<and> oc_output_state change = OutNotExist then {i} else {})"

lemma classify_change_sets:
  assumes "classify_change l c cl = Some cl'"
  shows "set (cl_mutated cl') \<union> set (cl_created cl') \<union> set (cl_unwrapped cl') =
      set (cl_mutated cl) \<union> set (cl_created cl) \<union> set (cl_unwrapped cl) \<union> written_ref l c"
    and "fst ` set (cl_deleted cl') \<union> fst ` set (cl_wrapped cl') =
      fst ` set (cl_deleted cl) \<union> fst ` set (cl_wrapped cl) \<union> removed_id c"
proof -
  obtain i inp out op where c: "c = (i, \<lparr>oc_input_state = inp, oc_output_state = out, oc_id_operation = op\<rparr>)"
    by (cases c, cases "snd c") auto
  show "set (cl_mutated cl') \<union> set (cl_created cl') \<union> set (cl_unwrapped cl') =
      set (cl_mutated cl) \<union> set (cl_created cl) \<union> set (cl_unwrapped cl) \<union> written_ref l c"
    "fst ` set (cl_deleted cl') \<union> fst ` set (cl_wrapped cl') =
      fst ` set (cl_deleted cl) \<union> fst ` set (cl_wrapped cl) \<union> removed_id c"
    using assms unfolding c
    by (cases inp; cases out; cases op; auto simp: classify_change_def written_ref_def removed_id_def
        split: prod.splits)+
qed

lemma classify_changes_sets:
  assumes "classify_changes l cs cl = Some cl'"
  shows "set (cl_mutated cl') \<union> set (cl_created cl') \<union> set (cl_unwrapped cl') =
      set (cl_mutated cl) \<union> set (cl_created cl) \<union> set (cl_unwrapped cl) \<union> (\<Union>c \<in> set cs. written_ref l c)"
    and "fst ` set (cl_deleted cl') \<union> fst ` set (cl_wrapped cl') =
      fst ` set (cl_deleted cl) \<union> fst ` set (cl_wrapped cl) \<union> (\<Union>c \<in> set cs. removed_id c)"
  using assms
proof (induction cs arbitrary: cl)
  case (Cons c cs)
  { case 1
    then obtain cl1 where "classify_change l c cl = Some cl1" "classify_changes l cs cl1 = Some cl'"
      by (auto simp: bind_eq_Some_conv)
    from classify_change_sets(1) [OF this(1)] Cons.IH(1) [OF this(2)] show ?case by auto }
  { case 2
    then obtain cl1 where "classify_change l c cl = Some cl1" "classify_changes l cs cl1 = Some cl'"
      by (auto simp: bind_eq_Some_conv)
    from classify_change_sets(2) [OF this(1)] Cons.IH(2) [OF this(2)] show ?case by auto }
qed simp_all

lemma update_written_props:
  assumes "update_written r l tx i old = Some ob"
  shows "object_id_of ob = object_id_of old" and "\<not> is_package ob \<Longrightarrow> object_version ob = l"
  using assms
  by (cases "o_data old"; auto simp: update_written_def bind_eq_Some_conv object_id_of_def object_version_def
      is_package_def increment_version_to_def mo_id_def package_increment_version_def split: if_splits)+

lemma those_map_list_all2: "those (map f xs) = Some ys \<longleftrightarrow> list_all2 (\<lambda>x y. f x = Some y) xs ys"
  unfolding those_eq_Some list.rel_eq [symmetric] list.rel_map ..

lemma updated_store:
  assumes "update_object_version_and_prev_tx ts = Some ts'" and "filed (ts_written ts)"
  shows "filed (ts_written ts')" and "ts_modified ts' = ts_modified ts"
    and "map fst (ts_written ts') = map fst (ts_written ts)"
    and "ts_lamport_timestamp ts' = ts_lamport_timestamp ts"
    and "(i, ob) \<in> set (ts_written ts') \<Longrightarrow> \<not> is_package ob \<Longrightarrow> object_version ob = ts_lamport_timestamp ts"
proof -
  let ?f = "\<lambda>(i, ob). map_option (Pair i) (update_written (ts_execution_results ts)
      (ts_lamport_timestamp ts) (ts_tx_digest ts) i ob)"
  from assms(1) obtain written where upd: "those (map ?f (ts_written ts)) = Some written"
    and ts': "ts' = ts\<lparr>ts_execution_results := (ts_execution_results ts)\<lparr>written_objects := written\<rparr>\<rparr>"
    by (auto simp: update_object_version_and_prev_tx_def update_version_and_previous_tx_def bind_eq_Some_conv)
  have written: "ts_written ts' = written" by (simp add: ts')
  show "ts_modified ts' = ts_modified ts" "ts_lamport_timestamp ts' = ts_lamport_timestamp ts" by (simp_all add: ts')
  have "list_all2 (\<lambda>e e'. ?f e = Some e') (ts_written ts) written" using upd by (simp only: those_map_list_all2)
  then have entries: "list_all2 (\<lambda>e e'. fst e' = fst e \<and> object_id_of (snd e') = object_id_of (snd e) \<and>
      (\<not> is_package (snd e') \<longrightarrow> object_version (snd e') = ts_lamport_timestamp ts)) (ts_written ts) written"
    by (rule list.rel_mono_strong) (auto dest: update_written_props)
  then have keys: "map fst written = map fst (ts_written ts)" by induction auto
  then show "map fst (ts_written ts') = map fst (ts_written ts)" by (simp add: written)
  have each: "\<exists>old. (i, old) \<in> set (ts_written ts) \<and> object_id_of ob = object_id_of old \<and>
      (\<not> is_package ob \<longrightarrow> object_version ob = ts_lamport_timestamp ts)" if "(i, ob) \<in> set written" for i ob
    using entries that by induction auto
  then show "object_version ob = ts_lamport_timestamp ts" if "(i, ob) \<in> set (ts_written ts')" "\<not> is_package ob"
    using that by (auto simp: written)
  have inv: "btree_inv written"
    using assms(2) keys by (simp add: filed_def btree_inv_def)
  moreover have "object_id_of ob = Some i" if w: "map_of written i = Some ob" for i ob
  proof -
    obtain old where old: "(i, old) \<in> set (ts_written ts)" "object_id_of ob = object_id_of old"
      using each [OF map_of_SomeD [OF w]] by blast
    then have "map_of (ts_written ts) i = Some old"
      using assms(2) by (intro map_of_is_SomeI) (simp_all add: filed_def btree_inv_distinct)
    with assms(2) old(2) show ?thesis by (simp add: filed_def)
  qed
  ultimately show "filed (ts_written ts')" by (simp add: filed_def written)
qed

text \<open>The owner that the effects give a written object: packages are immutable.\<close>

definition reported_owner :: "sui_object \<Rightarrow> owner" where
  "reported_owner ob = (if is_package ob then Immutable else o_owner ob)"

definition output_state_of :: "object_env \<Rightarrow> sui_object option \<Rightarrow> object_out" where
  "output_state_of env written = (case written of
     None \<Rightarrow> OutNotExist
   | Some ob \<Rightarrow> if is_package ob then PackageWrite (object_version ob, object_digest env ob)
       else ObjectWrite (object_digest env ob) (o_owner ob))"

text \<open>The object changes of a store: one for each identifier that is mentioned in the results.\<close>

lemma object_changes_entries:
  assumes "get_object_changes env ts = Some changes"
  obtains change ids where "changes = map (\<lambda>i. (i, change i)) ids"
    and "set ids = set (created_object_ids (ts_execution_results ts)) \<union>
      set (deleted_object_ids (ts_execution_results ts)) \<union> set (ts_modified ts) \<union> fst ` set (ts_written ts)"
    and "\<forall>i \<in> set ids. oc_output_state (change i) = output_state_of env (map_of (ts_written ts) i)"
    and "\<forall>i \<in> set ids. oc_input_state (change i) \<noteq> InNotExist \<longleftrightarrow> i \<in> set (ts_modified ts)"
    and "\<forall>i \<in> set ids. oc_id_operation (change i) =
      (if i \<in> set (created_object_ids (ts_execution_results ts)) then IdCreated
       else if i \<in> set (deleted_object_ids (ts_execution_results ts)) then IdDeleted else IdNone)"
proof -
  let ?r = "ts_execution_results ts"
  define ids where "ids = btree_set_of (created_object_ids ?r @ deleted_object_ids ?r @ ts_modified ts @
    map fst (ts_written ts))"
  define change where "change i = effects_object_change_new env
    (map_option (\<lambda>m. ((lm_version m, lm_digest m), lm_owner m)) (the (get_object_modified_at env ts i)))
    (map_of (ts_written ts) i) (i \<in> set (created_object_ids ?r)) (i \<in> set (deleted_object_ids ?r))" for i
  from assms have those: "those (map (\<lambda>i. do {
       meta \<leftarrow> get_object_modified_at env ts i;
       Some (i, effects_object_change_new env
         (map_option (\<lambda>m. ((lm_version m, lm_digest m), lm_owner m)) meta) (map_of (ts_written ts) i)
         (i \<in> set (created_object_ids ?r)) (i \<in> set (deleted_object_ids ?r)))
     }) ids) = Some changes"
    by (simp add: get_object_changes_def Let_def ids_def)
  have known: "get_object_modified_at env ts i \<noteq> None" if "i \<in> set ids" for i
    using those_map_SomeD(2) [OF those that] by (cases "get_object_modified_at env ts i") simp_all
  have "changes = map (\<lambda>i. (i, change i)) ids"
    unfolding those_map_SomeD(1) [OF those] using known by (force simp: change_def)
  moreover have "oc_output_state (change i) = output_state_of env (map_of (ts_written ts) i)" for i
    by (auto simp: change_def effects_object_change_new_def output_state_of_def split: option.splits)
  moreover have "oc_input_state (change i) \<noteq> InNotExist \<longleftrightarrow> i \<in> set (ts_modified ts)" if "i \<in> set ids" for i
    using known [OF that]
    by (auto simp: change_def effects_object_change_new_def get_object_modified_at_def split: if_splits)
  moreover have "set ids = set (created_object_ids ?r) \<union> set (deleted_object_ids ?r) \<union> set (ts_modified ts) \<union>
      fst ` set (ts_written ts)"
    by (auto simp: ids_def)
  ultimately show ?thesis using that [of change ids]
    by (simp add: change_def effects_object_change_new_def)
qed

lemma object_changes_written:
  assumes "get_object_changes env ts = Some changes" and "filed (ts_written ts)"
    and "\<And>i ob. (i, ob) \<in> set (ts_written ts) \<Longrightarrow> \<not> is_package ob \<Longrightarrow> object_version ob = ts_lamport_timestamp ts"
  shows "(\<Union>c \<in> set changes. written_ref (ts_lamport_timestamp ts) c) =
    {(r, reported_owner ob) | i ob r. (i, ob) \<in> set (ts_written ts) \<and> compute_object_reference env ob = Some r}"
    and "(\<Union>c \<in> set changes. removed_id c) = set (ts_modified ts) - fst ` set (ts_written ts)"
proof -
  obtain change ids where changes: "changes = map (\<lambda>i. (i, change i)) ids"
    and ids: "set ids = set (created_object_ids (ts_execution_results ts)) \<union>
      set (deleted_object_ids (ts_execution_results ts)) \<union> set (ts_modified ts) \<union> fst ` set (ts_written ts)"
    and out: "\<forall>i \<in> set ids. oc_output_state (change i) = output_state_of env (map_of (ts_written ts) i)"
    and inp: "\<forall>i \<in> set ids. oc_input_state (change i) \<noteq> InNotExist \<longleftrightarrow> i \<in> set (ts_modified ts)"
    and "\<forall>i \<in> set ids. oc_id_operation (change i) =
      (if i \<in> set (created_object_ids (ts_execution_results ts)) then IdCreated
       else if i \<in> set (deleted_object_ids (ts_execution_results ts)) then IdDeleted else IdNone)"
    by (rule object_changes_entries [OF assms(1)])
  have entry: "(i, ob) \<in> set (ts_written ts) \<longleftrightarrow> map_of (ts_written ts) i = Some ob" for i ob
    using assms(2) by (auto simp: filed_def btree_inv_distinct intro: map_of_SomeD map_of_is_SomeI)
  have cref: "compute_object_reference env ob = Some r \<longleftrightarrow> r = (i, object_version ob, object_digest env ob)"
    if "map_of (ts_written ts) i = Some ob" for i ob r
    using assms(2) that by (auto simp: filed_def compute_object_reference_def)
  have ref: "x \<in> written_ref (ts_lamport_timestamp ts) (i, change i) \<longleftrightarrow>
      (\<exists>ob. map_of (ts_written ts) i = Some ob \<and> x = ((i, object_version ob, object_digest env ob), reported_owner ob))"
    if "i \<in> set ids" for i x
  proof (cases "map_of (ts_written ts) i")
    case (Some ob)
    with bspec [OF out that] assms(3) [OF map_of_SomeD [OF Some]] show ?thesis
      by (simp add: written_ref_def reported_owner_def output_state_of_def)
  qed (use bspec [OF out that] in \<open>simp add: written_ref_def output_state_of_def\<close>)
  have dom: "i \<in> fst ` set (ts_written ts) \<longleftrightarrow> map_of (ts_written ts) i \<noteq> None" for i
    by (simp add: map_of_eq_None_iff)
  then have inside: "map_of (ts_written ts) i = Some ob \<Longrightarrow> i \<in> set ids" for i ob unfolding ids by simp
  show "(\<Union>c \<in> set changes. written_ref (ts_lamport_timestamp ts) c) =
    {(r, reported_owner ob) | i ob r. (i, ob) \<in> set (ts_written ts) \<and> compute_object_reference env ob = Some r}"
    (is "?L = ?R")
  proof (rule set_eqI)
    fix x
    have "x \<in> ?L \<longleftrightarrow> (\<exists>i \<in> set ids. x \<in> written_ref (ts_lamport_timestamp ts) (i, change i))"
      unfolding changes by auto
    also have "\<dots> \<longleftrightarrow> (\<exists>i ob. map_of (ts_written ts) i = Some ob \<and>
        x = ((i, object_version ob, object_digest env ob), reported_owner ob))"
      using ref inside by blast
    also have "\<dots> \<longleftrightarrow> x \<in> ?R"
      unfolding mem_Collect_eq entry using cref by metis
    finally show "x \<in> ?L \<longleftrightarrow> x \<in> ?R" .
  qed
  have "removed_id (i, change i) = (if i \<in> set (ts_modified ts) - fst ` set (ts_written ts) then {i} else {})"
    if "i \<in> set ids" for i
    using bspec [OF inp that] bspec [OF out that] unfolding removed_id_def Diff_iff dom
    by (cases "map_of (ts_written ts) i") (simp_all add: output_state_of_def)
  then show "(\<Union>c \<in> set changes. removed_id c) = set (ts_modified ts) - fst ` set (ts_written ts)"
    unfolding changes by (auto simp: ids split: if_splits)
qed

text \<open>
  C13.  The two results of \<open>into_effects\<close> agree.  The references and owners in the lists of mutated,
  created and unwrapped objects are exactly those of the objects that are handed to storage, each
  with its new version and digest, and the deleted and wrapped objects are exactly the modified
  objects that are not written.
\<close>

theorem effects_report_written_objects:
  assumes "store_inv ts"
    and "into_effects env h ts shared tx deps summ status gc epoch = Some (inner, e)"
  shows "(\<lambda>(r, own, kind). (r, own)) ` set (all_changed_objects e) =
      {(r, reported_owner ob) | i ob r. (i, ob) \<in> set (its_written inner) \<and> compute_object_reference env ob = Some r} \<and>
    (\<lambda>(r, kind). fst r) ` set (all_removed_objects e) =
      set (ts_modified ts) - fst ` set (its_written inner)"
proof -
  from assms(2) obtain ts' changes cl where
    ts': "update_object_version_and_prev_tx ts = Some ts'" and
    changes: "get_object_changes env ts' = Some changes" and
    cl: "classify_changes (ts_lamport_timestamp ts') changes no_changes = Some cl" and
    inner: "its_written inner = ts_written ts'" and
    e: "e1_mutated e = cl_mutated cl" "e1_created e = cl_created cl" "e1_unwrapped e = cl_unwrapped cl"
      "e1_deleted e = cl_deleted cl" "e1_wrapped e = cl_wrapped cl"
    by (auto simp: into_effects_def new_from_execution_v2_def bind_eq_Some_conv Let_def into_inner_def)
  have "filed (ts_written ts)" using assms(1) by (simp add: store_inv_def results_inv_def)
  note upd = updated_store [OF ts' this]
  note sets = classify_changes_sets [OF cl]
  note written = object_changes_written [OF changes upd(1) upd(5) [folded upd(4)]]
  have "(\<lambda>(r, own, kind). (r, own)) ` set (all_changed_objects e) =
      set (cl_mutated cl) \<union> set (cl_created cl) \<union> set (cl_unwrapped cl)"
    by (simp add: all_changed_objects_def e image_Un image_image split_beta Un_assoc)
  moreover have "(\<lambda>(r, kind). fst r) ` set (all_removed_objects e) =
      fst ` set (cl_deleted cl) \<union> fst ` set (cl_wrapped cl)"
    by (simp add: all_removed_objects_def e image_Un image_image split_beta)
  ultimately show ?thesis
    using sets written unfolding inner upd(2) by (simp add: no_changes_def)
qed

definition sample_touched :: temporary_store where
  "sample_touched = the (ensure_active_inputs_mutated sample_store)"

lemma sample_touched_inv: "store_inv sample_touched"
proof -
  have "\<not> Option.is_none (ensure_active_inputs_mutated sample_store)" by code_simp
  then have "ensure_active_inputs_mutated sample_store = Some sample_touched"
    by (auto simp: Option.is_none_def sample_touched_def)
  with ensure_active_inputs_mutated_inv temporary_store_new_inv [OF sample_store_new sample_inputs_loaded]
  show ?thesis by blast
qed

theorem effects_report_written_objects_witness:
  "\<exists>inner e. into_effects sample_env (\<lambda>es. 0) sample_touched [] 42 [] summary_default Success
      (sample_charger\<lparr>gc_smashed_gas_coin := Some 8\<rparr>) 0 = Some (inner, e) \<and>
    (\<lambda>(r, own, kind). (r, own)) ` set (all_changed_objects e) =
      {(r, reported_owner ob) | i ob r. (i, ob) \<in> set (its_written inner) \<and>
        compute_object_reference sample_env ob = Some r}"
proof -
  have "\<not> Option.is_none (into_effects sample_env (\<lambda>es. 0) sample_touched [] 42 [] summary_default
      Success (sample_charger\<lparr>gc_smashed_gas_coin := Some 8\<rparr>) 0)"
    by code_simp
  then obtain inner e where r: "into_effects sample_env (\<lambda>es. 0) sample_touched [] 42 []
      summary_default Success (sample_charger\<lparr>gc_smashed_gas_coin := Some 8\<rparr>) 0 = Some (inner, e)"
    by (auto simp: Option.is_none_def)
  from effects_report_written_objects [OF sample_touched_inv r] r show ?thesis by blast
qed

subsection \<open>Consistent results have consistent changes\<close>

lemma consistent_changes_classify:
  assumes "check_execution_results_consistency ts = Inr ()"
    and "fst ` set (ts_written ts) \<inter> set (deleted_object_ids (ts_execution_results ts)) = {}"
    and "\<forall>(i, ob) \<in> set (ts_written ts). is_package ob \<longrightarrow>
      i \<in> set (created_object_ids (ts_execution_results ts)) \<union> set (ts_modified ts)"
    and "get_object_changes env ts = Some changes"
  shows "\<exists>e. new_from_execution_v2 status epoch gas shared tx lamport changes gas_object events deps = Some e"
proof -
  let ?r = "ts_execution_results ts"
  obtain change ids where changes: "changes = map (\<lambda>i. (i, change i)) ids"
    and ids: "set ids = set (created_object_ids ?r) \<union> set (deleted_object_ids ?r) \<union> set (ts_modified ts) \<union>
      fst ` set (ts_written ts)"
    and out: "\<forall>i \<in> set ids. oc_output_state (change i) = output_state_of env (map_of (ts_written ts) i)"
    and inp: "\<forall>i \<in> set ids. oc_input_state (change i) \<noteq> InNotExist \<longleftrightarrow> i \<in> set (ts_modified ts)"
    and op: "\<forall>i \<in> set ids. oc_id_operation (change i) =
      (if i \<in> set (created_object_ids ?r) then IdCreated
       else if i \<in> set (deleted_object_ids ?r) then IdDeleted else IdNone)"
    by (rule object_changes_entries [OF assms(4)])
  have created: "i \<notin> set (deleted_object_ids ?r) \<and> i \<notin> set (ts_modified ts)" if "i \<in> set (created_object_ids ?r)" for i
    using assms(1) that by (auto simp: check_execution_results_consistency_def Let_def list_all_iff split: if_splits)
  have fits: "\<exists>cl'. classify_change lamport (i, change i) cl = Some cl'" if i: "i \<in> set ids" for i cl
  proof (cases "map_of (ts_written ts) i")
    case None
    then have "i \<notin> fst ` set (ts_written ts)" by (simp add: map_of_eq_None_iff)
    with None bspec [OF out i] bspec [OF inp i] bspec [OF op i] i ids created [of i] show ?thesis
      by (cases "oc_input_state (change i)") (auto simp: classify_change_def output_state_of_def)
  next
    case (Some ob)
    have w: "(i, ob) \<in> set (ts_written ts)" using Some by (rule map_of_SomeD)
    then have "i \<notin> set (deleted_object_ids ?r)" using assms(2) by force
    with Some w bspec [OF out i] bspec [OF inp i] bspec [OF op i] created [of i] bspec [OF assms(3) w] show ?thesis
      by (cases "oc_input_state (change i)") (auto simp: classify_change_def output_state_of_def)
  qed
  have "\<exists>cl'. classify_changes lamport (map (\<lambda>i. (i, change i)) js) cl = Some cl'" if "set js \<subseteq> set ids" for js cl
    using that
  proof (induction js arbitrary: cl)
    case (Cons j js)
    then obtain cl1 where "classify_change lamport (j, change j) cl = Some cl1" using fits by fastforce
    with Cons show ?case by simp
  qed simp
  from this [of ids no_changes] show ?thesis by (auto simp: new_from_execution_v2_def changes)
qed

text \<open>
  What execution leaves for \<open>into_effects\<close> besides the consistency that is checked.  No object is both
  written and deleted (an assertion of debug builds).  A written package is created, or it replaces a
  modified one and has a next version.  An object that is created as shared has a blank initial
  version.  A modified system package exists in the store.  The gas coin, if there is one, is written.
\<close>

definition effects_ready :: "temporary_store \<Rightarrow> gas_charger \<Rightarrow> bool" where
  "effects_ready ts gc \<longleftrightarrow>
     (let r = ts_execution_results ts in
      fst ` set (written_objects r) \<inter> set (deleted_object_ids r) = {} \<and>
      (\<forall>(i, ob) \<in> set (written_objects r).
         (\<forall>p. o_data ob = Package p \<longrightarrow>
            i \<in> set (created_object_ids r) \<or>
            i \<in> set (modified_objects r) \<and> package_increment_version p \<noteq> None) \<and>
         (\<forall>v. o_owner ob = Shared v \<longrightarrow> i \<in> set (created_object_ids r) \<longrightarrow> v = 0)) \<and>
      (\<forall>i \<in> set (modified_objects r). is_system_package i \<longrightarrow>
         (\<exists>ob. bs_get_object (ts_store ts) i = Inr (Some ob))) \<and>
      (\<forall>coin. gc_smashed_gas_coin gc = Some coin \<longrightarrow> coin \<in> fst ` set (written_objects r)))"

lemma update_written_returns:
  assumes "check_execution_results_consistency ts = Inr ()" and "effects_ready ts gc" and "(i, ob) \<in> set (ts_written ts)"
  shows "\<exists>ob'. update_written (ts_execution_results ts) l tx i ob = Some ob' \<and> is_package ob' = is_package ob"
proof -
  let ?r = "ts_execution_results ts"
  have created: "i \<notin> set (ts_modified ts)" if "i \<in> set (created_object_ids ?r)"
    using assms(1) that by (auto simp: check_execution_results_consistency_def Let_def list_all_iff split: if_splits)
  have pkg: "i \<in> set (created_object_ids ?r) \<or> i \<in> set (ts_modified ts) \<and> package_increment_version p \<noteq> None"
    if "o_data ob = Package p" for p
    using assms(2,3) that unfolding effects_ready_def Let_def by blast
  have shared: "v = 0" if "o_owner ob = Shared v" "i \<in> set (created_object_ids ?r)" for v
    using assms(2,3) that unfolding effects_ready_def Let_def by blast
  show ?thesis
    using created pkg shared
    by (cases "o_data ob"; cases "o_owner ob")
      (fastforce simp: update_written_def is_package_def rust_assert_def)+
qed

lemma update_version_returns:
  assumes "check_execution_results_consistency ts = Inr ()" and "effects_ready ts gc"
  obtains written where
    "update_object_version_and_prev_tx ts = Some (ts\<lparr>ts_execution_results := (ts_execution_results ts)\<lparr>written_objects := written\<rparr>\<rparr>)"
    and "list_all2 (\<lambda>e e'. fst e' = fst e \<and> is_package (snd e') = is_package (snd e)) (ts_written ts) written"
proof -
  let ?upd = "\<lambda>i ob. update_written (ts_execution_results ts) (ts_lamport_timestamp ts) (ts_tx_digest ts) i ob"
  let ?w = "map (\<lambda>(i, ob). (i, the (?upd i ob))) (ts_written ts)"
  have each: "\<exists>ob'. ?upd i ob = Some ob' \<and> is_package ob' = is_package ob" if "(i, ob) \<in> set (ts_written ts)" for i ob
    by (rule update_written_returns [OF assms that])
  have "those (map (\<lambda>(i, ob). map_option (Pair i) (?upd i ob)) (ts_written ts)) = Some ?w"
    by (rule those_map_Some) (use each in force)
  moreover have "list_all2 (\<lambda>e e'. fst e' = fst e \<and> is_package (snd e') = is_package (snd e)) (ts_written ts) ?w"
    unfolding list.rel_map by (rule list.rel_refl_strong) (use each in force)
  ultimately show ?thesis
    using that [of ?w] by (simp add: update_object_version_and_prev_tx_def update_version_and_previous_tx_def)
qed

lemma get_object_changes_returns:
  assumes "check_execution_results_consistency ts = Inr ()"
    and "dom (map_of (ts_mutable_input_refs ts)) \<subseteq> dom (map_of (ts_input_objects ts))"
    and "\<forall>i \<in> set (ts_modified ts). is_system_package i \<longrightarrow> (\<exists>ob. bs_get_object (ts_store ts) i = Inr (Some ob))"
  shows "\<exists>changes. get_object_changes env ts = Some changes"
proof -
  have "metadata_before env ts i \<noteq> None" if i: "i \<in> set (ts_modified ts)" for i
  proof (cases "map_of (ts_mutable_input_refs ts) i")
    case (Some ref)
    with assms(2) obtain ob where "map_of (ts_input_objects ts) i = Some ob" by blast
    with Some show ?thesis by (cases ref) (auto simp: metadata_before_def)
  next
    case none: None
    show ?thesis
    proof (cases "map_of (ts_loaded_runtime_objects ts) i")
      case None
      with none i assms(1) have "is_system_package i"
        by (auto simp: check_execution_results_consistency_def Let_def list_all_iff map_of_eq_None_iff split: if_splits)
      with assms(3) i none None show ?thesis by (auto simp: metadata_before_def)
    qed (use none in \<open>simp add: metadata_before_def\<close>)
  qed
  then have "\<exists>meta. get_object_modified_at env ts i = Some meta" for i
    by (auto simp: get_object_modified_at_def)
  then obtain meta where "\<And>i. get_object_modified_at env ts i = Some (meta i)" by metis
  then show ?thesis by (simp add: get_object_changes_def Let_def those_map_Some)
qed

lemma updated_gas_object_info_returns:
  assumes "filed (ts_written ts)" and "\<And>coin. gc_smashed_gas_coin gc = Some coin \<Longrightarrow> coin \<in> fst ` set (ts_written ts)"
  shows "\<exists>g. updated_gas_object_info env ts gc = Some g"
proof (cases "gc_smashed_gas_coin gc")
  case (Some coin)
  with assms(2) have "map_of (ts_written ts) coin \<noteq> None" by (simp add: map_of_eq_None_iff)
  then obtain ob where ob: "map_of (ts_written ts) coin = Some ob" by blast
  with assms(1) have "object_id_of ob = Some coin" by (simp add: filed_def)
  with Some ob show ?thesis by (simp add: updated_gas_object_info_def compute_object_reference_def)
qed (simp add: updated_gas_object_info_def)

lemma into_effects_returns:
  assumes "update_object_version_and_prev_tx ts = Some ts'" and "updated_gas_object_info env ts' gc = Some g"
    and "get_object_changes env ts' = Some changes"
    and "\<And>lamport events deps. \<exists>e. new_from_execution_v2 status epoch summ shared tx lamport changes g events deps = Some e"
  shows "\<exists>inner e. into_effects env h ts shared tx deps summ status gc epoch = Some (inner, e)"
proof -
  obtain e where "new_from_execution_v2 status epoch summ shared tx (ts_lamport_timestamp ts') changes g
      (if its_events (into_inner ts') = [] then None else Some (h (its_events (into_inner ts'))))
      (fold (receive_dependency (ts_loaded_runtime_objects ts')) (ts_receiving_objects ts') deps) = Some e"
    using assms(4) by blast
  with assms(1-3) have "into_effects env h ts shared tx deps summ status gc epoch = Some (into_inner ts', e)"
    by (simp add: into_effects_def Let_def)
  then show ?thesis by blast
qed

text \<open>
  C14.  The effects of a finished execution can be built: when the results pass
  \<open>check_execution_results_consistency\<close> and satisfy \<open>effects_ready\<close>, then \<open>into_effects\<close> returns.  No
  version overflows, the gas coin and every modified object are found, and every object change is one
  of the combinations that \<open>new_from_execution_v2\<close> expects: none of its \<open>unreachable!\<close> branches is taken.
\<close>

theorem consistent_results_have_effects:
  assumes "store_inv ts" and "check_execution_results_consistency ts = Inr ()" and "effects_ready ts gc"
  shows "\<exists>inner e. into_effects env h ts shared tx deps summ status gc epoch = Some (inner, e)"
proof -
  obtain written where
    upd: "update_object_version_and_prev_tx ts = Some (ts\<lparr>ts_execution_results := (ts_execution_results ts)\<lparr>written_objects := written\<rparr>\<rparr>)"
    and same: "list_all2 (\<lambda>e e'. fst e' = fst e \<and> is_package (snd e') = is_package (snd e)) (ts_written ts) written"
    by (rule update_version_returns [OF assms(2,3)])
  define ts' where "ts' = ts\<lparr>ts_execution_results := (ts_execution_results ts)\<lparr>written_objects := written\<rparr>\<rparr>"
  have disj: "fst ` set (ts_written ts) \<inter> set (deleted_object_ids (ts_execution_results ts)) = {}"
    and pkg: "\<And>i ob p. (i, ob) \<in> set (ts_written ts) \<Longrightarrow> o_data ob = Package p \<Longrightarrow>
      i \<in> set (created_object_ids (ts_execution_results ts)) \<or> i \<in> set (ts_modified ts)"
    and sys: "\<forall>i \<in> set (ts_modified ts). is_system_package i \<longrightarrow> (\<exists>ob. bs_get_object (ts_store ts) i = Inr (Some ob))"
    and coin: "\<And>coin. gc_smashed_gas_coin gc = Some coin \<Longrightarrow> coin \<in> fst ` set (ts_written ts)"
    using assms(3) unfolding effects_ready_def Let_def by blast+
  have filed: "filed (ts_written ts')"
    using updated_store(1) [OF upd [folded ts'_def]] assms(1) by (simp add: store_inv_def results_inv_def)
  have keys: "map fst written = map fst (ts_written ts)" using same by induction auto
  then have ids: "fst ` set written = fst ` set (ts_written ts)" unfolding set_map [symmetric] by (rule arg_cong)
  have check: "check_execution_results_consistency ts' = Inr ()"
    unfolding assms(2) [symmetric] by (simp add: check_execution_results_consistency_def ts'_def Let_def)
  have pkgs: "\<exists>old. (i, old) \<in> set (ts_written ts) \<and> is_package ob = is_package old" if "(i, ob) \<in> set written" for i ob
    using same that by induction auto
  have "\<exists>changes. get_object_changes env ts' = Some changes"
    by (rule get_object_changes_returns [OF check]) (use assms(1) sys in \<open>simp_all add: ts'_def store_inv_def\<close>)
  then obtain changes where changes: "get_object_changes env ts' = Some changes" ..
  have "\<forall>(i, ob) \<in> set (ts_written ts'). is_package ob \<longrightarrow>
      i \<in> set (created_object_ids (ts_execution_results ts')) \<union> set (ts_modified ts')"
  proof (intro ballI, clarify)
    fix i ob assume w: "(i, ob) \<in> set (ts_written ts')" "is_package ob" "i \<notin> set (ts_modified ts')"
    then obtain old where old: "(i, old) \<in> set (ts_written ts)" "is_package old" using pkgs [of i ob] by (auto simp: ts'_def)
    from old(2) obtain p where "o_data old = Package p" by (auto simp: is_package_def split: obj_data.splits)
    from pkg [OF old(1) this] w(3) show "i \<in> set (created_object_ids (ts_execution_results ts'))" by (simp add: ts'_def)
  qed
  from consistent_changes_classify [OF check _ this changes] disj ids
  have effects: "\<exists>e. new_from_execution_v2 status epoch summ shared tx lamport changes gas events deps' = Some e"
    for lamport gas events deps' by (simp add: ts'_def)
  have "\<exists>g. updated_gas_object_info env ts' gc = Some g"
    by (rule updated_gas_object_info_returns [OF filed]) (use coin ids in \<open>simp add: ts'_def\<close>)
  then obtain g where "updated_gas_object_info env ts' gc = Some g" ..
  from into_effects_returns [OF upd [folded ts'_def] this changes effects] show ?thesis .
qed

theorem consistent_results_have_effects_witness:
  "\<exists>inner e. into_effects sample_env (\<lambda>es. 0) sample_touched [] 42 [] summary_default Success
      (sample_charger\<lparr>gc_smashed_gas_coin := Some 8\<rparr>) 0 = Some (inner, e)"
proof (rule consistent_results_have_effects [OF sample_touched_inv])
  show "check_execution_results_consistency sample_touched = Inr ()" by code_simp
  have "list_all (\<lambda>i. i \<notin> set (deleted_object_ids (ts_execution_results sample_touched)))
      (map fst (ts_written sample_touched))" "list_ex (\<lambda>i. i = 8) (map fst (ts_written sample_touched))"
    "list_all (\<lambda>(i, ob). \<not> is_package ob \<and> is_address_owned (o_owner ob)) (ts_written sample_touched)"
    "list_all (\<lambda>i. \<not> is_system_package i) (ts_modified sample_touched)" by code_simp+
  then show "effects_ready sample_touched (sample_charger\<lparr>gc_smashed_gas_coin := Some 8\<rparr>)"
    by (fastforce simp: effects_ready_def Let_def list_all_iff list_ex_iff is_package_def)
qed

definition sample_changes :: "(object_id \<times> effects_object_change) list" where
  "sample_changes =
     [(8, \<lparr>oc_input_state = InExist (3, 9) (AddressOwner 17), oc_output_state = ObjectWrite 9 (AddressOwner 17),
        oc_id_operation = IdNone\<rparr>),
      (9, \<lparr>oc_input_state = InExist (3, 9) (AddressOwner 17), oc_output_state = OutNotExist,
        oc_id_operation = IdDeleted\<rparr>),
      (11, \<lparr>oc_input_state = InNotExist, oc_output_state = PackageWrite (1, 5), oc_id_operation = IdCreated\<rparr>)]"

definition sample_effects_v2 :: effects_v2 where
  "sample_effects_v2 = \<lparr>e2_status = Success, e2_executed_epoch = 0, e2_gas_used = summary_default,
     e2_transaction_digest = 42, e2_gas_object_index = 0, e2_events_digest = None, e2_dependencies = [],
     e2_lamport_version = 4, e2_changed_objects = sample_changes, e2_unchanged_shared_objects = [],
     e2_aux_data_digest = None\<rparr>"

theorem effects_v1_refine_v2_witness:
  "\<exists>e1. new_from_execution_v2 Success 0 summary_default [] 42 (e2_lamport_version sample_effects_v2)
      (e2_changed_objects sample_effects_v2) ((8, 4, 9), AddressOwner 17) None [] = Some e1 \<and>
    e1_created e1 = v2_created sample_effects_v2 \<and> e1_deleted e1 = v2_deleted sample_effects_v2 \<and>
    e1_mutated e1 = [((8, 4, 9), AddressOwner 17)]"
proof -
  obtain e1 where e1: "new_from_execution_v2 Success 0 summary_default [] 42 (e2_lamport_version sample_effects_v2)
      (e2_changed_objects sample_effects_v2) ((8, 4, 9), AddressOwner 17) None [] = Some e1"
    by (simp add: new_from_execution_v2_def sample_effects_v2_def sample_changes_def classify_change_def)
  have "v2_mutated sample_effects_v2 = [((8, 4, 9), AddressOwner 17)]"
    by (simp add: v2_mutated_def sample_effects_v2_def sample_changes_def map_filter_simps)
  with effects_v1_refine_v2 [OF e1] e1 show ?thesis by auto
qed

end
