(* ===== verification/Object_Ownership.thy ===== *)
theory Object_Ownership
  imports Gas_Charger
begin

text \<open>
  Models the ownership check of \<open>src/sui-execution/latest/sui-adapter/src/temporary_store.rs\<close>:
  \<open>get_objects_to_authenticate\<close> and \<open>check_ownership_invariants\<close>, the check that every modified object
  is owned, directly or through a chain of parent objects, by an authenticated input.  A
  \<open>HashSet\<close> is a list read as a set, the stack of the loop is a list whose head is the end of the
  vector.  An \<open>ObjectID\<close> made from an address has the same bytes.
\<close>

subsection \<open>What has to be authenticated\<close>

fun authenticate_inputs ::
  "sui_address \<Rightarrow> object_id list \<Rightarrow> object_map \<Rightarrow> object_id list \<Rightarrow> object_id list option" where
  "authenticate_inputs sender gas_objs [] authenticated = Some authenticated"
| "authenticate_inputs sender gas_objs ((i, ob) # inputs) authenticated =
     (if i \<in> set gas_objs then authenticate_inputs sender gas_objs inputs authenticated
      else case o_owner ob of
        AddressOwner a \<Rightarrow> do {
          rust_assert (sender = a);
          authenticate_inputs sender gas_objs inputs (List.insert i authenticated)
        }
      | Shared v \<Rightarrow> authenticate_inputs sender gas_objs inputs (List.insert i authenticated)
      | Immutable \<Rightarrow> authenticate_inputs sender gas_objs inputs authenticated
      | ObjectOwner parent \<Rightarrow> panic)"

text \<open>\<^const>\<open>Inl\<close> is the error of the backing store that \<open>?\<close> passes on.\<close>

fun unauthenticated_modified ::
  "backing_store \<Rightarrow> object_id list \<Rightarrow> object_id list \<Rightarrow> bool \<Rightarrow> object_id list \<Rightarrow> object_id list \<Rightarrow>
     (store_error + object_id list) option" where
  "unauthenticated_modified store gas_objs authenticated is_epoch_change [] acc = Some (Inr acc)"
| "unauthenticated_modified store gas_objs authenticated is_epoch_change (i # ids) acc =
     (if i \<in> set authenticated \<or> i \<in> set gas_objs
      then unauthenticated_modified store gas_objs authenticated is_epoch_change ids acc
      else case bs_get_object store i of
        Inl e \<Rightarrow> Some (Inl e)
      | Inr None \<Rightarrow> panic
      | Inr (Some old_obj) \<Rightarrow>
          (case o_owner old_obj of
             ObjectOwner p \<Rightarrow>
               unauthenticated_modified store gas_objs authenticated is_epoch_change ids (acc @ [i])
           | AddressOwner a \<Rightarrow>
               unauthenticated_modified store gas_objs authenticated is_epoch_change ids (acc @ [i])
           | Shared v \<Rightarrow> panic
           | Immutable \<Rightarrow> do {
               rust_assert is_epoch_change;
               rust_assert (is_system_package i);
               unauthenticated_modified store gas_objs authenticated is_epoch_change ids acc
             }))"

definition get_objects_to_authenticate ::
  "temporary_store \<Rightarrow> sui_address \<Rightarrow> gas_charger \<Rightarrow> bool \<Rightarrow>
     (store_error + object_id list \<times> object_id list) option" where
  "get_objects_to_authenticate ts sender gc is_epoch_change = do {
     let gas_objs = map fst (gc_gas_coins gc);
     authenticated \<leftarrow> authenticate_inputs sender gas_objs (ts_input_objects ts) [];
     r \<leftarrow> unauthenticated_modified (ts_store ts) gas_objs authenticated is_epoch_change (ts_modified ts) [];
     Some (map_sum id (\<lambda>objs. (objs, authenticated)) r)
   }"

subsection \<open>Following the owners\<close>

function authenticate_all ::
  "backing_store \<Rightarrow> object_id list \<Rightarrow> object_id list \<Rightarrow> (object_id, object_id) btree_map \<Rightarrow>
     (store_error + unit) option" where
  "authenticate_all store [] authenticated covered = Some (Inr ())"
| "authenticate_all store (to_authenticate # stack) authenticated covered =
     (case bs_get_object store to_authenticate of
        Inl e \<Rightarrow> Some (Inl e)
      | Inr None \<Rightarrow> authenticate_all store stack authenticated covered
      | Inr (Some old_obj) \<Rightarrow>
          (case get_owner_address (o_owner old_obj) of
             None \<Rightarrow> panic
           | Some parent \<Rightarrow>
               if parent \<in> set authenticated
               then authenticate_all store stack (List.insert to_authenticate authenticated)
                 (btree_insert to_authenticate parent covered)
               else if parent \<notin> fst ` set covered
               then authenticate_all store (parent # stack) authenticated
                 (btree_insert to_authenticate parent covered)
               else authenticate_all store stack authenticated
                 (btree_insert to_authenticate parent covered)))"
  by pat_completeness auto

text \<open>
  The loop ends: an iteration that pushes a parent either covers a new object, or replaces a
  covered object on top of the stack by one that is not covered; every other one shortens the stack.
\<close>

definition uncovered :: "(object_id, object_id) btree_map \<Rightarrow> nat" where
  "uncovered covered = card (- (fst ` set covered))"

lemma uncovered_insert:
  "uncovered (btree_insert x p covered) =
     (if x \<in> fst ` set covered then uncovered covered else uncovered covered - 1)"
  "x \<notin> fst ` set covered \<Longrightarrow> 0 < uncovered covered"
proof -
  have "- insert x (fst ` set covered) = - (fst ` set covered) - {x}" by auto
  then show "uncovered (btree_insert x p covered) =
     (if x \<in> fst ` set covered then uncovered covered else uncovered covered - 1)"
    by (auto simp: uncovered_def insert_absorb card_Diff_singleton_if)
  show "x \<notin> fst ` set covered \<Longrightarrow> 0 < uncovered covered"
    unfolding uncovered_def by (subst card_gt_0_iff) auto
qed

termination authenticate_all
proof (relation "measures [\<lambda>(store, stack, authenticated, covered). uncovered covered,
    \<lambda>(store, stack, authenticated, covered). length stack,
    \<lambda>(store, stack, authenticated, covered).
      case stack of [] \<Rightarrow> 0 | x # xs \<Rightarrow> if x \<in> fst ` set covered then 1 else 0]")
qed (use uncovered_insert in auto)

definition check_ownership_invariants ::
  "temporary_store \<Rightarrow> sui_address \<Rightarrow> gas_charger \<Rightarrow> bool \<Rightarrow> (store_error + unit) option" where
  "check_ownership_invariants ts sender gc is_epoch_change = do {
     r \<leftarrow> get_objects_to_authenticate ts sender gc is_epoch_change;
     (case r of
        Inl e \<Rightarrow> Some (Inl e)
      | Inr (objects_to_authenticate, authenticated_objects) \<Rightarrow>
          authenticate_all (ts_store ts) (rev objects_to_authenticate) authenticated_objects [])
   }"

subsection \<open>What the loop decides\<close>

text \<open>
  The objects on the ownership chains that start in \<open>roots\<close>: a chain goes from an object to its
  parent and stops at a parent that is authenticated.
\<close>

inductive owner_chain :: "backing_store \<Rightarrow> object_id set \<Rightarrow> object_id set \<Rightarrow> object_id \<Rightarrow> bool"
  for store :: backing_store and authenticated :: "object_id set" and roots :: "object_id set" where
  chain_root: "x \<in> roots \<Longrightarrow> owner_chain store authenticated roots x"
| chain_parent: "owner_chain store authenticated roots x \<Longrightarrow> bs_get_object store x = Inr (Some ob) \<Longrightarrow>
    get_owner_address (o_owner ob) = Some p \<Longrightarrow> p \<notin> authenticated \<Longrightarrow>
    owner_chain store authenticated roots p"

text \<open>The store answers, and if the object exists it has an owner that can be followed.\<close>

definition traceable :: "backing_store \<Rightarrow> object_id \<Rightarrow> bool" where
  "traceable store x \<longleftrightarrow> (\<exists>r. bs_get_object store x = Inr r \<and>
     (\<forall>ob. r = Some ob \<longrightarrow> get_owner_address (o_owner ob) \<noteq> None))"

lemma owner_chain_mono:
  assumes "owner_chain store authenticated roots x" and "\<And>y. y \<in> roots \<Longrightarrow> owner_chain store authenticated roots' y"
  shows "owner_chain store authenticated roots' x"
  using assms by (induction) (auto intro: chain_parent)

lemma owner_chain_insert:
  "owner_chain store authenticated (insert x roots) y \<longleftrightarrow>
     owner_chain store authenticated {x} y \<or> owner_chain store authenticated roots y" (is "?l = ?r")
proof
  assume ?l
  then show ?r by induction (auto intro: owner_chain.intros)
next
  assume ?r
  then show ?l by (auto elim!: owner_chain_mono intro: chain_root)
qed

lemma owner_chain_single:
  assumes "bs_get_object store x = Inr (Some ob)" and "get_owner_address (o_owner ob) = Some p"
  shows "owner_chain store authenticated {x} y \<longleftrightarrow>
    y = x \<or> (p \<notin> authenticated \<and> owner_chain store authenticated {p} y)" (is "?l = ?r")
proof
  assume ?l
  then show ?r
  proof induction
    case (chain_parent z ob' q)
    with assms show ?case by (auto intro: owner_chain.intros)
  qed simp
next
  assume ?r
  then show ?l
    using owner_chain_mono [of store authenticated "{p}" y "{x}"] assms
    by (auto intro: chain_root chain_parent)
qed

lemma owner_chain_missing:
  "bs_get_object store x = Inr None \<Longrightarrow> owner_chain store authenticated {x} y \<longleftrightarrow> y = x"
proof
  assume none: "bs_get_object store x = Inr None" and "owner_chain store authenticated {x} y"
  from this(2) show "y = x" by induction (use none in auto)
qed (auto intro: chain_root)

text \<open>
  The invariant of the loop: what became authenticated was covered, and the parent of a covered
  object was authenticated from the start, is covered, still on the stack, or does not exist.
\<close>

definition loop_inv ::
  "backing_store \<Rightarrow> object_id set \<Rightarrow> object_id list \<Rightarrow> object_id list \<Rightarrow> object_id set \<Rightarrow> bool" where
  "loop_inv store auth0 stack authenticated seen \<longleftrightarrow>
     auth0 \<subseteq> set authenticated \<and> set authenticated \<subseteq> auth0 \<union> seen \<and>
     (\<forall>x \<in> seen. \<exists>ob p. bs_get_object store x = Inr (Some ob) \<and> get_owner_address (o_owner ob) = Some p \<and>
        p \<in> auth0 \<union> seen \<union> set stack \<union> {y. bs_get_object store y = Inr None})"

lemma loop_inv_chain:
  assumes "loop_inv store auth0 stack authenticated seen" and "s \<in> seen"
    and "owner_chain store auth0 {s} y"
  shows "y \<in> seen \<or> owner_chain store auth0 (set stack) y \<or> bs_get_object store y = Inr None"
  using assms(3)
proof induction
  case (chain_parent x ob p)
  from chain_parent.IH show ?case
  proof (elim disjE)
    assume "x \<in> seen"
    with assms(1) chain_parent.hyps show ?thesis by (fastforce simp: loop_inv_def intro: chain_root)
  next
    assume "owner_chain store auth0 (set stack) x"
    with chain_parent.hyps show ?thesis by (blast intro: owner_chain.chain_parent)
  qed (use chain_parent.hyps in simp)
qed (use assms(2) in simp)

lemma loop_inv_traceable:
  assumes "loop_inv store auth0 stack authenticated seen" and "s \<in> seen" and "owner_chain store auth0 {s} y"
    and "\<forall>x. owner_chain store auth0 (set stack) x \<longrightarrow> traceable store x"
  shows "traceable store y"
proof -
  have "x \<in> seen \<Longrightarrow> traceable store x" for x
    using assms(1) by (fastforce simp: loop_inv_def traceable_def)
  with loop_inv_chain [OF assms(1-3)] assms(4) show ?thesis by (auto simp: traceable_def)
qed

text \<open>An object whose parent is already accounted for adds nothing to the chains of the stack.\<close>

lemma chain_skip:
  assumes "loop_inv store auth0 stack authenticated seen" and "p \<in> auth0 \<union> seen"
    and "bs_get_object store x = Inr (Some ob)" and "get_owner_address (o_owner ob) = Some p"
  shows "(\<forall>y. owner_chain store auth0 (set (x # stack)) y \<longrightarrow> traceable store y) \<longleftrightarrow>
    (\<forall>y. owner_chain store auth0 (set stack) y \<longrightarrow> traceable store y)"
proof -
  have "traceable store x" using assms(3,4) by (simp add: traceable_def)
  moreover have "traceable store y"
    if "p \<notin> auth0" "owner_chain store auth0 {p} y" "\<forall>y. owner_chain store auth0 (set stack) y \<longrightarrow> traceable store y" for y
    using loop_inv_traceable [OF assms(1) _ that(2,3)] assms(2) that(1) by blast
  ultimately show ?thesis
    unfolding list.set owner_chain_insert [of store auth0 x "set stack"] owner_chain_single [OF assms(3,4)] by blast
qed

lemma chain_push:
  assumes "p \<notin> auth0" and "bs_get_object store x = Inr (Some ob)" and "get_owner_address (o_owner ob) = Some p"
  shows "(\<forall>y. owner_chain store auth0 (set (x # stack)) y \<longrightarrow> traceable store y) \<longleftrightarrow>
    (\<forall>y. owner_chain store auth0 (set (p # stack)) y \<longrightarrow> traceable store y)"
proof -
  have "traceable store x" using assms(2,3) by (simp add: traceable_def)
  then show ?thesis
    unfolding list.set owner_chain_insert [of store auth0 _ "set stack"] owner_chain_single [OF assms(2,3)]
    using assms(1) by blast
qed

lemma loop_inv_cover:
  assumes "loop_inv store auth0 (x # stack) authenticated seen"
    and "bs_get_object store x = Inr (Some ob)" and "get_owner_address (o_owner ob) = Some p"
    and "p \<in> auth0 \<union> seen \<union> set stack'" and "set stack \<subseteq> set stack'"
    and "set authenticated' = set authenticated \<or> set authenticated' = insert x (set authenticated)"
  shows "loop_inv store auth0 stack' authenticated' (insert x seen)"
proof -
  have "\<exists>ob q. bs_get_object store y = Inr (Some ob) \<and> get_owner_address (o_owner ob) = Some q \<and>
      q \<in> auth0 \<union> insert x seen \<union> set stack' \<union> {z. bs_get_object store z = Inr None}" if "y \<in> insert x seen" for y
  proof (cases "y = x")
    case True
    with assms(2-4) show ?thesis by auto
  next
    case False
    with that assms(1) obtain ob' q where "bs_get_object store y = Inr (Some ob')"
      "get_owner_address (o_owner ob') = Some q"
      "q \<in> auth0 \<union> seen \<union> set (x # stack) \<union> {z. bs_get_object store z = Inr None}"
      unfolding loop_inv_def by blast
    with assms(5) show ?thesis by auto
  qed
  moreover have "auth0 \<subseteq> set authenticated'" "set authenticated' \<subseteq> auth0 \<union> insert x seen"
    using assms(1,6) unfolding loop_inv_def by blast+
  ultimately show ?thesis unfolding loop_inv_def by blast
qed

lemma authenticate_all_iff:
  assumes "loop_inv store auth0 stack authenticated (fst ` set covered)"
  shows "authenticate_all store stack authenticated covered = Some (Inr ()) \<longleftrightarrow>
    (\<forall>x. owner_chain store auth0 (set stack) x \<longrightarrow> traceable store x)"
  using assms
proof (induction store stack authenticated covered rule: authenticate_all.induct)
  case (1 store authenticated covered)
  have "\<not> owner_chain store auth0 {} x" for x
    by (rule notI, induction rule: owner_chain.induct) auto
  then show ?case by simp
next
  case (2 store x stack authenticated covered)
  let ?seen = "fst ` set covered"
  show ?case
  proof (cases "bs_get_object store x")
    case (Inl e)
    then have "owner_chain store auth0 (set (x # stack)) x" "\<not> traceable store x"
      by (auto intro: chain_root simp: traceable_def)
    with Inl show ?thesis by auto
  next
    case (Inr r)
    show ?thesis
    proof (cases r)
      case None
      have "loop_inv store auth0 stack authenticated ?seen"
        using "2.prems" Inr None unfolding loop_inv_def by fastforce
      from "2.IH"(1) [OF Inr None this] show ?thesis
        using Inr None by (auto simp: owner_chain_insert [of store auth0 x "set stack"] owner_chain_missing traceable_def)
    next
      case (Some ob)
      note found = Inr [unfolded Some]
      show ?thesis
      proof (cases "get_owner_address (o_owner ob)")
        case None
        have "owner_chain store auth0 (set (x # stack)) x" "\<not> traceable store x"
          using found None by (auto intro: chain_root simp: traceable_def)
        with found None show ?thesis by auto
      next
        case (Some p)
        note cover = loop_inv_cover [OF "2.prems" found Some]
        consider (auth) "p \<in> set authenticated" | (push) "p \<notin> set authenticated" "p \<notin> ?seen"
          | (seen) "p \<notin> set authenticated" "p \<in> ?seen" by blast
        then show ?thesis
        proof cases
          case auth
          then have p: "p \<in> auth0 \<union> ?seen" using "2.prems" by (auto simp: loop_inv_def)
          have inv: "loop_inv store auth0 stack (List.insert x authenticated) (fst ` set (btree_insert x p covered))"
            using cover [of stack "List.insert x authenticated"] p by auto
          from "2.IH"(2) [OF Inr \<open>r = Some ob\<close> Some auth inv] chain_skip [OF inv _ found Some] p
          show ?thesis using found Some auth by simp
        next
          case push
          have inv: "loop_inv store auth0 (p # stack) authenticated (fst ` set (btree_insert x p covered))"
            using cover [of "p # stack" authenticated] by auto
          have "p \<notin> auth0" using push(1) "2.prems" by (auto simp: loop_inv_def)
          from "2.IH"(3) [OF Inr \<open>r = Some ob\<close> Some push inv] chain_push [OF this found Some]
          show ?thesis using found Some push by simp
        next
          case seen
          have inv: "loop_inv store auth0 stack authenticated (fst ` set (btree_insert x p covered))"
            using cover [of stack authenticated] seen(2) by auto
          from "2.IH"(4) [OF Inr \<open>r = Some ob\<close> Some seen(1) _ inv] chain_skip [OF inv _ found Some] seen
          show ?thesis using found Some by simp
        qed
      qed
    qed
  qed
qed

subsection \<open>What a passed check means\<close>

lemma authenticate_inputs_set:
  assumes "authenticate_inputs sender gas_objs inputs acc = Some authenticated"
  shows "set authenticated = set acc \<union> {i. i \<notin> set gas_objs \<and>
    (\<exists>ob. (i, ob) \<in> set inputs \<and> (o_owner ob = AddressOwner sender \<or> (\<exists>v. o_owner ob = Shared v)))}"
  using assms
proof (induction sender gas_objs inputs acc rule: authenticate_inputs.induct)
  case (2 sender gas_objs i ob inputs acc)
  then show ?case by (cases "o_owner ob") (auto simp: bind_eq_Some_conv split: if_splits)
qed simp

text \<open>
  A modified object that is neither gas nor an authenticated input: owned and put on the list of the
  objects to authenticate, or a system package that an epoch change replaces.
\<close>

definition accounted :: "bool \<Rightarrow> object_id set \<Rightarrow> object_id \<Rightarrow> sui_object \<Rightarrow> bool" where
  "accounted is_epoch_change objs i ob \<longleftrightarrow>
     get_owner_address (o_owner ob) \<noteq> None \<and> i \<in> objs \<or>
     o_owner ob = Immutable \<and> is_epoch_change \<and> is_system_package i"

lemma accounted_simps [simp]:
  "o_owner ob = AddressOwner a \<Longrightarrow> accounted is_epoch_change objs i ob \<longleftrightarrow> i \<in> objs"
  "o_owner ob = ObjectOwner p \<Longrightarrow> accounted is_epoch_change objs i ob \<longleftrightarrow> i \<in> objs"
  "o_owner ob = Immutable \<Longrightarrow> accounted is_epoch_change objs i ob \<longleftrightarrow> is_epoch_change \<and> is_system_package i"
  by (auto simp: accounted_def)

lemma unauthenticated_modified_set:
  assumes "unauthenticated_modified store gas_objs authenticated is_epoch_change ids acc = Some (Inr objs)"
  shows "set acc \<subseteq> set objs" and "\<And>i. i \<in> set ids \<Longrightarrow> i \<in> set authenticated \<or> i \<in> set gas_objs \<or>
    (\<exists>ob. bs_get_object store i = Inr (Some ob) \<and> accounted is_epoch_change (set objs) i ob)"
proof -
  have "set acc \<subseteq> set objs \<and> (\<forall>i \<in> set ids. i \<in> set authenticated \<or> i \<in> set gas_objs \<or>
      (\<exists>ob. bs_get_object store i = Inr (Some ob) \<and> accounted is_epoch_change (set objs) i ob))"
    using assms
  proof (induction store gas_objs authenticated is_epoch_change ids acc rule: unauthenticated_modified.induct)
    case (2 store gas_objs authenticated is_epoch_change i ids acc)
    show ?case
    proof (cases "i \<in> set authenticated \<or> i \<in> set gas_objs")
      case True
      with 2 show ?thesis by auto
    next
      case False
      with "2.prems" obtain ob where found: "bs_get_object store i = Inr (Some ob)"
        by (auto split: sum.splits option.splits)
      from "2.IH"(2-4) [OF False found refl] "2.prems" False found show ?thesis
        by (cases "o_owner ob"; simp add: bind_eq_Some_conv; blast)
    qed
  qed simp
  then show "set acc \<subseteq> set objs" and "\<And>i. i \<in> set ids \<Longrightarrow> i \<in> set authenticated \<or> i \<in> set gas_objs \<or>
    (\<exists>ob. bs_get_object store i = Inr (Some ob) \<and> accounted is_epoch_change (set objs) i ob)" by auto
qed

text \<open>The inputs that count as authenticated: not gas, and owned by the sender or shared.\<close>

definition authenticated_inputs :: "temporary_store \<Rightarrow> sui_address \<Rightarrow> gas_charger \<Rightarrow> object_id set" where
  "authenticated_inputs ts sender gc = {i. i \<notin> fst ` set (gc_gas_coins gc) \<and>
     (\<exists>ob. (i, ob) \<in> set (ts_input_objects ts) \<and> (o_owner ob = AddressOwner sender \<or> (\<exists>v. o_owner ob = Shared v)))}"

lemma objects_to_authenticate:
  assumes "get_objects_to_authenticate ts sender gc is_epoch_change = Some (Inr (objs, authenticated))"
  shows "set authenticated = authenticated_inputs ts sender gc"
    and "i \<in> set (ts_modified ts) \<Longrightarrow> i \<in> set authenticated \<or> i \<in> fst ` set (gc_gas_coins gc) \<or>
      (\<exists>ob. bs_get_object (ts_store ts) i = Inr (Some ob) \<and> accounted is_epoch_change (set objs) i ob)"
proof -
  from assms obtain a r where
    a: "authenticate_inputs sender (map fst (gc_gas_coins gc)) (ts_input_objects ts) [] = Some a" and
    r: "unauthenticated_modified (ts_store ts) (map fst (gc_gas_coins gc)) a is_epoch_change (ts_modified ts) [] = Some r"
      "map_sum id (\<lambda>objs. (objs, a)) r = Inr (objs, authenticated)"
    by (auto simp: get_objects_to_authenticate_def bind_eq_Some_conv Let_def)
  from r(2) have "r = Inr objs" "a = authenticated" by (cases r; simp)+
  with a r(1) have auth: "authenticate_inputs sender (map fst (gc_gas_coins gc)) (ts_input_objects ts) [] = Some authenticated"
    and objs: "unauthenticated_modified (ts_store ts) (map fst (gc_gas_coins gc)) authenticated is_epoch_change
      (ts_modified ts) [] = Some (Inr objs)" by simp_all
  show "set authenticated = authenticated_inputs ts sender gc"
    using authenticate_inputs_set [OF auth] by (simp add: authenticated_inputs_def)
  show "i \<in> set (ts_modified ts) \<Longrightarrow> i \<in> set authenticated \<or> i \<in> fst ` set (gc_gas_coins gc) \<or>
      (\<exists>ob. bs_get_object (ts_store ts) i = Inr (Some ob) \<and> accounted is_epoch_change (set objs) i ob)"
    using unauthenticated_modified_set(2) [OF objs] by simp
qed

lemma authenticate_all_start:
  "authenticate_all store stack authenticated [] = Some (Inr ()) \<longleftrightarrow>
     (\<forall>x. owner_chain store (set authenticated) (set stack) x \<longrightarrow> traceable store x)"
  by (rule authenticate_all_iff) (simp add: loop_inv_def)

text \<open>
  C15.  The loop of the ownership check ends for every backing store, also when ownership is cyclic,
  and it accepts exactly when every object on the ownership chains of the objects to authenticate
  can be followed: the store answers for it and, if it exists, it is owned by an address or an
  object.  An unauthenticated shared or immutable object at the root of a chain makes it panic.
\<close>

theorem ownership_check_follows_chains:
  assumes "get_objects_to_authenticate ts sender gc is_epoch_change = Some (Inr (objs, authenticated))"
  shows "check_ownership_invariants ts sender gc is_epoch_change = Some (Inr ()) \<longleftrightarrow>
    (\<forall>x. owner_chain (ts_store ts) (authenticated_inputs ts sender gc) (set objs) x \<longrightarrow> traceable (ts_store ts) x)"
proof -
  have "check_ownership_invariants ts sender gc is_epoch_change =
      authenticate_all (ts_store ts) (rev objs) authenticated []"
    using assms by (simp add: check_ownership_invariants_def)
  then show ?thesis
    by (simp only: authenticate_all_start objects_to_authenticate(1) [OF assms] set_rev)
qed

text \<open>
  C16.  A transaction that passes the check modified only its gas coins, inputs that the sender owns
  or that are shared, and objects that exist in the store and are either immutable system packages in
  an epoch change or owned by an address or an object.  In the last case the owners can be followed
  until they reach an authenticated input, an identifier without an object, or a cycle; no shared or
  immutable object is met on the way.
\<close>

theorem modified_objects_are_authenticated:
  assumes "check_ownership_invariants ts sender gc is_epoch_change = Some (Inr ())"
    and "i \<in> set (ts_modified ts)"
  shows "i \<in> fst ` set (gc_gas_coins gc) \<or> i \<in> authenticated_inputs ts sender gc \<or>
    (\<exists>ob. bs_get_object (ts_store ts) i = Inr (Some ob) \<and>
      (o_owner ob = Immutable \<and> is_epoch_change \<and> is_system_package i \<or>
       get_owner_address (o_owner ob) \<noteq> None \<and>
       (\<forall>x. owner_chain (ts_store ts) (authenticated_inputs ts sender gc) {i} x \<longrightarrow> traceable (ts_store ts) x)))"
proof -
  from assms(1) obtain r where r: "get_objects_to_authenticate ts sender gc is_epoch_change = Some r"
    by (auto simp: check_ownership_invariants_def bind_eq_Some_conv)
  with assms(1) obtain objs authenticated where
    get: "get_objects_to_authenticate ts sender gc is_epoch_change = Some (Inr (objs, authenticated))" and
    loop: "authenticate_all (ts_store ts) (rev objs) authenticated [] = Some (Inr ())"
    by (cases r) (auto simp: check_ownership_invariants_def)
  note objs = objects_to_authenticate [OF get]
  have chains: "traceable (ts_store ts) x"
    if "owner_chain (ts_store ts) (authenticated_inputs ts sender gc) (set objs) x" for x
    using loop that unfolding authenticate_all_start objs(1) set_rev by blast
  have "owner_chain (ts_store ts) (authenticated_inputs ts sender gc) (set objs) x"
    if "i \<in> set objs" "owner_chain (ts_store ts) (authenticated_inputs ts sender gc) {i} x" for x
    using that(2) by (rule owner_chain_mono) (use that(1) in \<open>auto intro: chain_root\<close>)
  with chains objs assms(2) show ?thesis unfolding accounted_def by blast
qed

text \<open>A shared input 30, and a dynamic field 31 of it that was modified.\<close>

definition owned_object :: "u8 \<Rightarrow> owner \<Rightarrow> sui_object" where
  "owned_object i own = \<lparr>o_data = Move \<lparr>mo_type = StakedSui, mo_has_public_transfer = False, mo_version = 3,
     mo_contents = replicate 31 0 @ [i]\<rparr>, o_owner = own, o_previous_transaction = 0, o_storage_rebate = 0\<rparr>"

definition owned_backing :: backing_store where
  "owned_backing = empty_backing\<lparr>bs_get_object := (\<lambda>i.
     if i = 30 then Inr (Some (owned_object 30 (Shared 1)))
     else if i = 31 then Inr (Some (owned_object 31 (ObjectOwner 30))) else Inr None)\<rparr>"

definition sample_owned :: temporary_store where
  "sample_owned = sample_store\<lparr>ts_store := owned_backing, ts_input_objects := [(30, owned_object 30 (Shared 1))],
     ts_execution_results := results_default\<lparr>modified_objects := [30, 31]\<rparr>\<rparr>"

lemma sample_owned_check: "check_ownership_invariants sample_owned 17 sample_charger False = Some (Inr ())"
  by code_simp

theorem ownership_check_follows_chains_witness:
  "get_objects_to_authenticate sample_owned 17 sample_charger False = Some (Inr ([31], [30])) \<and>
   {x. owner_chain owned_backing (authenticated_inputs sample_owned 17 sample_charger) {31} x} \<subseteq>
     {x. traceable owned_backing x}"
proof
  show *: "get_objects_to_authenticate sample_owned 17 sample_charger False = Some (Inr ([31], [30]))"
    by code_simp
  have "ts_store sample_owned = owned_backing" by (simp add: sample_owned_def)
  with ownership_check_follows_chains [OF *] sample_owned_check
  show "{x. owner_chain owned_backing (authenticated_inputs sample_owned 17 sample_charger) {31} x} \<subseteq>
      {x. traceable owned_backing x}" by (simp add: Collect_mono)
qed

theorem modified_objects_are_authenticated_witness:
  "check_ownership_invariants sample_owned 17 sample_charger False = Some (Inr ()) \<and>
   31 \<in> set (ts_modified sample_owned) \<and> bs_get_object owned_backing 31 = Inr (Some (owned_object 31 (ObjectOwner 30))) \<and>
   {x. owner_chain owned_backing (authenticated_inputs sample_owned 17 sample_charger) {31} x} \<subseteq>
     {x. traceable owned_backing x}"
proof -
  have mem: "31 \<in> set (ts_modified sample_owned)" and store: "ts_store sample_owned = owned_backing"
    by (simp_all add: sample_owned_def)
  have "31 \<notin> fst ` set (gc_gas_coins sample_charger)" by (simp add: sample_charger_def)
  moreover have "31 \<notin> authenticated_inputs sample_owned 17 sample_charger"
    by (simp add: authenticated_inputs_def sample_owned_def)
  moreover have found: "bs_get_object owned_backing 31 = Inr (Some (owned_object 31 (ObjectOwner 30)))"
    by (simp add: owned_backing_def)
  ultimately show ?thesis
    using modified_objects_are_authenticated [OF sample_owned_check mem, unfolded store] sample_owned_check mem
    by (auto simp: found owned_object_def)
qed

end
