(* ===== verification/Transaction_Data.thy ===== *)
theory Transaction_Data
  imports Temporary_Store "HOL-Library.Product_Lexorder"
begin

section \<open>Transaction data\<close>

text \<open>
  Models \<open>src/crates/sui-types/src/transaction.rs\<close>: the arguments and commands of programmable
  transactions, the kinds of transactions, the gas data, the checks that need no object
  (\<open>validity_check\<close>), and the derivation of the input objects a transaction names.  Identifiers are
  strings, counts and lengths (\<open>usize\<close>) are natural numbers; a limit of \<open>ProtocolConfig\<close> is a
  field of \<open>tx_config\<close>, which extends the record of the gas parameters.
\<close>

record tx_config = protocol_config +
  tc_version :: u64
  tc_max_type_argument_depth :: u32
  tc_max_type_arguments :: u32
  tc_max_arguments :: u32
  tc_max_pure_argument_size :: u32
  tc_max_programmable_tx_commands :: u32
  tc_max_modules_in_publish :: u32
  tc_max_publish_or_upgrade_per_ptb :: "u64 option"
  tc_max_gas_payment_objects :: u32
  tc_max_input_objects :: u64
  tc_receiving_objects_supported :: bool
  tc_enable_jwk_consensus_updates :: bool
  tc_end_of_epoch_transaction_supported :: bool

subsection \<open>Arguments and commands\<close>

datatype object_arg =
    ImmOrOwnedObject object_ref
  | SharedObject object_id sequence_number bool
  | Receiving object_ref

datatype call_arg = PureArg "u8 list" | ObjectCallArg object_arg

datatype argument = ArgGasCoin | ArgInput u16 | ArgResult u16 | ArgNestedResult u16 u16

record programmable_move_call =
  pm_package :: object_id
  pm_module :: string
  pm_function :: string
  pm_type_arguments :: "type_tag list"
  pm_arguments :: "argument list"

datatype command =
    MoveCall programmable_move_call
  | TransferObjects "argument list" argument
  | SplitCoins argument "argument list"
  | MergeCoins argument "argument list"
  | Publish "u8 list list" "object_id list"
  | MakeMoveVec "type_tag option" "argument list"
  | Upgrade "u8 list list" "object_id list" object_id argument

record programmable_transaction =
  pt_inputs :: "call_arg list"
  pt_commands :: "command list"

fun object_arg_id :: "object_arg \<Rightarrow> object_id" where
  "object_arg_id (Receiving (i, v, d)) = i"
| "object_arg_id (ImmOrOwnedObject (i, v, d)) = i"
| "object_arg_id (SharedObject i v mutable) = i"

fun call_arg_input_objects :: "call_arg \<Rightarrow> input_object_kind list" where
  "call_arg_input_objects (PureArg p) = []"
| "call_arg_input_objects (ObjectCallArg (ImmOrOwnedObject object_ref)) = [ImmOrOwnedMoveObject object_ref]"
| "call_arg_input_objects (ObjectCallArg (SharedObject i initial_shared_version mutable)) =
     [SharedMoveObject i initial_shared_version mutable]"
| "call_arg_input_objects (ObjectCallArg (Receiving object_ref)) = []"

fun call_arg_receiving_objects :: "call_arg \<Rightarrow> object_ref list" where
  "call_arg_receiving_objects (PureArg p) = []"
| "call_arg_receiving_objects (ObjectCallArg (ImmOrOwnedObject object_ref)) = []"
| "call_arg_receiving_objects (ObjectCallArg (SharedObject i v mutable)) = []"
| "call_arg_receiving_objects (ObjectCallArg (Receiving object_ref)) = [object_ref]"

fun call_arg_validity_check :: "tx_config \<Rightarrow> call_arg \<Rightarrow> user_input_error + unit" where
  "call_arg_validity_check config (PureArg p) =
     fp_ensure (length p < unat (tc_max_pure_argument_size config))
       (SizeLimitExceeded ''maximum pure argument size'' (unat (tc_max_pure_argument_size config)))"
| "call_arg_validity_check config (ObjectCallArg ob) = Inr ()"

subsection \<open>Type arguments\<close>

definition type_arguments_exceeded :: "tx_config \<Rightarrow> user_input_error" where
  "type_arguments_exceeded config =
     SizeLimitExceeded ''maximum type arguments in a call transaction'' (unat (tc_max_type_arguments config))"

text \<open>The first function checks a tag, the second is the \<open>try_fold\<close> over the parameters of a struct.\<close>

fun type_tag_validity_check :: "tx_config \<Rightarrow> nat \<Rightarrow> nat \<Rightarrow> type_tag \<Rightarrow> user_input_error + nat"
  and type_params_validity_check ::
    "tx_config \<Rightarrow> nat \<Rightarrow> nat \<Rightarrow> nat \<Rightarrow> type_tag list \<Rightarrow> user_input_error + nat" where
  "type_tag_validity_check config depth starting_count tag =
     result_then (fp_ensure (depth < unat (tc_max_type_argument_depth config))
         (SizeLimitExceeded ''maximum type argument depth in a call transaction''
           (unat (tc_max_type_argument_depth config)))) (\<lambda>_.
     result_then (case tag of
         TagVector t \<Rightarrow> type_tag_validity_check config (depth + 1) (starting_count + 1) t
       | TagStruct (StructTag address module name type_params) \<Rightarrow>
           type_params_validity_check config depth starting_count 0 type_params
       | _ \<Rightarrow> Inr 0) (\<lambda>n. Inr (1 + n)))"
| "type_params_validity_check config depth starting_count accum [] = Inr accum"
| "type_params_validity_check config depth starting_count accum (t # ts) =
     result_then (type_tag_validity_check config (depth + 1) (starting_count + 1) t) (\<lambda>n.
     result_then (fp_ensure (accum + n + starting_count < unat (tc_max_type_arguments config))
         (type_arguments_exceeded config)) (\<lambda>_.
     type_params_validity_check config depth starting_count (accum + n) ts))"

text \<open>The loop over the type arguments of a call.\<close>

fun type_arguments_validity_check :: "tx_config \<Rightarrow> nat \<Rightarrow> type_tag list \<Rightarrow> user_input_error + unit" where
  "type_arguments_validity_check config type_arguments_count [] = Inr ()"
| "type_arguments_validity_check config type_arguments_count (tag # tags) =
     result_then (type_tag_validity_check config 1 type_arguments_count tag) (\<lambda>n.
     result_then (fp_ensure (type_arguments_count + n < unat (tc_max_type_arguments config))
         (type_arguments_exceeded config)) (\<lambda>_.
     type_arguments_validity_check config (type_arguments_count + n) tags))"

subsection \<open>Packages a type names\<close>

text \<open>\<open>stack.pop()\<close> takes the last element and \<open>stack.extend\<close> pushes in order: the head of the list is the top.\<close>

function add_type_tag_packages_loop :: "object_id btree_set \<Rightarrow> type_tag list \<Rightarrow> object_id btree_set" where
  "add_type_tag_packages_loop packages [] = packages"
| "add_type_tag_packages_loop packages (cur # stack) =
     (case cur of
        TagVector inner \<Rightarrow> add_type_tag_packages_loop packages (inner # stack)
      | TagStruct (StructTag address module name type_params) \<Rightarrow>
          add_type_tag_packages_loop (bitmap_insert address packages) (rev type_params @ stack)
      | _ \<Rightarrow> add_type_tag_packages_loop packages stack)"
  by pat_completeness auto

text \<open>Every iteration takes one node from the tags on the stack.\<close>

fun tag_nodes :: "type_tag \<Rightarrow> nat" where
  "tag_nodes (TagVector t) = 1 + tag_nodes t"
| "tag_nodes (TagStruct (StructTag address module name type_params)) = 1 + sum_list (map tag_nodes type_params)"
| "tag_nodes _ = 1"

termination add_type_tag_packages_loop
  by (relation "measure (\<lambda>(packages, stack). sum_list (map tag_nodes stack))")
    (auto simp: rev_map [symmetric])

definition add_type_tag_packages :: "object_id btree_set \<Rightarrow> type_tag \<Rightarrow> object_id btree_set" where
  "add_type_tag_packages packages type_argument = add_type_tag_packages_loop packages [type_argument]"

subsection \<open>Move calls and commands\<close>

definition move_call_input_objects :: "programmable_move_call \<Rightarrow> input_object_kind list" where
  "move_call_input_objects call =
     map MovePackageKind (fold (\<lambda>t packages. add_type_tag_packages packages t) (pm_type_arguments call)
       (btree_set_of [pm_package call]))"

definition BLOCKED_MOVE_FUNCTIONS :: "(object_id \<times> string \<times> string) list" where
  "BLOCKED_MOVE_FUNCTIONS = []"

definition move_call_validity_check :: "tx_config \<Rightarrow> programmable_move_call \<Rightarrow> user_input_error + unit" where
  "move_call_validity_check config call =
     (let is_blocked = (pm_package call, pm_module call, pm_function call) \<in> set BLOCKED_MOVE_FUNCTIONS in
     result_then (fp_ensure (\<not> is_blocked) BlockedMoveFunction) (\<lambda>_.
     result_then (type_arguments_validity_check config 0 (pm_type_arguments call)) (\<lambda>_.
     fp_ensure (length (pm_arguments call) < unat (tc_max_arguments config))
       (SizeLimitExceeded ''maximum arguments in a move call'' (unat (tc_max_arguments config))))))"

fun command_input_objects :: "command \<Rightarrow> input_object_kind list" where
  "command_input_objects (Upgrade modules deps package_id ticket) =
     map MovePackageKind deps @ [MovePackageKind package_id]"
| "command_input_objects (Publish modules deps) = map MovePackageKind deps"
| "command_input_objects (MoveCall c) = move_call_input_objects c"
| "command_input_objects (MakeMoveVec (Some t) args) = map MovePackageKind (add_type_tag_packages [] t)"
| "command_input_objects (MakeMoveVec None args) = []"
| "command_input_objects (TransferObjects args a) = []"
| "command_input_objects (SplitCoins a args) = []"
| "command_input_objects (MergeCoins a args) = []"

fun command_packages_to_be_published :: "command \<Rightarrow> u8 list list option" where
  "command_packages_to_be_published (Upgrade v deps package_id ticket) = Some v"
| "command_packages_to_be_published (Publish v deps) = Some v"
| "command_packages_to_be_published _ = None"

definition command_args_check :: "tx_config \<Rightarrow> argument list \<Rightarrow> user_input_error + unit" where
  "command_args_check config args =
     fp_ensure (length args < unat (tc_max_arguments config))
       (SizeLimitExceeded ''maximum arguments in a programmable transaction command''
         (unat (tc_max_arguments config)))"

definition command_modules_check :: "tx_config \<Rightarrow> string \<Rightarrow> u8 list list \<Rightarrow> user_input_error + unit" where
  "command_modules_check config limit modules =
     result_then (fp_ensure (modules \<noteq> []) EmptyCommandInput) (\<lambda>_.
     fp_ensure (length modules < unat (tc_max_modules_in_publish config))
       (SizeLimitExceeded limit (unat (tc_max_modules_in_publish config))))"

fun command_validity_check :: "tx_config \<Rightarrow> command \<Rightarrow> user_input_error + unit" where
  "command_validity_check config (MoveCall call) = move_call_validity_check config call"
| "command_validity_check config (TransferObjects args a) =
     result_then (fp_ensure (args \<noteq> []) EmptyCommandInput) (\<lambda>_. command_args_check config args)"
| "command_validity_check config (MergeCoins a args) =
     result_then (fp_ensure (args \<noteq> []) EmptyCommandInput) (\<lambda>_. command_args_check config args)"
| "command_validity_check config (SplitCoins a args) =
     result_then (fp_ensure (args \<noteq> []) EmptyCommandInput) (\<lambda>_. command_args_check config args)"
| "command_validity_check config (MakeMoveVec ty_opt args) =
     result_then (fp_ensure (ty_opt \<noteq> None \<or> args \<noteq> []) EmptyCommandInput) (\<lambda>_.
     result_then (case ty_opt of
         Some ty \<Rightarrow> result_then (type_tag_validity_check config 1 0 ty) (\<lambda>n.
           fp_ensure (n < unat (tc_max_type_arguments config)) (type_arguments_exceeded config))
       | None \<Rightarrow> Inr ()) (\<lambda>_.
     command_args_check config args))"
| "command_validity_check config (Publish modules dep_ids) =
     command_modules_check config ''maximum modules in a programmable transaction publish command'' modules"
| "command_validity_check config (Upgrade modules deps package_id ticket) =
     command_modules_check config ''maximum modules in a programmable transaction upgrade command'' modules"

subsection \<open>The order of input objects\<close>

text \<open>
  The derived order of \<open>InputObjectKind\<close>: by variant, then field by field.  Command inputs are
  collected in a \<open>BTreeSet\<close> of that type.
\<close>

fun kind_key :: "input_object_kind \<Rightarrow> nat \<times> object_id \<times> sequence_number \<times> digest \<times> bool" where
  "kind_key (MovePackageKind i) = (0, i, 0, 0, False)"
| "kind_key (ImmOrOwnedMoveObject (i, v, d)) = (1, i, v, d, False)"
| "kind_key (SharedMoveObject i v mutable) = (2, i, v, 0, mutable)"

lemma kind_key_inject: "kind_key x = kind_key y \<Longrightarrow> x = y"
  by (cases x rule: kind_key.cases; cases y rule: kind_key.cases) auto

instantiation input_object_kind :: linorder
begin

definition less_eq_input_object_kind :: "input_object_kind \<Rightarrow> input_object_kind \<Rightarrow> bool" where
  "less_eq_input_object_kind x y \<longleftrightarrow> kind_key x \<le> kind_key y"

definition less_input_object_kind :: "input_object_kind \<Rightarrow> input_object_kind \<Rightarrow> bool" where
  "less_input_object_kind x y \<longleftrightarrow> kind_key x < kind_key y"

instance
  by intro_classes
    (auto simp: less_eq_input_object_kind_def less_input_object_kind_def intro: kind_key_inject)

end

subsection \<open>Programmable transactions\<close>

text \<open>\<open>iter().all(|o| used.insert(o))\<close>: whether every insertion into the set found a new element.\<close>

fun all_new :: "object_id list \<Rightarrow> object_id list \<Rightarrow> bool" where
  "all_new used [] = True"
| "all_new used (x # xs) = (x \<notin> set used \<and> all_new (List.insert x used) xs)"

definition pt_input_objects :: "programmable_transaction \<Rightarrow> user_input_error + input_object_kind list" where
  "pt_input_objects pt =
     (let input_arg_objects = concat (map call_arg_input_objects (pt_inputs pt)) in
     if \<not> all_new [] (map kind_object_id input_arg_objects) then Inl DuplicateObjectRefInput
     else let command_objects = btree_set_of (concat (map command_input_objects (pt_commands pt)))
          in Inr (input_arg_objects @ command_objects))"

definition pt_receiving_objects :: "programmable_transaction \<Rightarrow> object_ref list" where
  "pt_receiving_objects pt = concat (map call_arg_receiving_objects (pt_inputs pt))"

fun is_publish :: "command \<Rightarrow> bool" where
  "is_publish (Publish modules deps) = True"
| "is_publish (Upgrade modules deps package_id ticket) = True"
| "is_publish _ = False"

fun check_commands :: "tx_config \<Rightarrow> u64 \<Rightarrow> command list \<Rightarrow> user_input_error + u64" where
  "check_commands config publish_count [] = Inr publish_count"
| "check_commands config publish_count (c # cs) =
     result_then (command_validity_check config c) (\<lambda>_.
     check_commands config (if is_publish c then publish_count + 1 else publish_count) cs)"

definition pt_validity_check :: "tx_config \<Rightarrow> programmable_transaction \<Rightarrow> user_input_error + unit" where
  "pt_validity_check config pt =
     result_then (fp_ensure (length (pt_commands pt) < unat (tc_max_programmable_tx_commands config))
         (SizeLimitExceeded ''maximum commands in a programmable transaction''
           (unat (tc_max_programmable_tx_commands config)))) (\<lambda>_.
     result_then (for_each (call_arg_validity_check config) (pt_inputs pt)) (\<lambda>_.
     result_then (check_commands config 0 (pt_commands pt)) (\<lambda>publish_count.
     case tc_max_publish_or_upgrade_per_ptb config of
       Some max_publish_commands \<Rightarrow>
         fp_ensure (publish_count \<le> max_publish_commands)
           (MaxPublishCountExceeded max_publish_commands publish_count)
     | None \<Rightarrow> Inr ())))"

record shared_input_object =
  si_id :: object_id
  si_initial_shared_version :: sequence_number
  si_mutable :: bool

fun call_arg_shared_input :: "call_arg \<Rightarrow> shared_input_object option" where
  "call_arg_shared_input (ObjectCallArg (SharedObject i v mutable)) =
     Some \<lparr>si_id = i, si_initial_shared_version = v, si_mutable = mutable\<rparr>"
| "call_arg_shared_input _ = None"

definition pt_shared_input_objects :: "programmable_transaction \<Rightarrow> shared_input_object list" where
  "pt_shared_input_objects pt = List.map_filter call_arg_shared_input (pt_inputs pt)"

fun command_move_call :: "command \<Rightarrow> (object_id \<times> string \<times> string) option" where
  "command_move_call (MoveCall m) = Some (pm_package m, pm_module m, pm_function m)"
| "command_move_call _ = None"

definition pt_move_calls :: "programmable_transaction \<Rightarrow> (object_id \<times> string \<times> string) list" where
  "pt_move_calls pt = List.map_filter command_move_call (pt_commands pt)"

definition pt_packages_to_be_published :: "programmable_transaction \<Rightarrow> u8 list list list" where
  "pt_packages_to_be_published pt = List.map_filter command_packages_to_be_published (pt_commands pt)"

subsection \<open>Kinds of transactions\<close>

definition OBJECT_START_VERSION :: sequence_number where
  "OBJECT_START_VERSION = 1"

definition SUI_CLOCK_OBJECT_ID :: object_id where
  "SUI_CLOCK_OBJECT_ID = 6"

definition SUI_AUTHENTICATOR_STATE_OBJECT_ID :: object_id where
  "SUI_AUTHENTICATOR_STATE_OBJECT_ID = 7"

record change_epoch =
  ce_epoch :: u64
  ce_protocol_version :: u64
  ce_storage_charge :: u64
  ce_computation_charge :: u64
  ce_storage_rebate :: u64
  ce_non_refundable_storage_fee :: u64
  ce_epoch_start_timestamp_ms :: u64
  ce_system_packages :: "(sequence_number \<times> u8 list list \<times> object_id list) list"

record genesis_object =
  go_data :: obj_data
  go_owner :: owner

record consensus_commit_prologue =
  cp_epoch :: u64
  cp_round :: u64
  cp_commit_timestamp_ms :: u64

text \<open>The keys of a JSON web key set are uninterpreted.\<close>

record authenticator_state_update =
  au_epoch :: u64
  au_round :: u64
  au_new_active_jwks :: "nat list"
  au_initial_shared_version :: sequence_number

record authenticator_state_expire =
  ax_min_epoch :: u64
  ax_initial_shared_version :: sequence_number

datatype end_of_epoch_kind =
    EoeChangeEpoch change_epoch
  | EoeAuthenticatorStateCreate
  | EoeAuthenticatorStateExpire authenticator_state_expire

datatype transaction_kind =
    ProgrammableTransaction programmable_transaction
  | ChangeEpoch change_epoch
  | Genesis "genesis_object list"
  | ConsensusCommitPrologue consensus_commit_prologue
  | AuthenticatorStateUpdate authenticator_state_update
  | EndOfEpochTransaction "end_of_epoch_kind list"

fun genesis_object_id :: "genesis_object \<Rightarrow> object_id option" where
  "genesis_object_id g = (case go_data g of Move m \<Rightarrow> mo_id m | Package p \<Rightarrow> Some (mp_id p))"

definition SUI_SYSTEM_OBJ :: shared_input_object where
  "SUI_SYSTEM_OBJ = \<lparr>si_id = SUI_SYSTEM_STATE_OBJECT_ID,
     si_initial_shared_version = OBJECT_START_VERSION, si_mutable = True\<rparr>"

fun eoe_input_objects :: "end_of_epoch_kind \<Rightarrow> input_object_kind list" where
  "eoe_input_objects (EoeChangeEpoch e) = [SharedMoveObject SUI_SYSTEM_STATE_OBJECT_ID OBJECT_START_VERSION True]"
| "eoe_input_objects EoeAuthenticatorStateCreate = []"
| "eoe_input_objects (EoeAuthenticatorStateExpire x) =
     [SharedMoveObject SUI_AUTHENTICATOR_STATE_OBJECT_ID (ax_initial_shared_version x) True]"

fun eoe_shared_input_objects :: "end_of_epoch_kind \<Rightarrow> shared_input_object list" where
  "eoe_shared_input_objects (EoeChangeEpoch e) = [SUI_SYSTEM_OBJ]"
| "eoe_shared_input_objects (EoeAuthenticatorStateExpire x) =
     [\<lparr>si_id = SUI_AUTHENTICATOR_STATE_OBJECT_ID, si_initial_shared_version = ax_initial_shared_version x,
       si_mutable = True\<rparr>]"
| "eoe_shared_input_objects EoeAuthenticatorStateCreate = []"

text \<open>The assertion of the feature flag panics.\<close>

fun eoe_validity_check :: "tx_config \<Rightarrow> end_of_epoch_kind \<Rightarrow> unit option" where
  "eoe_validity_check config (EoeChangeEpoch e) = Some ()"
| "eoe_validity_check config EoeAuthenticatorStateCreate = rust_assert (tc_enable_jwk_consensus_updates config)"
| "eoe_validity_check config (EoeAuthenticatorStateExpire x) =
     rust_assert (tc_enable_jwk_consensus_updates config)"

fun is_system_tx :: "transaction_kind \<Rightarrow> bool" where
  "is_system_tx (ProgrammableTransaction pt) = False"
| "is_system_tx _ = True"

fun is_end_of_epoch_tx :: "transaction_kind \<Rightarrow> bool" where
  "is_end_of_epoch_tx (EndOfEpochTransaction txns) = True"
| "is_end_of_epoch_tx (ChangeEpoch e) = True"
| "is_end_of_epoch_tx _ = False"

text \<open>Inside the panic option: whether the transaction advances the epoch, and its charges and rebate.\<close>

fun get_advance_epoch_tx_gas_summary :: "transaction_kind \<Rightarrow> (u64 \<times> u64) option option" where
  "get_advance_epoch_tx_gas_summary (ChangeEpoch e) =
     Some (Some (ce_computation_charge e + ce_storage_charge e, ce_storage_rebate e))"
| "get_advance_epoch_tx_gas_summary (EndOfEpochTransaction txns) =
     (case rev txns of
        EoeChangeEpoch e # _ \<Rightarrow>
          Some (Some (ce_computation_charge e + ce_storage_charge e, ce_storage_rebate e))
      | _ \<Rightarrow> panic)"
| "get_advance_epoch_tx_gas_summary _ = Some None"

fun kind_shared_input_objects :: "transaction_kind \<Rightarrow> shared_input_object list" where
  "kind_shared_input_objects (ChangeEpoch e) = [SUI_SYSTEM_OBJ]"
| "kind_shared_input_objects (ConsensusCommitPrologue p) =
     [\<lparr>si_id = SUI_CLOCK_OBJECT_ID, si_initial_shared_version = OBJECT_START_VERSION, si_mutable = True\<rparr>]"
| "kind_shared_input_objects (AuthenticatorStateUpdate update) =
     [\<lparr>si_id = SUI_AUTHENTICATOR_STATE_OBJECT_ID,
       si_initial_shared_version = au_initial_shared_version update, si_mutable = True\<rparr>]"
| "kind_shared_input_objects (EndOfEpochTransaction txns) = concat (map eoe_shared_input_objects txns)"
| "kind_shared_input_objects (ProgrammableTransaction pt) = pt_shared_input_objects pt"
| "kind_shared_input_objects (Genesis objects) = []"

fun kind_move_calls :: "transaction_kind \<Rightarrow> (object_id \<times> string \<times> string) list" where
  "kind_move_calls (ProgrammableTransaction pt) = pt_move_calls pt"
| "kind_move_calls _ = []"

fun kind_receiving_objects :: "transaction_kind \<Rightarrow> object_ref list" where
  "kind_receiving_objects (ProgrammableTransaction pt) = pt_receiving_objects pt"
| "kind_receiving_objects _ = []"

definition without_duplicates :: "input_object_kind list \<Rightarrow> user_input_error + input_object_kind list" where
  "without_duplicates input_objects =
     (if \<not> all_new [] (map kind_object_id input_objects) then Inl DuplicateObjectRefInput
      else Inr input_objects)"

fun kind_input_objects :: "transaction_kind \<Rightarrow> user_input_error + input_object_kind list" where
  "kind_input_objects (ChangeEpoch e) =
     without_duplicates [SharedMoveObject SUI_SYSTEM_STATE_OBJECT_ID OBJECT_START_VERSION True]"
| "kind_input_objects (Genesis objects) = without_duplicates []"
| "kind_input_objects (ConsensusCommitPrologue p) =
     without_duplicates [SharedMoveObject SUI_CLOCK_OBJECT_ID OBJECT_START_VERSION True]"
| "kind_input_objects (AuthenticatorStateUpdate update) =
     without_duplicates
       [SharedMoveObject SUI_AUTHENTICATOR_STATE_OBJECT_ID (au_initial_shared_version update) True]"
| "kind_input_objects (EndOfEpochTransaction txns) = without_duplicates (concat (map eoe_input_objects txns))"
| "kind_input_objects (ProgrammableTransaction pt) = pt_input_objects pt"

fun kind_validity_check :: "tx_config \<Rightarrow> transaction_kind \<Rightarrow> (user_input_error + unit) option" where
  "kind_validity_check config (ProgrammableTransaction pt) = Some (pt_validity_check config pt)"
| "kind_validity_check config (ChangeEpoch e) = Some (Inr ())"
| "kind_validity_check config (Genesis objects) = Some (Inr ())"
| "kind_validity_check config (ConsensusCommitPrologue p) = Some (Inr ())"
| "kind_validity_check config (EndOfEpochTransaction txns) = do {
     rust_assert (tc_end_of_epoch_transaction_supported config);
     us \<leftarrow> those (map (eoe_validity_check config) txns);
     Some (Inr ())
   }"
| "kind_validity_check config (AuthenticatorStateUpdate update) = do {
     rust_assert (tc_enable_jwk_consensus_updates config);
     Some (Inr ())
   }"

fun num_commands :: "transaction_kind \<Rightarrow> nat" where
  "num_commands (ProgrammableTransaction pt) = length (pt_commands pt)"
| "num_commands _ = 0"

fun iter_commands :: "transaction_kind \<Rightarrow> command list" where
  "iter_commands (ProgrammableTransaction pt) = pt_commands pt"
| "iter_commands _ = []"

subsection \<open>Gas data and the transaction\<close>

record gas_data =
  gd_payment :: "object_ref list"
  gd_owner :: sui_address
  gd_price :: u64
  gd_budget :: u64

datatype transaction_expiration = NoExpiration | ExpirationEpoch u64

record transaction_data =
  td_kind :: transaction_kind
  td_sender :: sui_address
  td_gas_data :: gas_data
  td_expiration :: transaction_expiration

definition new_system_transaction :: "transaction_kind \<Rightarrow> transaction_data option" where
  "new_system_transaction kind = do {
     rust_assert (is_system_tx kind);
     Some \<lparr>td_kind = kind, td_sender = 0,
       td_gas_data = \<lparr>gd_payment = [(0, 0, 0)], gd_owner = 0, gd_price = 1, gd_budget = 0\<rparr>,
       td_expiration = NoExpiration\<rparr>
   }"

definition new_with_gas_coins_allow_sponsor ::
  "transaction_kind \<Rightarrow> sui_address \<Rightarrow> object_ref list \<Rightarrow> u64 \<Rightarrow> u64 \<Rightarrow> sui_address \<Rightarrow> transaction_data" where
  "new_with_gas_coins_allow_sponsor kind sender gas_payment gas_budget price gas_sponsor =
     \<lparr>td_kind = kind, td_sender = sender,
      td_gas_data = \<lparr>gd_payment = gas_payment, gd_owner = gas_sponsor, gd_price = price, gd_budget = gas_budget\<rparr>,
      td_expiration = NoExpiration\<rparr>"

definition new_with_gas_coins ::
  "transaction_kind \<Rightarrow> sui_address \<Rightarrow> object_ref list \<Rightarrow> u64 \<Rightarrow> u64 \<Rightarrow> transaction_data" where
  "new_with_gas_coins kind sender gas_payment gas_budget price =
     new_with_gas_coins_allow_sponsor kind sender gas_payment gas_budget price sender"

definition td_gas :: "transaction_data \<Rightarrow> object_ref list" where
  "td_gas tx = gd_payment (td_gas_data tx)"

definition gas_owner :: "transaction_data \<Rightarrow> sui_address" where
  "gas_owner tx = gd_owner (td_gas_data tx)"

definition signers :: "transaction_data \<Rightarrow> sui_address list" where
  "signers tx = (if gas_owner tx \<noteq> td_sender tx then [td_sender tx, gas_owner tx] else [td_sender tx])"

definition td_input_objects :: "transaction_data \<Rightarrow> user_input_error + input_object_kind list" where
  "td_input_objects tx =
     result_then (kind_input_objects (td_kind tx)) (\<lambda>inputs.
     Inr (if is_system_tx (td_kind tx) then inputs else inputs @ map ImmOrOwnedMoveObject (td_gas tx)))"

fun is_programmable :: "transaction_kind \<Rightarrow> bool" where
  "is_programmable (ProgrammableTransaction pt) = True"
| "is_programmable _ = False"

definition check_sponsorship :: "transaction_data \<Rightarrow> user_input_error + unit" where
  "check_sponsorship tx =
     (if gas_owner tx = td_sender tx then Inr ()
      else if is_programmable (td_kind tx) then Inr ()
      else Inl UnsupportedSponsoredTransactionKind)"

definition validity_check_no_gas_check :: "tx_config \<Rightarrow> transaction_data \<Rightarrow> (user_input_error + unit) option" where
  "validity_check_no_gas_check config tx =
     try_then (kind_validity_check config (td_kind tx)) (\<lambda>_. Some (check_sponsorship tx))"

definition td_validity_check :: "tx_config \<Rightarrow> transaction_data \<Rightarrow> (user_input_error + unit) option" where
  "td_validity_check config tx =
     try_then (Some (fp_ensure (td_gas tx \<noteq> []) MissingGasPayment)) (\<lambda>_.
     try_then (Some (fp_ensure (length (td_gas tx) < unat (tc_max_gas_payment_objects config))
         (SizeLimitExceeded ''maximum number of gas payment objects''
           (unat (tc_max_gas_payment_objects config))))) (\<lambda>_.
     validity_check_no_gas_check config tx))"

subsection \<open>Supported versions\<close>

datatype tx_error =
    UserInputError user_input_error
  | UnsupportedFeatureError string
  | WrongMessageVersion u64
  | SignerSignatureNumberMismatch nat nat
  | SignerSignatureAbsent sui_address
  | InvalidUserSignature nat
  | UnexpectedMessage
  | TxStorageError store_error

fun eoe_version_supported :: "tx_config \<Rightarrow> end_of_epoch_kind \<Rightarrow> tx_error + unit" where
  "eoe_version_supported config (EoeChangeEpoch e) = Inr ()"
| "eoe_version_supported config _ =
     fp_ensure (tc_enable_jwk_consensus_updates config)
       (UnsupportedFeatureError ''authenticator state updates not enabled'')"

fun kind_check_version_supported :: "tx_config \<Rightarrow> transaction_kind \<Rightarrow> tx_error + unit" where
  "kind_check_version_supported config (ProgrammableTransaction pt) =
     (if \<not> tc_receiving_objects_supported config \<and>
         list_ex (\<lambda>arg. call_arg_receiving_objects arg \<noteq> []) (pt_inputs pt)
      then Inl (UnsupportedFeatureError ''receiving objects is not supported'') else Inr ())"
| "kind_check_version_supported config (AuthenticatorStateUpdate update) =
     fp_ensure (tc_enable_jwk_consensus_updates config)
       (UnsupportedFeatureError ''authenticator state updates not enabled'')"
| "kind_check_version_supported config (EndOfEpochTransaction txns) =
     (if \<not> tc_end_of_epoch_transaction_supported config
      then Inl (UnsupportedFeatureError ''EndOfEpochTransaction is not supported'')
      else for_each (eoe_version_supported config) txns)"
| "kind_check_version_supported config _ = Inr ()"

definition is_version_supported :: "u64 \<times> u64 \<Rightarrow> u64 \<Rightarrow> bool" where
  "is_version_supported supported v = (fst supported \<le> v \<and> v \<le> snd supported)"

definition td_check_version_supported :: "tx_config \<Rightarrow> transaction_data \<Rightarrow> tx_error + unit" where
  "td_check_version_supported config tx =
     (let supported = (1, - 1) in
     if \<not> is_version_supported supported (tc_version config) then Inl (WrongMessageVersion 1)
     else kind_check_version_supported config (td_kind tx))"

subsection \<open>Signed transactions\<close>

text \<open>
  The four kinds of user signatures with uninterpreted contents.  What a signature scheme decides
  is the parameter \<open>user_crypto\<close>: the address a signature belongs to, and the checks of the
  signature over the transaction data for that address.
\<close>

datatype generic_signature =
    GsMultiSig nat
  | GsMultiSigLegacy nat
  | GsSignature nat
  | GsZkLoginAuthenticator nat

text \<open>What a signature commits to: a message with its intent (\<open>src/crates/shared-crypto/src/intent.rs\<close>).\<close>

datatype intent_version = IntentV0

datatype app_id = AppSui | AppNarwhal

datatype intent_scope =
    ScopeTransactionData
  | ScopeTransactionEffects
  | ScopeCheckpointSummary
  | ScopePersonalMessage
  | ScopeSenderSignedTransaction
  | ScopeProofOfPossession
  | ScopeHeaderDigest

record intent =
  in_scope :: intent_scope
  in_version :: intent_version
  in_app_id :: app_id

definition sui_transaction :: intent where
  "sui_transaction = \<lparr>in_scope = ScopeTransactionData, in_version = IntentV0, in_app_id = AppSui\<rparr>"

record 'a intent_message =
  im_intent :: intent
  im_value :: 'a

record user_crypto =
  uc_address :: "generic_signature \<Rightarrow> tx_error + sui_address"
  uc_verify_claims ::
    "generic_signature \<Rightarrow> transaction_data intent_message \<Rightarrow> sui_address \<Rightarrow> tx_error + unit"
  uc_verify_uncached_checks ::
    "generic_signature \<Rightarrow> transaction_data intent_message \<Rightarrow> sui_address \<Rightarrow> tx_error + unit"
  uc_verify_epoch :: "generic_signature \<Rightarrow> u64 \<Rightarrow> tx_error + unit"

record sender_signed_transaction =
  st_intent_message :: "transaction_data intent_message"
  st_tx_signatures :: "generic_signature list"

abbreviation st_data :: "sender_signed_transaction \<Rightarrow> transaction_data" where
  "st_data t \<equiv> im_value (st_intent_message t)"

type_synonym sender_signed_data = "sender_signed_transaction list"

definition sender_signed_new :: "transaction_data \<Rightarrow> intent \<Rightarrow> generic_signature list \<Rightarrow> sender_signed_data" where
  "sender_signed_new tx_data i tx_signatures =
     [\<lparr>st_intent_message = \<lparr>im_intent = i, im_value = tx_data\<rparr>, st_tx_signatures = tx_signatures\<rparr>]"

definition sender_signed_inner :: "sender_signed_data \<Rightarrow> sender_signed_transaction option" where
  "sender_signed_inner d = do {
     rust_assert (length d = 1);
     Some (hd d)
   }"

definition sender_signed_add_signature :: "sender_signed_data \<Rightarrow> nat \<Rightarrow> sender_signed_data option" where
  "sender_signed_add_signature d new_signature = do {
     inner \<leftarrow> sender_signed_inner d;
     Some [inner\<lparr>st_tx_signatures := st_tx_signatures inner @ [GsSignature new_signature]\<rparr>]
   }"

fun collect_signatures ::
  "user_crypto \<Rightarrow> generic_signature list \<Rightarrow> (sui_address, generic_signature) btree_map \<Rightarrow>
     tx_error + (sui_address, generic_signature) btree_map" where
  "collect_signatures uc [] mapping = Inr mapping"
| "collect_signatures uc (sig # sigs) mapping =
     result_then (uc_address uc sig) (\<lambda>address. collect_signatures uc sigs (btree_insert address sig mapping))"

definition get_signer_sig_mapping ::
  "user_crypto \<Rightarrow> sender_signed_data \<Rightarrow> (tx_error + (sui_address, generic_signature) btree_map) option" where
  "get_signer_sig_mapping uc d = do {
     inner \<leftarrow> sender_signed_inner d;
     Some (collect_signatures uc (st_tx_signatures inner) [])
   }"

definition verify_message_signature :: "user_crypto \<Rightarrow> sender_signed_data \<Rightarrow> (tx_error + unit) option" where
  "verify_message_signature uc d =
     try_then (Some (fp_ensure (length d = 1)
         (UserInputError (Unsupported ''SenderSignedData must contain exactly one transaction'')))) (\<lambda>_. do {
     inner \<leftarrow> sender_signed_inner d;
     let tx = st_data inner;
     if is_system_tx (td_kind tx) then Some (Inr ())
     else
       try_then (Some (fp_ensure (length (st_tx_signatures inner) = length (signers tx))
           (SignerSignatureNumberMismatch (length (st_tx_signatures inner)) (length (signers tx))))) (\<lambda>_.
       try_then (get_signer_sig_mapping uc d) (\<lambda>present_sigs.
       Some (result_then (for_each (\<lambda>s. fp_ensure (s \<in> fst ` set present_sigs) (SignerSignatureAbsent s))
           (signers tx)) (\<lambda>_.
         for_each (\<lambda>(signer, sig). uc_verify_claims uc sig (st_intent_message inner) signer) present_sigs))))
   })"

definition signed_verify_uncached_checks :: "user_crypto \<Rightarrow> sender_signed_data \<Rightarrow> (tx_error + unit) option" where
  "signed_verify_uncached_checks uc d =
     try_then (get_signer_sig_mapping uc d) (\<lambda>sigs. do {
       inner \<leftarrow> sender_signed_inner d;
       Some (for_each (\<lambda>(signer, sig). uc_verify_uncached_checks uc sig (st_intent_message inner) signer) sigs)
     })"

definition signed_verify_epoch :: "user_crypto \<Rightarrow> sender_signed_data \<Rightarrow> u64 \<Rightarrow> (tx_error + unit) option" where
  "signed_verify_epoch uc d epoch = do {
     inner \<leftarrow> sender_signed_inner d;
     Some (for_each (\<lambda>sig. uc_verify_epoch uc sig epoch) (st_tx_signatures inner))
   }"

subsection \<open>Printing\<close>

text \<open>
  \<open>Display\<close> of arguments, commands, transactions and kinds.  Identifiers are strings; the texts of object identifiers
  and type tags come from other crates and are parameters.
\<close>

fun show_digits :: "nat \<Rightarrow> nat \<Rightarrow> string" where
  "show_digits 0 n = []"
| "show_digits (Suc k) n =
     (if n < 10 then [char_of (48 + n)] else show_digits k (n div 10) @ [char_of (48 + n mod 10)])"

text \<open>A \<open>u16\<close> has at most five decimal digits, a \<open>u64\<close> at most twenty.\<close>

definition show_u16 :: "u16 \<Rightarrow> string" where
  "show_u16 i = show_digits 5 (unat i)"

definition show_u64 :: "u64 \<Rightarrow> string" where
  "show_u64 n = show_digits 20 (unat n)"

fun fmt_argument :: "argument \<Rightarrow> string" where
  "fmt_argument ArgGasCoin = ''GasCoin''"
| "fmt_argument (ArgInput i) = ''Input('' @ show_u16 i @ '')''"
| "fmt_argument (ArgResult i) = ''Result('' @ show_u16 i @ '')''"
| "fmt_argument (ArgNestedResult i j) = ''NestedResult('' @ show_u16 i @ '','' @ show_u16 j @ '')''"

text \<open>The loop writes the separator before an item whenever another item follows.\<close>

fun write_sep :: "string \<Rightarrow> string list \<Rightarrow> string" where
  "write_sep sep [] = []"
| "write_sep sep (x # xs) = (if xs \<noteq> [] then sep else []) @ x @ write_sep sep xs"

definition fmt_move_call ::
  "(object_id \<Rightarrow> string) \<Rightarrow> (type_tag \<Rightarrow> string) \<Rightarrow> programmable_move_call \<Rightarrow> string" where
  "fmt_move_call show_id show_tag call =
     show_id (pm_package call) @ ''::'' @ pm_module call @ ''::'' @ pm_function call @
     (if pm_type_arguments call \<noteq> []
      then ''<'' @ write_sep '','' (map show_tag (pm_type_arguments call)) @ ''>'' else []) @
     ''('' @ write_sep '','' (map fmt_argument (pm_arguments call)) @ '')''"

fun fmt_command :: "(object_id \<Rightarrow> string) \<Rightarrow> (type_tag \<Rightarrow> string) \<Rightarrow> command \<Rightarrow> string" where
  "fmt_command show_id show_tag (MoveCall p) = ''MoveCall('' @ fmt_move_call show_id show_tag p @ '')''"
| "fmt_command show_id show_tag (MakeMoveVec ty_opt elems) =
     ''MakeMoveVec('' @ (case ty_opt of Some ty \<Rightarrow> ''Some'' @ show_tag ty | None \<Rightarrow> ''None'') @ '',['' @
     write_sep '','' (map fmt_argument elems) @ ''])''"
| "fmt_command show_id show_tag (TransferObjects objs addr) =
     ''TransferObjects(['' @ write_sep '','' (map fmt_argument objs) @ ''],'' @ fmt_argument addr @ '')''"
| "fmt_command show_id show_tag (SplitCoins coin amounts) =
     ''SplitCoins('' @ fmt_argument coin @ write_sep '','' (map fmt_argument amounts) @ '')''"
| "fmt_command show_id show_tag (MergeCoins target coins) =
     ''MergeCoins('' @ fmt_argument target @ '','' @ write_sep '','' (map fmt_argument coins) @ '')''"
| "fmt_command show_id show_tag (Publish bytes deps) =
     ''Publish(_,'' @ write_sep '','' (map show_id deps) @ '')''"
| "fmt_command show_id show_tag (Upgrade bytes deps current_package_id ticket) =
     ''Upgrade(_,'' @ write_sep '','' (map show_id deps) @ '', '' @ show_id current_package_id @ '', '' @
     fmt_argument ticket @ '')''"

text \<open>\<open>writeln!\<close> ends the line.  The debug output of the inputs is derived and is a parameter.\<close>

definition writeln :: "string \<Rightarrow> string" where
  "writeln line = line @ [CHR 0x0A]"

definition fmt_pt ::
  "(call_arg list \<Rightarrow> string) \<Rightarrow> (object_id \<Rightarrow> string) \<Rightarrow> (type_tag \<Rightarrow> string) \<Rightarrow> programmable_transaction \<Rightarrow>
     string" where
  "fmt_pt show_inputs show_id show_tag pt =
     writeln (''Inputs: '' @ show_inputs (pt_inputs pt)) @ writeln ''Commands: ['' @
     concat (map (\<lambda>c. writeln (''  '' @ fmt_command show_id show_tag c @ '','')) (pt_commands pt)) @ writeln '']''"

definition fmt_kind :: "(programmable_transaction \<Rightarrow> string) \<Rightarrow> transaction_kind \<Rightarrow> string" where
  "fmt_kind show_pt kind =
     (case kind of
        ChangeEpoch e \<Rightarrow>
          writeln ''Transaction Kind : Epoch Change'' @
          writeln (''New epoch ID : '' @ show_u64 (ce_epoch e)) @
          writeln (''Storage gas reward : '' @ show_u64 (ce_storage_charge e)) @
          writeln (''Computation gas reward : '' @ show_u64 (ce_computation_charge e)) @
          writeln (''Storage rebate : '' @ show_u64 (ce_storage_rebate e)) @
          writeln (''Timestamp : '' @ show_u64 (ce_epoch_start_timestamp_ms e))
      | Genesis objects \<Rightarrow> writeln ''Transaction Kind : Genesis''
      | ConsensusCommitPrologue p \<Rightarrow>
          writeln ''Transaction Kind : Consensus Commit Prologue'' @
          writeln (''Timestamp : '' @ show_u64 (cp_commit_timestamp_ms p))
      | ProgrammableTransaction pt \<Rightarrow> writeln ''Transaction Kind : Programmable'' @ show_pt pt
      | AuthenticatorStateUpdate u \<Rightarrow> writeln ''Transaction Kind : Authenticator State Update''
      | EndOfEpochTransaction txns \<Rightarrow> writeln ''Transaction Kind : End of Epoch Transaction'')"

definition kind_name :: "transaction_kind \<Rightarrow> string" where
  "kind_name kind =
     (case kind of
        ChangeEpoch e \<Rightarrow> ''ChangeEpoch''
      | Genesis objects \<Rightarrow> ''Genesis''
      | ConsensusCommitPrologue p \<Rightarrow> ''ConsensusCommitPrologue''
      | ProgrammableTransaction pt \<Rightarrow> ''ProgrammableTransaction''
      | AuthenticatorStateUpdate u \<Rightarrow> ''AuthenticatorStateUpdate''
      | EndOfEpochTransaction txns \<Rightarrow> ''EndOfEpochTransaction'')"

subsection \<open>What the checks of the type arguments accept\<close>

fun tag_depth :: "type_tag \<Rightarrow> nat" where
  "tag_depth (TagVector t) = 1 + tag_depth t"
| "tag_depth (TagStruct (StructTag address module name type_params)) =
     1 + fold max (map tag_depth type_params) 0"
| "tag_depth _ = 1"

lemmas type_tag_check =
  type_tag_validity_check.simps [of _ _ _ TagBool]
  type_tag_validity_check.simps [of _ _ _ TagU8]
  type_tag_validity_check.simps [of _ _ _ TagU64]
  type_tag_validity_check.simps [of _ _ _ TagU128]
  type_tag_validity_check.simps [of _ _ _ TagAddress]
  type_tag_validity_check.simps [of _ _ _ TagSigner]
  type_tag_validity_check.simps [of _ _ _ TagU16]
  type_tag_validity_check.simps [of _ _ _ TagU32]
  type_tag_validity_check.simps [of _ _ _ TagU256]
  type_tag_validity_check.simps [of _ _ _ "TagVector t" for t]
  type_tag_validity_check.simps [of _ _ _ "TagStruct (StructTag a m n ps)" for a m n ps]

declare type_tag_validity_check.simps [simp del]

lemma fold_max_le_iff: "fold max xs a \<le> n \<longleftrightarrow> a \<le> n \<and> (\<forall>x \<in> set xs. x \<le> n)" for n :: nat
  by (induction xs arbitrary: a) auto

lemma fold_max_member: "x \<in> set xs \<Longrightarrow> f x \<le> fold max (map f xs) a" for a :: nat
  using fold_max_le_iff [of "map f xs" a "fold max (map f xs) a"] by simp

lemma type_check_sound:
  "type_tag_validity_check config d s t = Inr n \<Longrightarrow>
     n = tag_nodes t \<and> d + tag_depth t \<le> unat (tc_max_type_argument_depth config)"
  "type_params_validity_check config d s acc ts = Inr n \<Longrightarrow> n = acc + sum_list (map tag_nodes ts) \<and>
     (\<forall>t \<in> set ts. d + 1 + tag_depth t \<le> unat (tc_max_type_argument_depth config))"
proof (induction config d s t and config d s acc ts arbitrary: n and n
    rule: type_tag_validity_check_type_params_validity_check.induct)
  case (1 config d s t)
  show ?case
  proof (cases t)
    case (TagVector t')
    from 1(3) obtain k where "type_tag_validity_check config (d + 1) (s + 1) t' = Inr k" "n = 1 + k"
      by (auto simp: type_tag_check TagVector)
    with 1(1) [OF TagVector] show ?thesis by (simp add: TagVector)
  next
    case (TagStruct st)
    obtain a m nm ps where st: "st = StructTag a m nm ps" by (cases st)
    from 1(3) obtain k where k: "type_params_validity_check config d s 0 ps = Inr k" "n = 1 + k"
      and d: "d < unat (tc_max_type_argument_depth config)"
      by (auto simp: type_tag_check TagStruct st)
    note IH = 1(2) [OF TagStruct st k(1)]
    then have "fold max (map tag_depth ps) 0 \<le> unat (tc_max_type_argument_depth config) - (d + 1)"
      by (auto simp: fold_max_le_iff)
    with IH k(2) d show ?thesis by (simp add: TagStruct st)
  qed (use 1 in \<open>simp_all add: type_tag_check\<close>)
qed (auto simp: add.assoc)

lemma type_check_complete:
  "d + tag_depth t \<le> unat (tc_max_type_argument_depth config) \<Longrightarrow>
     s + tag_nodes t \<le> unat (tc_max_type_arguments config) \<Longrightarrow>
     type_tag_validity_check config d s t = Inr (tag_nodes t)"
  "\<forall>t \<in> set ts. d + 1 + tag_depth t \<le> unat (tc_max_type_argument_depth config) \<Longrightarrow>
     s + acc + sum_list (map tag_nodes ts) < unat (tc_max_type_arguments config) \<Longrightarrow>
     type_params_validity_check config d s acc ts = Inr (acc + sum_list (map tag_nodes ts))"
proof (induction config d s t and config d s acc ts
    rule: type_tag_validity_check_type_params_validity_check.induct)
  case (1 config d s t)
  show ?case
  proof (cases t)
    case (TagVector t')
    with 1 show ?thesis by (simp add: type_tag_check)
  next
    case (TagStruct st)
    obtain a m nm ps where st: "st = StructTag a m nm ps" by (cases st)
    from 1(3) have d: "d < unat (tc_max_type_argument_depth config)"
      and ps: "\<forall>t \<in> set ps. d + 1 + tag_depth t \<le> unat (tc_max_type_argument_depth config)"
      by (auto simp: TagStruct st dest: fold_max_member [of _ ps tag_depth 0])
    from 1(4) have "s + 0 + sum_list (map tag_nodes ps) < unat (tc_max_type_arguments config)"
      by (simp add: TagStruct st)
    from 1(2) [OF TagStruct st ps this] d show ?thesis by (simp add: type_tag_check TagStruct st)
  qed (use 1 in \<open>simp_all add: type_tag_check\<close>)
next
  case (3 config d s acc t ts)
  have "type_tag_validity_check config (d + 1) (s + 1) t = Inr (tag_nodes t)"
    using 3(3,4) by (intro 3(1)) auto
  moreover have "type_params_validity_check config d s (acc + tag_nodes t) ts =
      Inr (acc + tag_nodes t + sum_list (map tag_nodes ts))"
    using 3(3,4) by (intro 3(2)) auto
  ultimately show ?case using 3(4) by simp
qed auto

text \<open>A list of type arguments is accepted when every tag is shallow enough and all nodes together are few.\<close>

definition type_arguments_wf :: "tx_config \<Rightarrow> type_tag list \<Rightarrow> bool" where
  "type_arguments_wf config tags \<longleftrightarrow>
     (\<forall>t \<in> set tags. tag_depth t < unat (tc_max_type_argument_depth config)) \<and>
     (tags \<noteq> [] \<longrightarrow> sum_list (map tag_nodes tags) < unat (tc_max_type_arguments config))"

lemma one_tag_check_iff:
  "type_tag_validity_check config 1 c t = Inr n \<and> c + n < unat (tc_max_type_arguments config) \<longleftrightarrow>
     n = tag_nodes t \<and> tag_depth t < unat (tc_max_type_argument_depth config) \<and>
     c + tag_nodes t < unat (tc_max_type_arguments config)"
proof
  assume "type_tag_validity_check config 1 c t = Inr n \<and> c + n < unat (tc_max_type_arguments config)"
  then show "n = tag_nodes t \<and> tag_depth t < unat (tc_max_type_argument_depth config) \<and>
     c + tag_nodes t < unat (tc_max_type_arguments config)"
    using type_check_sound(1) [of config 1 c t n] by simp
next
  assume "n = tag_nodes t \<and> tag_depth t < unat (tc_max_type_argument_depth config) \<and>
     c + tag_nodes t < unat (tc_max_type_arguments config)"
  then show "type_tag_validity_check config 1 c t = Inr n \<and> c + n < unat (tc_max_type_arguments config)"
    using type_check_complete(1) [of 1 t config c] by simp
qed

lemma type_arguments_check_iff:
  "type_arguments_validity_check config c tags = Inr () \<longleftrightarrow>
     (\<forall>t \<in> set tags. tag_depth t < unat (tc_max_type_argument_depth config)) \<and>
     (tags \<noteq> [] \<longrightarrow> c + sum_list (map tag_nodes tags) < unat (tc_max_type_arguments config))"
proof (induction tags arbitrary: c)
  case (Cons t tags)
  have "type_arguments_validity_check config c (t # tags) = Inr () \<longleftrightarrow>
      (\<exists>n. (type_tag_validity_check config 1 c t = Inr n \<and> c + n < unat (tc_max_type_arguments config)) \<and>
        type_arguments_validity_check config (c + n) tags = Inr ())"
    by (simp only: type_arguments_validity_check.simps result_then_Inr fp_ensure_Inr ex_simps conj_assoc
        simp_thms)
  also have "\<dots> \<longleftrightarrow> tag_depth t < unat (tc_max_type_argument_depth config) \<and>
      c + tag_nodes t < unat (tc_max_type_arguments config) \<and>
      type_arguments_validity_check config (c + tag_nodes t) tags = Inr ()"
    unfolding one_tag_check_iff by blast
  finally show ?case
    unfolding Cons.IH by (cases "tags = []") (simp_all add: add.assoc, linarith)
qed simp

subsection \<open>Well-formed programmable transactions\<close>

definition args_wf :: "tx_config \<Rightarrow> 'a list \<Rightarrow> bool" where
  "args_wf config args \<longleftrightarrow> length args < unat (tc_max_arguments config)"

definition modules_wf :: "tx_config \<Rightarrow> 'a list \<Rightarrow> bool" where
  "modules_wf config modules \<longleftrightarrow> modules \<noteq> [] \<and> length modules < unat (tc_max_modules_in_publish config)"

fun command_wf :: "tx_config \<Rightarrow> command \<Rightarrow> bool" where
  "command_wf config (MoveCall call) \<longleftrightarrow>
     type_arguments_wf config (pm_type_arguments call) \<and> args_wf config (pm_arguments call)"
| "command_wf config (TransferObjects args a) \<longleftrightarrow> args \<noteq> [] \<and> args_wf config args"
| "command_wf config (MergeCoins a args) \<longleftrightarrow> args \<noteq> [] \<and> args_wf config args"
| "command_wf config (SplitCoins a args) \<longleftrightarrow> args \<noteq> [] \<and> args_wf config args"
| "command_wf config (MakeMoveVec None args) \<longleftrightarrow> args \<noteq> [] \<and> args_wf config args"
| "command_wf config (MakeMoveVec (Some t) args) \<longleftrightarrow> type_arguments_wf config [t] \<and> args_wf config args"
| "command_wf config (Publish modules deps) \<longleftrightarrow> modules_wf config modules"
| "command_wf config (Upgrade modules deps package_id ticket) \<longleftrightarrow> modules_wf config modules"

definition pt_wf :: "tx_config \<Rightarrow> programmable_transaction \<Rightarrow> bool" where
  "pt_wf config pt \<longleftrightarrow>
     length (pt_commands pt) < unat (tc_max_programmable_tx_commands config) \<and>
     (\<forall>p. PureArg p \<in> set (pt_inputs pt) \<longrightarrow> length p < unat (tc_max_pure_argument_size config)) \<and>
     (\<forall>c \<in> set (pt_commands pt). command_wf config c) \<and>
     (case tc_max_publish_or_upgrade_per_ptb config of
        Some n \<Rightarrow> length (filter is_publish (pt_commands pt)) \<le> unat n
      | None \<Rightarrow> True)"

lemma move_call_check_iff:
  "move_call_validity_check config call = Inr () \<longleftrightarrow> command_wf config (MoveCall call)"
  by (auto simp: move_call_validity_check_def BLOCKED_MOVE_FUNCTIONS_def type_arguments_check_iff
      type_arguments_wf_def args_wf_def)

lemma make_vec_check_iff:
  "command_validity_check config (MakeMoveVec ty args) = Inr () \<longleftrightarrow> command_wf config (MakeMoveVec ty args)"
proof (cases ty)
  case (Some t)
  have "result_then (type_tag_validity_check config 1 0 t) (\<lambda>n.
      fp_ensure (n < unat (tc_max_type_arguments config)) (type_arguments_exceeded config)) = Inr () \<longleftrightarrow>
      type_arguments_wf config [t]"
    using type_check_sound(1) [of config 1 0 t] type_check_complete(1) [of 1 t config 0]
    by (auto simp: type_arguments_wf_def)
  with Some show ?thesis by (simp add: command_args_check_def args_wf_def)
qed (simp add: command_args_check_def args_wf_def)

lemma command_check_iff: "command_validity_check config c = Inr () \<longleftrightarrow> command_wf config c"
proof (cases c)
  case (MoveCall call)
  then show ?thesis by (simp add: move_call_check_iff)
next
  case (MakeMoveVec ty args)
  then show ?thesis by (simp only: make_vec_check_iff)
qed (auto simp: command_args_check_def command_modules_check_def args_wf_def modules_wf_def)

lemma check_commands_iff:
  "check_commands config n cs = Inr m \<longleftrightarrow>
     (\<forall>c \<in> set cs. command_wf config c) \<and> m = n + of_nat (length (filter is_publish cs))"
  by (induction cs arbitrary: n) (auto simp: command_check_iff add.assoc)

lemma call_arg_check_iff:
  "call_arg_validity_check config a = Inr () \<longleftrightarrow>
     (\<forall>p. a = PureArg p \<longrightarrow> length p < unat (tc_max_pure_argument_size config))"
  by (cases a) auto

text \<open>
  C8.  The validity check of a programmable transaction accepts exactly the well-formed ones:
  fewer commands, arguments, modules and type nodes than the limits, no type deeper than the
  limit, no empty command, and no more publications than allowed.  The counters that the code threads
  through the recursion over a type add up to the number of nodes of all type arguments.
\<close>

theorem pt_validity_check_iff_wf: "pt_validity_check config pt = Inr () \<longleftrightarrow> pt_wf config pt"
proof (cases "length (pt_commands pt) < unat (tc_max_programmable_tx_commands config)")
  case True
  let ?n = "length (filter is_publish (pt_commands pt))"
  have "?n \<le> length (pt_commands pt)" by (rule length_filter_le)
  moreover have "unat (tc_max_programmable_tx_commands config) < 2 ^ 32"
    using unat_less_pow [of "tc_max_programmable_tx_commands config"] by simp
  moreover have "(2 :: nat) ^ 32 < 2 ^ 64" by simp
  ultimately have "?n < 2 ^ 64" using True by linarith
  then have n: "unat (of_nat ?n :: u64) = ?n" by (simp add: unat_of_nat)
  show ?thesis using True
    by (auto simp: pt_validity_check_def pt_wf_def check_commands_iff word_le_nat_alt n call_arg_check_iff
        split: option.splits)
qed (simp add: pt_validity_check_def pt_wf_def)

subsection \<open>Packages and input objects\<close>

text \<open>The package of every struct that occurs in a tag.\<close>

fun tag_packages :: "type_tag \<Rightarrow> object_id set" where
  "tag_packages (TagVector t) = tag_packages t"
| "tag_packages (TagStruct (StructTag address module name type_params)) =
     insert address (\<Union> (set (map tag_packages type_params)))"
| "tag_packages _ = {}"

lemma packages_loop_set:
  "set (add_type_tag_packages_loop packages stack) = set packages \<union> \<Union> (tag_packages ` set stack)"
proof (induction packages stack rule: add_type_tag_packages_loop.induct)
  case (2 packages cur stack)
  show ?case
  proof (cases cur)
    case (TagStruct st)
    obtain a m n ps where st: "st = StructTag a m n ps" by (cases st)
    from 2(8) [OF TagStruct st] show ?thesis by (simp add: TagStruct st Un_assoc image_Un)
  qed (use 2 in simp_all)
qed simp

lemma packages_loop_inv:
  "bitmap_inv packages \<Longrightarrow> bitmap_inv (add_type_tag_packages_loop packages stack)"
proof (induction packages stack rule: add_type_tag_packages_loop.induct)
  case (2 packages cur stack)
  show ?case
  proof (cases cur)
    case (TagStruct st)
    obtain a m n ps where st: "st = StructTag a m n ps" by (cases st)
    from 2(8) [OF TagStruct st] 2(12) show ?thesis by (simp add: TagStruct st)
  qed (use 2 in simp_all)
qed simp

lemma add_type_tag_packages_set [simp]:
  "set (add_type_tag_packages packages t) = set packages \<union> tag_packages t"
  unfolding add_type_tag_packages_def packages_loop_set by simp

lemma fold_packages_set:
  "set (fold (\<lambda>t packages. add_type_tag_packages packages t) ts packages) =
     set packages \<union> \<Union> (tag_packages ` set ts)"
  by (induction ts arbitrary: packages) auto

text \<open>The packages a command needs.\<close>

fun command_packages :: "command \<Rightarrow> object_id set" where
  "command_packages (Upgrade modules deps package_id ticket) = insert package_id (set deps)"
| "command_packages (Publish modules deps) = set deps"
| "command_packages (MoveCall c) = insert (pm_package c) (\<Union> (tag_packages ` set (pm_type_arguments c)))"
| "command_packages (MakeMoveVec (Some t) args) = tag_packages t"
| "command_packages _ = {}"

lemma set_command_input_objects:
  "set (command_input_objects c) = MovePackageKind ` command_packages c"
proof (cases c)
  case (MakeMoveVec ty args)
  then show ?thesis by (cases ty) simp_all
qed (simp_all add: move_call_input_objects_def fold_packages_set image_Un image_insert Un_insert_left)

lemma all_new_iff: "all_new used xs \<longleftrightarrow> distinct xs \<and> set xs \<inter> set used = {}"
  by (induction used xs rule: all_new.induct) auto

lemma map_filter_append: "List.map_filter f (xs @ ys) = List.map_filter f xs @ List.map_filter f ys"
  by (simp add: List.map_filter_def)

text \<open>The shared input a kind of input object stands for.\<close>

fun kind_shared_input :: "input_object_kind \<Rightarrow> shared_input_object option" where
  "kind_shared_input (SharedMoveObject i v mutable) =
     Some \<lparr>si_id = i, si_initial_shared_version = v, si_mutable = mutable\<rparr>"
| "kind_shared_input _ = None"

lemma call_arg_shared:
  "List.map_filter kind_shared_input (call_arg_input_objects a) =
     (case call_arg_shared_input a of Some s \<Rightarrow> [s] | None \<Rightarrow> [])"
  by (cases a rule: call_arg_input_objects.cases) (simp_all add: List.map_filter_def)

lemma args_shared:
  "List.map_filter kind_shared_input (concat (map call_arg_input_objects args)) =
     List.map_filter call_arg_shared_input args"
  by (induction args) (simp_all add: map_filter_append call_arg_shared List.map_filter_simps split: option.split)

text \<open>
  C38.  When the input objects of a programmable transaction can be derived, no object is named twice
  among its arguments, the packages follow in ascending order without repetition and are exactly those
  the commands publish against, upgrade, call or name in a type argument at any depth, and the
  shared objects listed separately for the sequencing are those among the input objects.
\<close>

theorem pt_input_objects_complete:
  assumes "pt_input_objects pt = Inr kinds"
  shows "\<exists>pkgs. kinds = concat (map call_arg_input_objects (pt_inputs pt)) @ map MovePackageKind pkgs \<and>
    distinct (map kind_object_id (concat (map call_arg_input_objects (pt_inputs pt)))) \<and>
    sorted_wrt (<) pkgs \<and> set pkgs = \<Union> (command_packages ` set (pt_commands pt)) \<and>
    List.map_filter kind_shared_input kinds = pt_shared_input_objects pt"
proof -
  let ?objs = "concat (map call_arg_input_objects (pt_inputs pt))"
  let ?pkgs = "concat (map command_input_objects (pt_commands pt))"
  from assms have kinds: "kinds = ?objs @ btree_set_of ?pkgs" and new: "all_new [] (map kind_object_id ?objs)"
    by (auto simp: pt_input_objects_def Let_def split: if_splits)
  have pkgs: "set (btree_set_of ?pkgs) = MovePackageKind ` \<Union> (command_packages ` set (pt_commands pt))"
    by (auto simp: set_command_input_objects)
  then have "\<exists>is. btree_set_of ?pkgs = map MovePackageKind is"
    by (intro ex_map_conv [THEN iffD2]) auto
  then obtain "is" where ids: "btree_set_of ?pkgs = map MovePackageKind is" by blast
  have "sorted_wrt (<) (map MovePackageKind is)"
    using bitmap_inv_set_of [of ?pkgs] by (simp add: ids bitmap_inv_def strict_sorted_iff)
  then have sorted: "sorted_wrt (<) is"
    by (simp add: sorted_wrt_map less_input_object_kind_def)
  have "MovePackageKind ` set is = MovePackageKind ` \<Union> (command_packages ` set (pt_commands pt))"
    using pkgs by (simp add: ids)
  then have sets: "set is = \<Union> (command_packages ` set (pt_commands pt))"
    by (simp only: inj_image_eq_iff inj_def input_object_kind.inject simp_thms)
  have "List.map_filter kind_shared_input (map MovePackageKind is) = []"
    by (simp add: List.map_filter_def)
  then have "List.map_filter kind_shared_input kinds = pt_shared_input_objects pt"
    by (simp add: kinds ids map_filter_append args_shared pt_shared_input_objects_def)
  with kinds ids new sorted sets show ?thesis
    by (intro exI [of _ "is"]) (simp add: all_new_iff)
qed

subsection \<open>Signatures and versions\<close>

lemma collect_signatures_Inr:
  assumes "collect_signatures uc sigs m = Inr m'" and "btree_inv m"
  shows "\<exists>addrs. map (uc_address uc) sigs = map Inr addrs \<and> length addrs = length sigs \<and> btree_inv m' \<and>
    map_of m' = map_of m ++ map_of (rev (zip addrs sigs))"
  using assms
proof (induction uc sigs m rule: collect_signatures.induct)
  case (2 uc sig sigs m)
  then obtain a where a: "uc_address uc sig = Inr a"
    and rest: "collect_signatures uc sigs (btree_insert a sig m) = Inr m'" by auto
  from 2(1) [OF rest btree_inv_insert [OF 2(3)]] obtain addrs where
    "map (uc_address uc) sigs = map Inr addrs \<and> length addrs = length sigs \<and> btree_inv m' \<and>
      map_of m' = (map_of m)(a \<mapsto> sig) ++ map_of (rev (zip addrs sigs))"
    unfolding map_of_btree_insert [OF 2(3)] by blast
  with a 2(3) show ?case
    by (intro exI [of _ "a # addrs"]) (simp add: map_add_assoc)
qed simp

text \<open>A list of addresses that has as many elements as signers and contains all of them.\<close>

lemma signers_permuted:
  assumes "length addrs = length (signers tx)" and "set (signers tx) \<subseteq> set addrs"
  shows "distinct addrs" and "set addrs = set (signers tx)"
proof -
  have d: "distinct (signers tx)" by (simp add: signers_def)
  have "length (signers tx) \<le> card (set addrs)"
    using card_mono [OF finite_set assms(2)] d by (simp add: distinct_card)
  moreover have "card (set addrs) \<le> length addrs" by (rule card_length)
  ultimately have card: "card (set addrs) = length addrs" using assms(1) by simp
  then show "distinct addrs" by (rule card_distinct)
  show "set addrs = set (signers tx)"
    using assms d card by (intro card_subset_eq [symmetric]) (simp_all add: distinct_card)
qed

text \<open>
  C7.  A user transaction whose signatures verify carries exactly one signature of its sender and, if
  another address pays for the gas, exactly one of that address, and no others; each was checked
  over the data of this transaction with its intent, for the address it belongs to.
\<close>

theorem verified_transaction_signed_by_signers:
  assumes "verify_message_signature uc d = Some (Inr ())" and "d = [t]"
    and "\<not> is_system_tx (td_kind (st_data t))"
  shows "\<exists>addrs. map (uc_address uc) (st_tx_signatures t) = map Inr addrs \<and> distinct addrs \<and>
    set addrs = {td_sender (st_data t), gas_owner (st_data t)} \<and>
    (\<forall>(a, sig) \<in> set (zip addrs (st_tx_signatures t)). uc_verify_claims uc sig (st_intent_message t) a = Inr ())"
proof -
  let ?tx = "st_data t"
  from assms obtain present where
    len: "length (st_tx_signatures t) = length (signers ?tx)"
    and coll: "collect_signatures uc (st_tx_signatures t) [] = Inr present"
    and all: "\<forall>s \<in> set (signers ?tx). s \<in> fst ` set present"
    and claims: "\<forall>e \<in> set present. uc_verify_claims uc (snd e) (st_intent_message t) (fst e) = Inr ()"
    by (auto simp: verify_message_signature_def sender_signed_inner_def get_signer_sig_mapping_def
        rust_assert_def Let_def split_beta)
  from collect_signatures_Inr [OF coll] obtain addrs where
    addrs: "map (uc_address uc) (st_tx_signatures t) = map Inr addrs" "length addrs = length (st_tx_signatures t)"
    and inv: "btree_inv present" and present: "map_of present = map_of (rev (zip addrs (st_tx_signatures t)))"
    by auto
  have "fst ` set (zip addrs (st_tx_signatures t)) = set addrs"
    using addrs(2) by (metis list.set_map map_fst_zip)
  then have dom: "fst ` set present = set addrs"
    using arg_cong [OF present, of dom] by (simp add: dom_map_of_conv_image_fst)
  have perm: "distinct addrs" "set addrs = set (signers ?tx)"
    using signers_permuted [of addrs ?tx] addrs(2) len all dom by auto
  have "(a, sig) \<in> set present" if "(a, sig) \<in> set (zip addrs (st_tx_signatures t))" for a sig
  proof -
    have "distinct (map fst (rev (zip addrs (st_tx_signatures t))))"
      using perm(1) addrs(2) by (simp add: rev_map [symmetric])
    with that have "map_of present a = Some sig" by (simp add: present)
    then show ?thesis by (rule map_of_SomeD)
  qed
  with claims have "\<forall>(a, sig) \<in> set (zip addrs (st_tx_signatures t)). uc_verify_claims uc sig (st_intent_message t) a = Inr ()"
    by fastforce
  moreover have "set (signers ?tx) = {td_sender ?tx, gas_owner ?tx}" by (auto simp: signers_def)
  ultimately show ?thesis using addrs perm by blast
qed

lemma those_Some_iff: "those xs \<noteq> None \<longleftrightarrow> None \<notin> set xs"
  by (induction xs) (auto split: option.splits)

text \<open>
  C39.  The feature assertions inside the validity check never fire for a transaction whose version
  check passed: after \<open>check_version_supported\<close> the validity check returns.
\<close>

theorem supported_transaction_does_not_panic:
  assumes "td_check_version_supported config tx = Inr ()"
  shows "td_validity_check config tx \<noteq> None"
proof -
  have kind: "kind_check_version_supported config (td_kind tx) = Inr ()"
    using assms by (simp add: td_check_version_supported_def Let_def split: if_splits)
  have eoe: "eoe_validity_check config e \<noteq> None" if "eoe_version_supported config e = Inr ()" for e
    using that by (cases e) auto
  have "kind_validity_check config (td_kind tx) \<noteq> None"
  proof (cases "td_kind tx")
    case (EndOfEpochTransaction txns)
    with kind have flag: "tc_end_of_epoch_transaction_supported config"
      and all: "\<forall>e \<in> set txns. eoe_version_supported config e = Inr ()" by (auto split: if_splits)
    from all eoe have "None \<notin> set (map (eoe_validity_check config) txns)" by force
    then have "those (map (eoe_validity_check config) txns) \<noteq> None" by (simp only: those_Some_iff simp_thms)
    with flag show ?thesis by (auto simp: EndOfEpochTransaction rust_assert_def)
  qed (use kind in \<open>auto simp: rust_assert_def\<close>)
  then obtain r where "kind_validity_check config (td_kind tx) = Some r" by blast
  then show ?thesis
    by (cases r) (auto simp: td_validity_check_def validity_check_no_gas_check_def fp_ensure_def)
qed

subsection \<open>Separators\<close>

text \<open>
  C40.  The separator is written before every item but the last instead of between the items, so the
  text of a list with more than one item starts with a separator and its last two items are joined
  without one.
\<close>

theorem write_sep_misplaces_separators:
  "write_sep sep (xs @ [y, z]) = concat (map (\<lambda>x. sep @ x) (xs @ [y])) @ z"
  by (induction xs) auto

subsection \<open>Sample transactions\<close>

text \<open>
  A sponsored call of a function of package 9 with a type argument that names package 11, on a
  shared object and an owned object, signed by the sender 17 and the sponsor 18.
\<close>

definition sample_pt :: programmable_transaction where
  "sample_pt = \<lparr>pt_inputs = [PureArg [1, 2], ObjectCallArg (SharedObject 30 1 True), ObjectCallArg (ImmOrOwnedObject (31, 2, 5))],
     pt_commands = [MoveCall \<lparr>pm_package = 9, pm_module = ''m'', pm_function = ''f'',
       pm_type_arguments = [TagVector (TagStruct (StructTag 11 ''a'' ''S'' []))],
       pm_arguments = [ArgInput 1, ArgInput 2]\<rparr>]\<rparr>"

definition sample_tx :: transaction_data where
  "sample_tx = new_with_gas_coins_allow_sponsor (ProgrammableTransaction sample_pt) 17 [(40, 2, 6)] 1000 1 18"

definition sample_tx_config :: tx_config where
  "sample_tx_config = \<lparr>pc_gas_model_version = 8, pc_base_tx_cost_fixed = 1000, pc_txn_base_cost_as_multiplier = True,
     pc_max_tx_gas = 50000000000, pc_max_gas_price = 100000, pc_max_gas_computation_bucket = 5000000,
     pc_package_publish_cost_per_byte = 80, pc_obj_access_cost_read_per_byte = 15,
     pc_obj_data_cost_refundable = 100, pc_storage_gas_price = 76, pc_storage_rebate_rate = 9900,
     pc_gas_rounding_step = Some 1000, tc_version = 24, tc_max_type_argument_depth = 16, tc_max_type_arguments = 16,
     tc_max_arguments = 512, tc_max_pure_argument_size = 16384, tc_max_programmable_tx_commands = 1024,
     tc_max_modules_in_publish = 128, tc_max_publish_or_upgrade_per_ptb = Some 5, tc_max_gas_payment_objects = 256,
     tc_max_input_objects = 2048, tc_receiving_objects_supported = True, tc_enable_jwk_consensus_updates = True,
     tc_end_of_epoch_transaction_supported = True\<rparr>"

definition sample_crypto :: user_crypto where
  "sample_crypto = \<lparr>uc_address = (\<lambda>s. case s of GsSignature n \<Rightarrow> Inr (of_nat n) | _ \<Rightarrow> Inl (InvalidUserSignature 0)),
     uc_verify_claims = (\<lambda>s tx a. Inr ()), uc_verify_uncached_checks = (\<lambda>s tx a. Inr ()),
     uc_verify_epoch = (\<lambda>s e. Inr ())\<rparr>"

definition sample_signed :: sender_signed_transaction where
  "sample_signed = \<lparr>st_intent_message = \<lparr>im_intent = sui_transaction, im_value = sample_tx\<rparr>,
     st_tx_signatures = [GsSignature 18, GsSignature 17]\<rparr>"

theorem pt_input_objects_complete_witness:
  "pt_input_objects sample_pt = Inr [SharedMoveObject 30 1 True, ImmOrOwnedMoveObject (31, 2, 5),
     MovePackageKind 9, MovePackageKind 11] \<and>
   pt_shared_input_objects sample_pt = [\<lparr>si_id = 30, si_initial_shared_version = 1, si_mutable = True\<rparr>]"
proof
  show *: "pt_input_objects sample_pt = Inr [SharedMoveObject 30 1 True, ImmOrOwnedMoveObject (31, 2, 5),
     MovePackageKind 9, MovePackageKind 11]"
    by code_simp
  from pt_input_objects_complete [OF *]
  show "pt_shared_input_objects sample_pt = [\<lparr>si_id = 30, si_initial_shared_version = 1, si_mutable = True\<rparr>]"
    by (auto simp: List.map_filter_def)
qed

theorem verified_transaction_signed_by_signers_witness:
  "verify_message_signature sample_crypto [sample_signed] = Some (Inr ()) \<and>
   \<not> is_system_tx (td_kind (st_data sample_signed)) \<and>
   (\<exists>addrs. map (uc_address sample_crypto) (st_tx_signatures sample_signed) = map Inr addrs \<and> distinct addrs \<and>
     set addrs = {td_sender (st_data sample_signed), gas_owner (st_data sample_signed)})"
proof -
  have v: "verify_message_signature sample_crypto [sample_signed] = Some (Inr ())" by code_simp
  have u: "\<not> is_system_tx (td_kind (st_data sample_signed))" by code_simp
  from verified_transaction_signed_by_signers [OF v refl u] v u show ?thesis by blast
qed

theorem supported_transaction_does_not_panic_witness:
  "td_check_version_supported sample_tx_config sample_tx = Inr () \<and> td_validity_check sample_tx_config sample_tx \<noteq> None"
proof -
  have "td_check_version_supported sample_tx_config sample_tx = Inr ()" by code_simp
  with supported_transaction_does_not_panic [OF this] show ?thesis by blast
qed

end
