(* ===== verification/Transaction_Checks.thy ===== *)
theory Transaction_Checks
  imports Transaction_Data Failed_Transactions Object_Ownership
begin

section \<open>The checks before signing and execution\<close>

text \<open>
  Models \<open>src/crates/sui-transaction-checks/src/lib.rs\<close> and \<open>deny.rs\<close> with the configuration of
  \<open>src/crates/sui-config/src/transaction_deny_config.rs\<close>.  The object store is the record of
  functions \<open>backing_store\<close>, extended by the marker query for received objects.  The bytecode
  verifier with its meter and the provider of a zkLogin signature come from other crates and are
  parameters.  \<^const>\<open>None\<close> is a panic: the identifier of a malformed object, or the assertion that
  the store returned the version it was asked for.
\<close>

record checked_store = backing_store +
  cs_have_received :: "object_id \<Rightarrow> sequence_number \<Rightarrow> u64 \<Rightarrow> store_error + bool"

definition from_store :: "store_error + 'a \<Rightarrow> tx_error + 'a" where
  "from_store r = map_sum TxStorageError id r"

definition from_user :: "user_input_error + 'a \<Rightarrow> tx_error + 'a" where
  "from_user r = map_sum UserInputError id r"

lemma from_store_Inr [simp]: "from_store r = Inr x \<longleftrightarrow> r = Inr x"
  by (cases r) (auto simp: from_store_def)

lemma from_user_Inr [simp]: "from_user r = Inr x \<longleftrightarrow> r = Inr x"
  by (cases r) (auto simp: from_user_def)

subsection \<open>Denied features, addresses, objects and packages\<close>

record transaction_deny_config =
  dc_object_deny_list :: "object_id list"
  dc_package_deny_list :: "object_id list"
  dc_address_deny_list :: "sui_address list"
  dc_package_publish_disabled :: bool
  dc_package_upgrade_disabled :: bool
  dc_shared_object_disabled :: bool
  dc_user_transaction_disabled :: bool
  dc_receiving_objects_disabled :: bool
  dc_zklogin_sig_disabled :: bool
  dc_zklogin_disabled_providers :: "string list"

definition deny_if_true :: "bool \<Rightarrow> string \<Rightarrow> object_id option \<Rightarrow> tx_error + unit" where
  "deny_if_true cond msg i = fp_ensure (\<not> cond) (UserInputError (TransactionDenied msg i))"

lemma deny_if_true_Inr [simp]: "deny_if_true cond msg i = Inr u \<longleftrightarrow> \<not> cond"
  by (simp add: deny_if_true_def)

definition deny_receiving_objects :: "transaction_deny_config \<Rightarrow> object_ref list \<Rightarrow> tx_error + unit" where
  "deny_receiving_objects config receiving_objects =
     result_then (deny_if_true (dc_receiving_objects_disabled config \<and> receiving_objects \<noteq> [])
         ''Receiving objects is temporarily disabled'' None) (\<lambda>_.
     for_each (\<lambda>(i, v, d). deny_if_true (i \<in> set (dc_object_deny_list config))
         ''Access to object is temporarily disabled'' (Some i)) receiving_objects)"

fun deny_signature ::
  "(nat \<Rightarrow> string option) \<Rightarrow> transaction_deny_config \<Rightarrow> generic_signature \<Rightarrow> tx_error + unit" where
  "deny_signature provider_of config (GsZkLoginAuthenticator z) =
     result_then (deny_if_true (dc_zklogin_sig_disabled config)
         ''zkLogin authenticator is temporarily disabled'' None) (\<lambda>_.
     case provider_of z of
       None \<Rightarrow> Inl UnexpectedMessage
     | Some provider \<Rightarrow> deny_if_true (provider \<in> set (dc_zklogin_disabled_providers config))
         ''zkLogin OAuth provider is temporarily disabled'' None)"
| "deny_signature provider_of config _ = Inr ()"

fun is_publish_command :: "command \<Rightarrow> bool" where
  "is_publish_command (Publish modules deps) = True"
| "is_publish_command _ = False"

fun is_upgrade_command :: "command \<Rightarrow> bool" where
  "is_upgrade_command (Upgrade modules deps package_id ticket) = True"
| "is_upgrade_command _ = False"

definition check_disabled_features ::
  "(nat \<Rightarrow> string option) \<Rightarrow> transaction_deny_config \<Rightarrow> transaction_data \<Rightarrow> generic_signature list \<Rightarrow>
     tx_error + unit" where
  "check_disabled_features provider_of config tx tx_signatures =
     result_then (deny_if_true (dc_user_transaction_disabled config)
         ''Transaction signing is temporarily disabled'' None) (\<lambda>_.
     result_then (for_each (deny_signature provider_of config) tx_signatures) (\<lambda>_.
     if \<not> dc_package_publish_disabled config \<and> \<not> dc_package_upgrade_disabled config then Inr ()
     else for_each (\<lambda>command.
       result_then (deny_if_true (dc_package_publish_disabled config \<and> is_publish_command command)
           ''Package publish is temporarily disabled'' None) (\<lambda>_.
       deny_if_true (dc_package_upgrade_disabled config \<and> is_upgrade_command command)
           ''Package upgrade is temporarily disabled'' None)) (iter_commands (td_kind tx))))"

definition check_signers :: "transaction_deny_config \<Rightarrow> transaction_data \<Rightarrow> tx_error + unit" where
  "check_signers config tx =
     (if dc_address_deny_list config = [] then Inr ()
      else for_each (\<lambda>signer. deny_if_true (signer \<in> set (dc_address_deny_list config))
        ''Access to account address is temporarily disabled'' (Some signer)) (signers tx))"

definition deny_input_objects :: "transaction_deny_config \<Rightarrow> input_object_kind list \<Rightarrow> tx_error + unit" where
  "deny_input_objects config input_objects =
     (if dc_object_deny_list config = [] \<and> \<not> dc_shared_object_disabled config then Inr ()
      else for_each (\<lambda>object_kind.
        result_then (deny_if_true (kind_object_id object_kind \<in> set (dc_object_deny_list config))
            ''Access to input object is temporarily disabled'' (Some (kind_object_id object_kind))) (\<lambda>_.
        deny_if_true (dc_shared_object_disabled config \<and> is_shared_object object_kind)
            ''Usage of shared object in transactions is temporarily disabled'' None)) input_objects)"

text \<open>\<open>BackingPackageStore::get_package\<close>: an object that is no package counts as absent.\<close>

definition get_package :: "'a backing_store_scheme \<Rightarrow> object_id \<Rightarrow> store_error + move_package option" where
  "get_package store i =
     map_sum id (\<lambda>ob. Option.bind ob (\<lambda>ob. case o_data ob of Package p \<Rightarrow> Some p | Move m \<Rightarrow> None))
       (bs_get_package_object store i)"

fun command_dependencies :: "'a backing_store_scheme \<Rightarrow> command \<Rightarrow> tx_error + object_id list" where
  "command_dependencies store (Publish modules deps) = Inr deps"
| "command_dependencies store (Upgrade modules deps package_id ticket) = Inr (deps @ [package_id])"
| "command_dependencies store (MoveCall call) =
     result_then (from_store (get_package store (pm_package call))) (\<lambda>p.
     case p of
       None \<Rightarrow> Inl (UserInputError (ObjectNotFound (pm_package call) None))
     | Some package \<Rightarrow>
         Inr (map (\<lambda>(original, upgraded_id, upgraded_version). upgraded_id) (mp_linkage_table package) @
           [mp_id package]))"
| "command_dependencies store _ = Inr []"

fun collect_dependencies :: "'a backing_store_scheme \<Rightarrow> command list \<Rightarrow> tx_error + object_id list" where
  "collect_dependencies store [] = Inr []"
| "collect_dependencies store (c # cs) =
     result_then (command_dependencies store c) (\<lambda>deps.
     result_then (collect_dependencies store cs) (\<lambda>rest. Inr (deps @ rest)))"

definition check_package_dependencies ::
  "transaction_deny_config \<Rightarrow> transaction_data \<Rightarrow> 'a backing_store_scheme \<Rightarrow> tx_error + unit" where
  "check_package_dependencies config tx store =
     (if dc_package_deny_list config = [] then Inr ()
      else result_then (collect_dependencies store (iter_commands (td_kind tx))) (\<lambda>dependencies.
        for_each (\<lambda>dep. deny_if_true (dep \<in> set (dc_package_deny_list config))
          ''Access to package is temporarily disabled'' (Some dep)) dependencies))"

definition check_transaction_for_signing ::
  "(nat \<Rightarrow> string option) \<Rightarrow> transaction_data \<Rightarrow> generic_signature list \<Rightarrow> input_object_kind list \<Rightarrow>
     object_ref list \<Rightarrow> transaction_deny_config \<Rightarrow> 'a backing_store_scheme \<Rightarrow> tx_error + unit" where
  "check_transaction_for_signing provider_of tx tx_signatures input_objects receiving_objects config store =
     result_then (check_disabled_features provider_of config tx tx_signatures) (\<lambda>_.
     result_then (check_signers config tx) (\<lambda>_.
     result_then (deny_input_objects config input_objects) (\<lambda>_.
     result_then (check_package_dependencies config tx store) (\<lambda>_.
     deny_receiving_objects config receiving_objects))))"

subsection \<open>Loading the inputs and checking the gas\<close>

text \<open>\<open>SequenceNumber::MAX\<close>.\<close>

definition SEQUENCE_MAX :: sequence_number where
  "SEQUENCE_MAX = 9223372036854775807"

fun object_not_found_error :: "input_object_kind \<Rightarrow> user_input_error" where
  "object_not_found_error (MovePackageKind package_id) = DependentPackageNotFound package_id"
| "object_not_found_error (ImmOrOwnedMoveObject (i, version, d)) = ObjectNotFound i (Some version)"
| "object_not_found_error (SharedMoveObject i v mutable) = ObjectNotFound i None"

fun load_kind :: "'a backing_store_scheme \<Rightarrow> input_object_kind \<Rightarrow> store_error + sui_object option" where
  "load_kind store (MovePackageKind i) = bs_get_object store i"
| "load_kind store (SharedMoveObject i v mutable) = bs_get_object store i"
| "load_kind store (ImmOrOwnedMoveObject (i, v, d)) = bs_get_object_by_key store i v"

fun load_all :: "'a backing_store_scheme \<Rightarrow> input_object_kind list \<Rightarrow> tx_error + sui_object list" where
  "load_all store [] = Inr []"
| "load_all store (kind # kinds) =
     result_then (from_store (load_kind store kind)) (\<lambda>ob.
     case ob of
       None \<Rightarrow> Inl (UserInputError (object_not_found_error kind))
     | Some ob \<Rightarrow> result_then (load_all store kinds) (\<lambda>obs. Inr (ob # obs)))"

definition check_input_objects ::
  "'a backing_store_scheme \<Rightarrow> input_object_kind list \<Rightarrow> tx_config \<Rightarrow> tx_error + sui_object list" where
  "check_input_objects store kinds config =
     result_then (fp_ensure (length kinds \<le> unat (tc_max_input_objects config))
         (UserInputError (SizeLimitExceeded ''maximum input objects in a transaction''
           (unat (tc_max_input_objects config))))) (\<lambda>_.
     load_all store kinds)"

fun gas_objects :: "(object_id, sui_object) btree_map \<Rightarrow> object_ref list \<Rightarrow> user_input_error + sui_object list" where
  "gas_objects objects [] = Inr []"
| "gas_objects objects ((i, v, d) # gas) =
     (case map_of objects i of
        None \<Rightarrow> Inl (ObjectNotFound i (Some v))
      | Some ob \<Rightarrow> result_then (gas_objects objects gas) (\<lambda>obs. Inr (ob # obs)))"

definition check_gas ::
  "sui_object list \<Rightarrow> tx_config \<Rightarrow> u64 \<Rightarrow> object_ref list \<Rightarrow> u64 \<Rightarrow> u64 \<Rightarrow> transaction_kind \<Rightarrow>
     (tx_error + sui_gas_status) option" where
  "check_gas objects config reference_gas_price gas budget price kind =
     (if is_system_tx kind then map_option Inr new_unmetered
      else
        try_then (map_option from_user
          (gas_new budget price reference_gas_price (protocol_config.truncate config))) (\<lambda>gas_status. do {
        ids \<leftarrow> those (map object_id_of objects);
        try_then (Some (from_user (gas_objects (btree_collect (zip ids objects)) gas))) (\<lambda>gas_objs.
        try_then (map_option from_user (check_gas_balance gas_status gas_objs budget)) (\<lambda>_.
        Some (Inr gas_status)))
      }))"

definition get_gas_status ::
  "sui_object list \<Rightarrow> object_ref list \<Rightarrow> tx_config \<Rightarrow> u64 \<Rightarrow> transaction_data \<Rightarrow>
     (tx_error + sui_gas_status) option" where
  "get_gas_status objects gas config reference_gas_price tx =
     check_gas objects config reference_gas_price gas (gd_budget (td_gas_data tx)) (gd_price (td_gas_data tx))
       (td_kind tx)"

subsection \<open>Checking the objects\<close>

definition check_owned_object ::
  "object_env \<Rightarrow> sui_address \<Rightarrow> object_ref \<Rightarrow> sui_object \<Rightarrow> (user_input_error + unit) option" where
  "check_owned_object env own = (\<lambda>(i, version, digest) ob.
     try_then (Some (fp_ensure (\<not> is_package ob) (MovePackageAsObject i))) (\<lambda>_.
     try_then (Some (fp_ensure (version < SEQUENCE_MAX) InvalidSequenceNumber)) (\<lambda>_. do {
     rust_assert (object_version ob = version);
     try_then (Some (fp_ensure (object_digest env ob = digest) (InvalidObjectDigest i (object_digest env ob)))) (\<lambda>_.
     case o_owner ob of
       Immutable \<Rightarrow> Some (Inr ())
     | AddressOwner actual_owner \<Rightarrow>
         Some (fp_ensure (own = actual_owner) (IncorrectUserSignature i actual_owner own))
     | ObjectOwner parent \<Rightarrow>
         map_option (\<lambda>child. Inl (InvalidChildObjectArgument child parent)) (object_id_of ob)
     | Shared v \<Rightarrow> Some (Inl NotSharedObjectError))
   })))"

definition check_shared_object :: "sequence_number \<Rightarrow> sui_object \<Rightarrow> user_input_error + unit" where
  "check_shared_object input_initial_shared_version ob =
     result_then (fp_ensure (object_version ob < SEQUENCE_MAX) InvalidSequenceNumber) (\<lambda>_.
     case o_owner ob of
       Shared actual_initial_shared_version \<Rightarrow>
         fp_ensure (input_initial_shared_version = actual_initial_shared_version)
           SharedObjectStartingVersionMismatch
     | _ \<Rightarrow> Inl NotSharedObjectError)"

definition check_one_object ::
  "object_env \<Rightarrow> sui_address \<Rightarrow> input_object_kind \<Rightarrow> sui_object \<Rightarrow> bool \<Rightarrow> (user_input_error + unit) option" where
  "check_one_object env own kind ob system_transaction =
     (case kind of
        MovePackageKind package_id \<Rightarrow> Some (fp_ensure (is_package ob) (MoveObjectAsPackage package_id))
      | ImmOrOwnedMoveObject r \<Rightarrow> check_owned_object env own r ob
      | SharedMoveObject i v mutable \<Rightarrow>
          Some (if i = SUI_CLOCK_OBJECT_ID \<and> v = OBJECT_START_VERSION \<and> mutable
                then fp_ensure system_transaction (ImmutableParameterExpectedError SUI_CLOCK_OBJECT_ID)
                else if i = SUI_AUTHENTICATOR_STATE_OBJECT_ID
                then fp_ensure system_transaction (InaccessibleSystemObject SUI_AUTHENTICATOR_STATE_OBJECT_ID)
                else check_shared_object v ob))"

fun mutable_used_once :: "object_id list \<Rightarrow> sui_object list \<Rightarrow> (user_input_error + unit) option" where
  "mutable_used_once used [] = Some (Inr ())"
| "mutable_used_once used (ob # obs) =
     (if is_immutable (o_owner ob) then mutable_used_once used obs
      else do {
        i \<leftarrow> object_id_of ob;
        if i \<in> set used then Some (Inl (MutableObjectUsedMoreThanOnce i))
        else mutable_used_once (i # used) obs
      })"

text \<open>The identifier of an object is computed only when there is a gas payment to look it up in.\<close>

fun check_each_object ::
  "object_env \<Rightarrow> transaction_data \<Rightarrow> (input_object_kind \<times> sui_object) list \<Rightarrow> (user_input_error + unit) option" where
  "check_each_object env tx [] = Some (Inr ())"
| "check_each_object env tx ((kind, ob) # rest) = do {
     owner_address \<leftarrow>
       (if td_gas tx = [] then Some (td_sender tx)
        else do {
          i \<leftarrow> object_id_of ob;
          Some (if list_ex (\<lambda>r. fst r = i) (td_gas tx) then gas_owner tx else td_sender tx)
        });
     try_then (check_one_object env owner_address kind ob (is_system_tx (td_kind tx))) (\<lambda>_.
     check_each_object env tx rest)
   }"

fun is_genesis_tx :: "transaction_kind \<Rightarrow> bool" where
  "is_genesis_tx (Genesis objects) = True"
| "is_genesis_tx _ = False"

definition check_objects ::
  "object_env \<Rightarrow> transaction_data \<Rightarrow> input_object_kind list \<Rightarrow> sui_object list \<Rightarrow>
     (user_input_error + input_objects) option" where
  "check_objects env tx kinds objects =
     try_then (mutable_used_once [] objects) (\<lambda>_.
     let all_objects = zip kinds objects in
     try_then (check_each_object env tx all_objects) (\<lambda>_.
     Some (if \<not> is_genesis_tx (td_kind tx) \<and> all_objects = [] then Inl ObjectInputArityViolation
           else Inr all_objects)))"

subsection \<open>Receiving objects and packages to publish\<close>

definition receivable :: "object_env \<Rightarrow> object_ref \<Rightarrow> sui_object option \<Rightarrow> bool" where
  "receivable env = (\<lambda>(i, version, digest) ob.
     case ob of
       None \<Rightarrow> False
     | Some x \<Rightarrow> is_address_owned (o_owner x) \<and> object_version x = version \<and> object_digest env x = digest)"

text \<open>The errors for an object that can neither be received nor has been received.\<close>

definition receiving_error ::
  "object_env \<Rightarrow> object_ref \<Rightarrow> sui_object option \<Rightarrow> (user_input_error + unit) option" where
  "receiving_error env = (\<lambda>(i, version, digest) ob.
     case ob of
       None \<Rightarrow> Some (Inl (ObjectNotFound i (Some version)))
     | Some x \<Rightarrow>
         try_then (Some (fp_ensure (object_version x = version)
           (ObjectVersionUnavailableForConsumption (i, version, digest) (object_version x)))) (\<lambda>_.
         try_then (Some (fp_ensure (\<not> is_package x) (MovePackageAsObject i))) (\<lambda>_.
         try_then (Some (fp_ensure (object_digest env x = digest) (InvalidObjectDigest i (object_digest env x)))) (\<lambda>_.
         case o_owner x of
           AddressOwner a \<Rightarrow> Some (Inl (ObjectNotFound i (Some version)))
         | ObjectOwner parent \<Rightarrow>
             map_option (\<lambda>child. Inl (InvalidChildObjectArgument child parent)) (object_id_of x)
         | Shared v \<Rightarrow> Some (Inl NotSharedObjectError)
         | Immutable \<Rightarrow> Some (Inl (MutableParameterExpected i))))))"

fun check_each_receiving ::
  "object_env \<Rightarrow> 'a checked_store_scheme \<Rightarrow> u64 \<Rightarrow> object_id list \<Rightarrow> object_ref list \<Rightarrow>
     (tx_error + unit) option" where
  "check_each_receiving env store epoch objects_in_txn [] = Some (Inr ())"
| "check_each_receiving env store epoch objects_in_txn ((i, version, digest) # rest) =
     try_then (Some (fp_ensure (version < SEQUENCE_MAX) (UserInputError InvalidSequenceNumber))) (\<lambda>_.
     try_then (Some (from_store (bs_get_object store i))) (\<lambda>ob.
     try_then (if receivable env (i, version, digest) ob then Some (Inr ())
         else try_then (Some (from_store (cs_have_received store i version epoch))) (\<lambda>received.
           if received then Some (Inr ())
           else map_option from_user (receiving_error env (i, version, digest) ob))) (\<lambda>_.
     try_then (Some (fp_ensure (i \<notin> set objects_in_txn) (UserInputError DuplicateObjectRefInput))) (\<lambda>_.
     check_each_receiving env store epoch (i # objects_in_txn) rest))))"

definition check_receiving_objects ::
  "object_env \<Rightarrow> 'a checked_store_scheme \<Rightarrow> object_ref list \<Rightarrow> input_objects \<Rightarrow> tx_config \<Rightarrow> u64 \<Rightarrow>
     (tx_error + unit) option" where
  "check_receiving_objects env store receiving inputs config epoch =
     try_then (Some (fp_ensure (length receiving + length inputs \<le> unat (tc_max_input_objects config))
         (UserInputError (SizeLimitExceeded ''maximum input and receiving objects in a transaction''
           (unat (tc_max_input_objects config)))))) (\<lambda>_.
     check_each_receiving env store epoch (map (kind_object_id \<circ> fst) inputs) receiving)"

text \<open>The verifier keeps its meter over all packages; \<^const>\<open>None\<close> of \<open>meter\<close> is its error.\<close>

fun meter_packages :: "('v \<Rightarrow> u8 list list \<Rightarrow> 'v option) \<Rightarrow> 'v \<Rightarrow> u8 list list list \<Rightarrow> user_input_error + unit" where
  "meter_packages meter verifier [] = Inr ()"
| "meter_packages meter verifier (modules # rest) =
     (case meter verifier modules of
        None \<Rightarrow> Inl PackageVerificationTimedout
      | Some verifier \<Rightarrow> meter_packages meter verifier rest)"

fun check_non_system_packages_to_be_published ::
  "('v \<Rightarrow> u8 list list \<Rightarrow> 'v option) \<Rightarrow> 'v \<Rightarrow> transaction_kind \<Rightarrow> user_input_error + unit" where
  "check_non_system_packages_to_be_published meter verifier (ProgrammableTransaction pt) =
     meter_packages meter verifier (pt_packages_to_be_published pt)"
| "check_non_system_packages_to_be_published meter verifier _ = Inr ()"

subsection \<open>The entry points\<close>

text \<open>What comes from outside the checks: the bytecode verifier and the providers of zkLogin signatures.\<close>

record 'v check_env =
  ke_object_env :: object_env
  ke_meter :: "'v \<Rightarrow> u8 list list \<Rightarrow> 'v option"
  ke_verifier :: 'v
  ke_provider_of :: "nat \<Rightarrow> string option"

definition check_transaction_input ::
  "'v check_env \<Rightarrow> 'a checked_store_scheme \<Rightarrow> tx_config \<Rightarrow> u64 \<Rightarrow> u64 \<Rightarrow> transaction_data \<Rightarrow>
     generic_signature list \<Rightarrow> transaction_deny_config \<Rightarrow> (tx_error + sui_gas_status \<times> input_objects) option" where
  "check_transaction_input ke store config reference_gas_price epoch tx tx_signatures deny =
     try_then (Some (td_check_version_supported config tx)) (\<lambda>_.
     try_then (map_option from_user (td_validity_check config tx)) (\<lambda>_.
     let receiving = kind_receiving_objects (td_kind tx) in
     try_then (Some (from_user (td_input_objects tx))) (\<lambda>kinds.
     try_then (Some (check_transaction_for_signing (ke_provider_of ke) tx tx_signatures kinds receiving deny store)) (\<lambda>_.
     try_then (Some (from_user (check_non_system_packages_to_be_published (ke_meter ke) (ke_verifier ke)
         (td_kind tx)))) (\<lambda>_.
     try_then (Some (check_input_objects store kinds config)) (\<lambda>objects.
     try_then (get_gas_status objects (td_gas tx) config reference_gas_price tx) (\<lambda>gas_status.
     try_then (map_option from_user (check_objects (ke_object_env ke) tx kinds objects)) (\<lambda>inputs.
     try_then (check_receiving_objects (ke_object_env ke) store receiving inputs config epoch) (\<lambda>_.
     Some (Inr (gas_status, inputs)))))))))))"

definition check_transaction_input_with_given_gas ::
  "'v check_env \<Rightarrow> 'a checked_store_scheme \<Rightarrow> tx_config \<Rightarrow> u64 \<Rightarrow> u64 \<Rightarrow> transaction_data \<Rightarrow>
     sui_object \<Rightarrow> (tx_error + sui_gas_status \<times> input_objects) option" where
  "check_transaction_input_with_given_gas ke store config reference_gas_price epoch tx gas_object =
     try_then (Some (td_check_version_supported config tx)) (\<lambda>_.
     try_then (map_option from_user (validity_check_no_gas_check config tx)) (\<lambda>_.
     try_then (Some (from_user (check_non_system_packages_to_be_published (ke_meter ke) (ke_verifier ke)
         (td_kind tx)))) (\<lambda>_.
     let receiving = kind_receiving_objects (td_kind tx) in
     try_then (Some (from_user (td_input_objects tx))) (\<lambda>kinds.
     try_then (Some (check_input_objects store kinds config)) (\<lambda>objects. do {
     gas_object_ref \<leftarrow> compute_object_reference (ke_object_env ke) gas_object;
     let kinds = kinds @ [ImmOrOwnedMoveObject gas_object_ref];
     let objects = objects @ [gas_object];
     try_then (get_gas_status objects [gas_object_ref] config reference_gas_price tx) (\<lambda>gas_status.
     try_then (map_option from_user (check_objects (ke_object_env ke) tx kinds objects)) (\<lambda>inputs.
     try_then (check_receiving_objects (ke_object_env ke) store receiving inputs config epoch) (\<lambda>_.
     Some (Inr (gas_status, inputs)))))
     })))))"

definition check_dev_inspect_input ::
  "(programmable_transaction \<Rightarrow> string) \<Rightarrow> object_env \<Rightarrow> 'a backing_store_scheme \<Rightarrow> tx_config \<Rightarrow>
     transaction_kind \<Rightarrow> sui_object \<Rightarrow> (tx_error + object_ref \<times> input_objects) option" where
  "check_dev_inspect_input show_pt env store config kind gas_object = do {
     gas_object_ref \<leftarrow> compute_object_reference env gas_object;
     try_then (map_option from_user (kind_validity_check config kind)) (\<lambda>_.
     try_then (Some (fp_ensure (\<not> is_system_tx kind) (UserInputError (Unsupported
         (''Transaction kind '' @ fmt_kind show_pt kind @ '' is not supported in dev-inspect''))))) (\<lambda>_.
     try_then (Some (from_user (kind_input_objects kind))) (\<lambda>kinds.
     try_then (Some (check_input_objects store kinds config)) (\<lambda>objects.
     try_then (map_option from_user (mutable_used_once [] objects)) (\<lambda>_.
     let kinds = kinds @ [ImmOrOwnedMoveObject gas_object_ref];
         objects = objects @ [gas_object]
     in Some (Inr (gas_object_ref, zip kinds objects)))))))
   }"

subsection \<open>What the checks establish\<close>

lemma load_all_Inr:
  "load_all store kinds = Inr obs \<Longrightarrow> list_all2 (\<lambda>k ob. load_kind store k = Inr (Some ob)) kinds obs"
  by (induction kinds arbitrary: obs) (auto split: option.splits)

definition payer :: "transaction_data \<Rightarrow> object_id \<Rightarrow> sui_address" where
  "payer tx i = (if i \<in> fst ` set (td_gas tx) then gas_owner tx else td_sender tx)"

lemma payer_list_ex: "(if list_ex (\<lambda>r. fst r = i) (td_gas tx) then gas_owner tx else td_sender tx) = payer tx i"
  by (auto simp: payer_def list_ex_iff)

lemma check_each_object_Inr:
  assumes "check_each_object env tx inputs = Some (Inr ())" and "(k, ob) \<in> set inputs" and "object_id_of ob = Some i"
  shows "check_one_object env (payer tx i) k ob (is_system_tx (td_kind tx)) = Some (Inr ())"
  using assms
proof (induction inputs)
  case (Cons e inputs)
  obtain k' ob' where e: "e = (k', ob')" by (cases e)
  from Cons.prems(1) obtain own where
    own: "(if td_gas tx = [] then Some (td_sender tx) else Option.bind (object_id_of ob')
      (\<lambda>i. Some (if list_ex (\<lambda>r. fst r = i) (td_gas tx) then gas_owner tx else td_sender tx))) = Some own"
    and one: "check_one_object env own k' ob' (is_system_tx (td_kind tx)) = Some (Inr ())"
    and rest: "check_each_object env tx inputs = Some (Inr ())"
    by (auto simp: e bind_eq_Some_conv)
  show ?case
  proof (cases "(k, ob) = e")
    case True
    with own e Cons.prems(3) have "own = payer tx i"
      by (auto simp: payer_list_ex payer_def split: if_splits)
    with True one e show ?thesis by simp
  next
    case False
    with Cons.prems(2,3) Cons.IH [OF rest] show ?thesis by simp
  qed
qed simp

lemma mutable_used_once_Inr:
  assumes "mutable_used_once used obs = Some (Inr ())"
  shows "\<exists>ids. map object_id_of (filter (\<lambda>ob. \<not> is_immutable (o_owner ob)) obs) = map Some ids \<and>
    distinct ids \<and> set ids \<inter> set used = {}"
  using assms
proof (induction used obs rule: mutable_used_once.induct)
  case (2 used ob obs)
  show ?case
  proof (cases "is_immutable (o_owner ob)")
    case False
    with 2(3) obtain i where i: "object_id_of ob = Some i" "i \<notin> set used"
      and rest: "mutable_used_once (i # used) obs = Some (Inr ())"
      by (auto simp: bind_eq_Some_conv split: if_splits)
    from 2(2) [OF False i rest] obtain ids where
      "map object_id_of (filter (\<lambda>ob. \<not> is_immutable (o_owner ob)) obs) = map Some ids"
      "distinct ids" "set ids \<inter> set (i # used) = {}" by blast
    with False i show ?thesis by (intro exI [of _ "i # ids"]) auto
  qed (use 2 in auto)
qed simp

lemma check_owned_object_Inr:
  "check_owned_object env own (i, v, d) ob = Some (Inr ()) \<longleftrightarrow>
     \<not> is_package ob \<and> v < SEQUENCE_MAX \<and> object_version ob = v \<and> object_digest env ob = d \<and>
     (o_owner ob = Immutable \<or> o_owner ob = AddressOwner own)"
  by (cases "o_owner ob") (auto simp: check_owned_object_def bind_eq_Some_conv)

lemma check_shared_object_Inr:
  "check_shared_object v ob = Inr () \<longleftrightarrow> object_version ob < SEQUENCE_MAX \<and> o_owner ob = Shared v"
  by (cases "o_owner ob") (auto simp: check_shared_object_def)

text \<open>What a user transaction may be given for each kind of input.\<close>

fun input_ok :: "object_env \<Rightarrow> sui_address \<Rightarrow> input_object_kind \<Rightarrow> sui_object \<Rightarrow> bool" where
  "input_ok env own (MovePackageKind i) ob \<longleftrightarrow> is_package ob"
| "input_ok env own (ImmOrOwnedMoveObject (i, v, d)) ob \<longleftrightarrow>
     \<not> is_package ob \<and> v < SEQUENCE_MAX \<and> object_version ob = v \<and> object_digest env ob = d \<and>
     (o_owner ob = Immutable \<or> o_owner ob = AddressOwner own)"
| "input_ok env own (SharedMoveObject i v mutable) ob \<longleftrightarrow>
     object_version ob < SEQUENCE_MAX \<and> o_owner ob = Shared v \<and> i \<noteq> SUI_AUTHENTICATOR_STATE_OBJECT_ID \<and>
     \<not> (i = SUI_CLOCK_OBJECT_ID \<and> v = OBJECT_START_VERSION \<and> mutable)"

lemma check_one_object_Inr:
  "check_one_object env own k ob False = Some (Inr ()) \<longleftrightarrow> input_ok env own k ob"
  by (cases k rule: kind_key.cases)
    (auto simp: check_one_object_def check_owned_object_Inr check_shared_object_Inr)

text \<open>The stages of \<open>check_transaction_input\<close> for a user transaction.\<close>

lemma check_transaction_input_stages:
  assumes "check_transaction_input ke store config rgp epoch tx sigs deny = Some (Inr (status, inputs))"
  obtains kinds objects where "td_input_objects tx = Inr kinds" and "td_gas tx \<noteq> []"
    and "list_all2 (\<lambda>k ob. load_kind store k = Inr (Some ob)) kinds objects"
    and "get_gas_status objects (td_gas tx) config rgp tx = Some (Inr status)"
    and "mutable_used_once [] objects = Some (Inr ())"
    and "check_each_object (ke_object_env ke) tx (zip kinds objects) = Some (Inr ())"
    and "inputs = zip kinds objects"
    and "check_each_receiving (ke_object_env ke) store epoch (map (kind_object_id \<circ> fst) inputs)
      (kind_receiving_objects (td_kind tx)) = Some (Inr ())"
proof -
  from assms obtain kinds objects where *: "td_input_objects tx = Inr kinds"
    "map_option from_user (td_validity_check config tx) = Some (Inr ())"
    "check_input_objects store kinds config = Inr objects"
    "get_gas_status objects (td_gas tx) config rgp tx = Some (Inr status)"
    "map_option from_user (check_objects (ke_object_env ke) tx kinds objects) = Some (Inr inputs)"
    "check_receiving_objects (ke_object_env ke) store (kind_receiving_objects (td_kind tx)) inputs config epoch =
      Some (Inr ())"
    by (auto simp: check_transaction_input_def Let_def)
  from *(2) have gas: "td_gas tx \<noteq> []" by (auto simp: td_validity_check_def)
  from *(3) have loaded: "list_all2 (\<lambda>k ob. load_kind store k = Inr (Some ob)) kinds objects"
    by (auto simp: check_input_objects_def intro: load_all_Inr)
  from *(5) have "check_objects (ke_object_env ke) tx kinds objects = Some (Inr inputs)" by auto
  then have checked: "mutable_used_once [] objects = Some (Inr ())"
    "check_each_object (ke_object_env ke) tx (zip kinds objects) = Some (Inr ())" "inputs = zip kinds objects"
    by (auto simp: check_objects_def Let_def split: if_splits)
  from *(6) have "check_each_receiving (ke_object_env ke) store epoch (map (kind_object_id \<circ> fst) inputs)
      (kind_receiving_objects (td_kind tx)) = Some (Inr ())"
    by (auto simp: check_receiving_objects_def)
  from that [OF *(1) gas loaded *(4) checked this] show thesis .
qed

subsection \<open>Admitted transactions\<close>

text \<open>
  What the code relies on from the object store.  An object is filed under its identifier, which is
  not zero; packages are immutable.  An owned input is the current version of its object: the
  lock table, which is checked separately, has an entry for that version only.
\<close>

definition store_answers :: "'a backing_store_scheme \<Rightarrow> input_object_kind list \<Rightarrow> bool" where
  "store_answers store kinds \<longleftrightarrow>
     (\<forall>i ob. bs_get_object store i = Inr (Some ob) \<longrightarrow>
        object_id_of ob = Some i \<and> i \<noteq> 0 \<and> (is_package ob \<longrightarrow> o_owner ob = Immutable)) \<and>
     (\<forall>i v d. ImmOrOwnedMoveObject (i, v, d) \<in> set kinds \<longrightarrow>
        bs_get_object_by_key store i v \<in> {Inr None, bs_get_object store i})"

definition admitted ::
  "object_env \<Rightarrow> (object_id \<Rightarrow> sui_object option) \<Rightarrow> transaction_data \<Rightarrow> input_objects \<Rightarrow> bool" where
  "admitted env current tx inputs \<longleftrightarrow>
     td_input_objects tx = Inr (map fst inputs) \<and>
     (\<forall>(k, ob) \<in> set inputs. current (kind_object_id k) = Some ob \<and> object_id_of ob = Some (kind_object_id k) \<and>
        kind_object_id k \<noteq> 0 \<and> (is_package ob \<longrightarrow> o_owner ob = Immutable) \<and>
        input_ok env (payer tx (kind_object_id k)) k ob) \<and>
     distinct (map (kind_object_id \<circ> fst) (filter (\<lambda>e. \<not> is_immutable (o_owner (snd e))) inputs))"

lemma admittedD:
  assumes "admitted env current tx inputs" and "(k, ob) \<in> set inputs"
  shows "current (kind_object_id k) = Some ob" and "object_id_of ob = Some (kind_object_id k)"
    and "kind_object_id k \<noteq> 0" and "is_package ob \<Longrightarrow> o_owner ob = Immutable"
    and "input_ok env (payer tx (kind_object_id k)) k ob"
  using assms by (auto simp: admitted_def)

lemma load_kind_current:
  assumes "store_answers store kinds" and "load_kind store k = Inr (Some ob)" and "k \<in> set kinds"
  shows "bs_get_object store (kind_object_id k) = Inr (Some ob)"
proof (cases k rule: kind_key.cases)
  case (2 i v d)
  with assms have "bs_get_object_by_key store i v \<in> {Inr None, bs_get_object store i}"
    by (simp only: store_answers_def)
  with 2 assms(2) show ?thesis by auto
qed (use assms(2) in auto)

lemma map_filter_ids:
  assumes "\<forall>e \<in> set es. object_id_of (snd e) = Some (f e)"
    and "map object_id_of (filter P (map snd es)) = map Some ids"
  shows "map f (filter (P \<circ> snd) es) = ids"
proof -
  have "map Some (map f (filter (P \<circ> snd) es)) = map object_id_of (filter P (map snd es))"
    using assms(1) by (induction es) auto
  then show ?thesis using assms(2) by (simp add: map_injective)
qed

lemma check_transaction_input_admits:
  assumes "check_transaction_input ke store config rgp epoch tx sigs deny = Some (Inr (status, inputs))"
    and "\<not> is_system_tx (td_kind tx)" and "\<forall>kinds. td_input_objects tx = Inr kinds \<longrightarrow> store_answers store kinds"
  shows "admitted (ke_object_env ke) (\<lambda>i. case bs_get_object store i of Inr x \<Rightarrow> x | Inl e \<Rightarrow> None) tx inputs"
proof -
  let ?current = "\<lambda>i. case bs_get_object store i of Inr x \<Rightarrow> x | Inl e \<Rightarrow> None"
  obtain kinds objects where kinds: "td_input_objects tx = Inr kinds" and "td_gas tx \<noteq> []"
    and loaded: "list_all2 (\<lambda>k ob. load_kind store k = Inr (Some ob)) kinds objects"
    and "get_gas_status objects (td_gas tx) config rgp tx = Some (Inr status)"
    and once: "mutable_used_once [] objects = Some (Inr ())"
    and each: "check_each_object (ke_object_env ke) tx (zip kinds objects) = Some (Inr ())"
    and inputs: "inputs = zip kinds objects"
    and "check_each_receiving (ke_object_env ke) store epoch (map (kind_object_id \<circ> fst) inputs)
      (kind_receiving_objects (td_kind tx)) = Some (Inr ())"
    by (rule check_transaction_input_stages [OF assms(1)])
  from assms(3) kinds have store: "store_answers store kinds" by simp
  have len: "length kinds = length objects" using loaded by (rule list_all2_lengthD)
  have entry: "bs_get_object store (kind_object_id k) = Inr (Some ob)" if "(k, ob) \<in> set inputs" for k ob
  proof -
    have "load_kind store k = Inr (Some ob)" "k \<in> set kinds"
      using that loaded unfolding inputs by (auto simp: list_all2_iff dest: set_zip_leftD)
    then show ?thesis by (rule load_kind_current [OF store])
  qed
  have facts: "?current (kind_object_id k) = Some ob \<and> object_id_of ob = Some (kind_object_id k) \<and>
      kind_object_id k \<noteq> 0 \<and> (is_package ob \<longrightarrow> o_owner ob = Immutable) \<and>
      input_ok (ke_object_env ke) (payer tx (kind_object_id k)) k ob" if "(k, ob) \<in> set inputs" for k ob
  proof -
    from entry [OF that] store have ob: "object_id_of ob = Some (kind_object_id k)" "kind_object_id k \<noteq> 0"
      "is_package ob \<longrightarrow> o_owner ob = Immutable" unfolding store_answers_def by blast+
    from check_each_object_Inr [OF each, folded inputs, OF that] ob(1) assms(2)
    have "input_ok (ke_object_env ke) (payer tx (kind_object_id k)) k ob"
      by (simp add: check_one_object_Inr)
    with ob entry [OF that] show ?thesis by simp
  qed
  obtain ids where ids: "map object_id_of (filter (\<lambda>ob. \<not> is_immutable (o_owner ob)) objects) = map Some ids"
    "distinct ids" using mutable_used_once_Inr [OF once] by blast
  have "map (kind_object_id \<circ> fst) (filter ((\<lambda>ob. \<not> is_immutable (o_owner ob)) \<circ> snd) inputs) = ids"
  proof (rule map_filter_ids)
    show "\<forall>e \<in> set inputs. object_id_of (snd e) = Some ((kind_object_id \<circ> fst) e)"
      using facts by fastforce
    show "map object_id_of (filter (\<lambda>ob. \<not> is_immutable (o_owner ob)) (map snd inputs)) = map Some ids"
      using ids(1) len by (simp add: inputs)
  qed
  with ids(2) have "distinct (map (kind_object_id \<circ> fst) (filter (\<lambda>e. \<not> is_immutable (o_owner (snd e))) inputs))"
    by (simp add: comp_def)
  moreover have "td_input_objects tx = Inr (map fst inputs)" using kinds len by (simp add: inputs)
  ultimately show ?thesis unfolding admitted_def using facts by blast
qed

lemma admitted_object_map:
  assumes "admitted env current tx inputs"
  shows "\<exists>m. into_object_map inputs = Some m \<and>
    (\<forall>i ob. map_of m i = Some ob \<longleftrightarrow> (\<exists>k. (k, ob) \<in> set inputs \<and> kind_object_id k = i))"
proof -
  let ?kvs = "map (\<lambda>(k, ob). (kind_object_id k, ob)) inputs"
  have "map (\<lambda>(kind, ob). map_option (\<lambda>i. (i, ob)) (object_id_of ob)) inputs = map Some ?kvs"
    using admittedD(2) [OF assms] by auto
  then have "those (map (\<lambda>(kind, ob). map_option (\<lambda>i. (i, ob)) (object_id_of ob)) inputs) = Some ?kvs"
    unfolding those_eq_Some .
  then have m: "into_object_map inputs = Some (btree_collect ?kvs)"
    by (simp only: into_object_map_def bind.simps)
  have "map_of (rev ?kvs) i = Some ob \<longleftrightarrow> (\<exists>k. (k, ob) \<in> set inputs \<and> kind_object_id k = i)" for i ob
  proof
    assume "map_of (rev ?kvs) i = Some ob"
    then have "(i, ob) \<in> set (rev ?kvs)" by (rule map_of_SomeD)
    then show "\<exists>k. (k, ob) \<in> set inputs \<and> kind_object_id k = i" by auto
  next
    assume "\<exists>k. (k, ob) \<in> set inputs \<and> kind_object_id k = i"
    then obtain k where k: "(k, ob) \<in> set inputs" "kind_object_id k = i" by blast
    then have "i \<in> fst ` set (rev ?kvs)" by force
    then obtain ob' where ob': "map_of (rev ?kvs) i = Some ob'"
      by (metis map_of_eq_None_iff not_Some_eq)
    then have "(i, ob') \<in> set (rev ?kvs)" by (rule map_of_SomeD)
    then obtain k' where "(k', ob') \<in> set inputs" "kind_object_id k' = i" by auto
    with k ob' admittedD(1) [OF assms] show "map_of (rev ?kvs) i = Some ob" by (metis option.inject)
  qed
  with m show ?thesis by (auto simp: btree_collect_lookup)
qed

lemma fold_max_below:
  "(\<forall>x \<in> set xs. x < b) \<Longrightarrow> m < b \<Longrightarrow> fold (\<lambda>x m. max m x) xs m < b" for b :: "'a::linorder"
  by (induction xs arbitrary: m) auto

lemma admitted_lamport:
  assumes "admitted env current tx inputs" and "\<forall>(i, v, d) \<in> set receiving. v < SEQUENCE_MAX"
  shows "lamport_timestamp inputs receiving \<noteq> None"
proof -
  let ?versions = "List.map_filter (\<lambda>(kind, ob). map_option mo_version (try_as_move (o_data ob))) inputs @
    map (\<lambda>(i, v, d). v) receiving"
  have move: "mo_version m < SEQUENCE_MAX" if "(k, ob) \<in> set inputs" "try_as_move (o_data ob) = Some m" for k ob m
    using admittedD(5) [OF assms(1) that(1)] that(2)
    by (cases k rule: kind_key.cases; cases "o_data ob") (auto simp: is_package_def object_version_def)
  then have "\<forall>x \<in> set ?versions. x < SEQUENCE_MAX"
    using assms(2) by (fastforce simp: List.map_filter_def)
  then have "fold (\<lambda>x m. max m x) ?versions 0 < SEQUENCE_MAX"
    by (rule fold_max_below) (simp add: SEQUENCE_MAX_def)
  then have "fold (\<lambda>x m. max m x) ?versions 0 \<noteq> - 1"
    by (metis not_less word_n1_ge)
  then show ?thesis by (simp add: lamport_timestamp_def lamport_increment_def rust_assert_def)
qed

lemma check_each_receiving_Inr:
  assumes "check_each_receiving env store epoch used receiving = Some (Inr ())"
  shows "(\<forall>(i, v, d) \<in> set receiving. v < SEQUENCE_MAX) \<and> distinct (map fst receiving) \<and>
    fst ` set receiving \<inter> set used = {}"
  using assms by (induction env store epoch used receiving rule: check_each_receiving.induct) auto

lemma admitted_mutable_inputs:
  assumes "admitted env current tx inputs"
  shows "\<exists>refs. mutable_inputs env inputs = Some refs \<and>
    (\<forall>r ob. (ImmOrOwnedMoveObject r, ob) \<in> set inputs \<longrightarrow> \<not> is_immutable (o_owner ob) \<longrightarrow>
       fst r \<in> dom (map_of refs))"
proof -
  have "mutable_input env (k, ob) \<noteq> None" if "(k, ob) \<in> set inputs" for k ob
    using admittedD(2) [OF assms that] by (cases k rule: kind_key.cases) (auto simp: compute_object_reference_def)
  then have "those (map (mutable_input env) inputs) \<noteq> None" unfolding those_Some_iff by force
  then obtain rs where rs: "map (mutable_input env) inputs = map Some rs"
    by (auto simp: those_eq_Some)
  then have refs: "mutable_inputs env inputs = Some (btree_collect (List.map_filter id rs))"
    unfolding mutable_inputs_def those_eq_Some [THEN iffD2, OF rs] by simp
  have "fst r \<in> dom (map_of (btree_collect (List.map_filter id rs)))"
    if "(ImmOrOwnedMoveObject r, ob) \<in> set inputs" "\<not> is_immutable (o_owner ob)" for r ob
  proof -
    obtain i v d where r: "r = (i, v, d)" by (cases r)
    have "Some (Some (i, (v, d), o_owner ob)) \<in> set (map (mutable_input env) inputs)"
      using that by (force simp: r)
    then have "Some (i, (v, d), o_owner ob) \<in> set rs" unfolding rs by auto
    then have "(i, (v, d), o_owner ob) \<in> set (List.map_filter id rs)"
      by (force simp: List.map_filter_def)
    then have "i \<in> fst ` set (rev (List.map_filter id rs))" by force
    then show ?thesis unfolding btree_collect_lookup by (simp add: r dom_map_of_conv_image_fst)
  qed
  with refs show ?thesis by blast
qed

lemma admitted_gas_inputs:
  assumes "admitted env current tx inputs" and "\<not> is_system_tx (td_kind tx)"
    and "\<forall>r \<in> set (td_gas tx). \<exists>ob. current (fst r) = Some ob \<and> \<not> is_immutable (o_owner ob)"
  shows "distinct (map fst (td_gas tx))"
    and "\<forall>r \<in> set (td_gas tx). \<exists>ob. (ImmOrOwnedMoveObject r, ob) \<in> set inputs"
proof -
  have "td_input_objects tx = Inr (map fst inputs)" using assms(1) by (simp add: admitted_def)
  with assms(2) obtain pre where "map fst inputs = pre @ map ImmOrOwnedMoveObject (td_gas tx)"
    by (auto simp: td_input_objects_def) metis
  then obtain ipre igas where inputs: "inputs = ipre @ igas" and igas: "map fst igas = map ImmOrOwnedMoveObject (td_gas tx)"
    by (auto simp: map_eq_append_conv)
  have "ImmOrOwnedMoveObject r \<in> fst ` set igas" if "r \<in> set (td_gas tx)" for r
    using that igas by (metis imageI list.set_map)
  then show "\<forall>r \<in> set (td_gas tx). \<exists>ob. (ImmOrOwnedMoveObject r, ob) \<in> set inputs"
    unfolding inputs by fastforce
  have "\<not> is_immutable (o_owner (snd e))" if "e \<in> set igas" for e
  proof -
    obtain k ob where e: "e = (k, ob)" by (cases e)
    then have "k \<in> set (map fst igas)" using that by force
    then obtain r where r: "k = ImmOrOwnedMoveObject r" "r \<in> set (td_gas tx)" unfolding igas by auto
    with admittedD(1) [OF assms(1), of k ob] that assms(3) show ?thesis
      unfolding inputs e by (cases r) fastforce
  qed
  then have "filter (\<lambda>e. \<not> is_immutable (o_owner (snd e))) igas = igas" by (simp add: filter_id_conv)
  then have "distinct (map (kind_object_id \<circ> fst) igas)"
    using assms(1) unfolding admitted_def inputs by simp
  moreover have "kind_object_id \<circ> ImmOrOwnedMoveObject = fst" by (auto simp: fun_eq_iff)
  ultimately show "distinct (map fst (td_gas tx))"
    by (metis igas map_map)
qed

lemma gas_objects_Inr:
  "gas_objects objects gas = Inr obs \<Longrightarrow> list_all2 (\<lambda>r ob. map_of objects (fst r) = Some ob) gas obs"
  by (induction objects gas arbitrary: obs rule: gas_objects.induct) (auto split: option.splits)

lemma check_gas_user:
  assumes "check_gas objects config rgp gas budget price kind = Some (Inr status)" and "\<not> is_system_tx kind"
  shows "\<exists>gobs vals. list_all2 (\<lambda>r ob. ob \<in> set objects \<and> object_id_of ob = Some (fst r)) gas gobs \<and>
      (\<forall>ob \<in> set gobs. is_address_owned (o_owner ob)) \<and>
      map get_gas_balance gobs = map (\<lambda>v. Some (Inr v)) vals \<and> unat budget \<le> sum_list (map unat vals)"
    and "sg_charge status" and "sg_storage_rebate status = 0" and "sg_storage_cost status = 0"
proof -
  from assms obtain ids gobs where
    new: "gas_new budget price rgp (protocol_config.truncate config) = Some (Inr status)"
    and ids: "those (map object_id_of objects) = Some ids"
    and gobs: "gas_objects (btree_collect (zip ids objects)) gas = Inr gobs"
    and bal: "check_gas_balance status gobs budget = Some (Inr ())"
    by (auto simp: check_gas_def bind_eq_Some_conv)
  from new show "sg_charge status" "sg_storage_rebate status = 0" "sg_storage_cost status = 0"
    by (auto simp: gas_new_def new_with_budget_def sui_gas_status_new_def bind_eq_Some_conv Let_def
        split: if_splits)
  have pair: "ob \<in> set objects \<and> object_id_of ob = Some i"
    if "map_of (btree_collect (zip ids objects)) i = Some ob" for i ob
  proof -
    have "(i, ob) \<in> set (rev (zip ids objects))"
      using that unfolding btree_collect_lookup by (rule map_of_SomeD)
    then obtain n where "n < length ids" "n < length objects" "ids ! n = i" "objects ! n = ob"
      by (auto simp: in_set_zip)
    moreover have "map object_id_of objects = map Some ids" using ids unfolding those_eq_Some .
    ultimately show ?thesis by (metis nth_map nth_mem)
  qed
  have "list_all2 (\<lambda>r ob. ob \<in> set objects \<and> object_id_of ob = Some (fst r)) gas gobs"
    by (rule list_all2_mono [OF gas_objects_Inr [OF gobs]]) (rule pair)
  with check_gas_balance_sound [OF bal]
  show "\<exists>gobs vals. list_all2 (\<lambda>r ob. ob \<in> set objects \<and> object_id_of ob = Some (fst r)) gas gobs \<and>
      (\<forall>ob \<in> set gobs. is_address_owned (o_owner ob)) \<and>
      map get_gas_balance gobs = map (\<lambda>v. Some (Inr v)) vals \<and> unat budget \<le> sum_list (map unat vals)"
    by blast
qed

lemma get_gas_balance_holds:
  "get_gas_balance ob = Some (Inr v) \<Longrightarrow> gas_coin_holds ob v"
  by (cases "o_data ob") (auto simp: get_gas_balance_def gas_coin_holds_def split: if_splits)

text \<open>Smashing the coins of a fresh charger succeeds when they are gas coins among the inputs.\<close>

lemma smash_gas_succeeds:
  assumes "coins_ok coins vals ts" and "store_inv ts" and "gc_gas_coins gc = coins" and "coins \<noteq> []"
    and "0 \<notin> fst ` set coins"
  shows "\<exists>ts'. smash_gas gc ts = Some (gc\<lparr>gc_smashed_gas_coin := Some (fst (hd coins))\<rparr>, ts') \<and>
    (ts_written ts = [] \<longrightarrow> tl coins \<noteq> [] \<longrightarrow> fst (hd coins) \<in> dom (map_of (ts_written ts'))) \<and>
    (tl coins = [] \<longrightarrow> ts' = ts)"
proof -
  obtain c v d others where coins: "coins = (c, v, d) # others" using assms(4) by (cases coins) auto
  have vals: "those (map (gas_coin_value ts) coins) = Some vals" using assms(1) by (simp add: coins_ok_def)
  then have "Some (hd vals) = gas_coin_value ts (c, v, d)" unfolding those_eq_Some coins by (cases vals) auto
  then have "gas_coin_value ts (c, v, d) = Some (hd vals)" by simp
  then obtain ob m where ob: "map_of (ts_input_objects ts) c = Some ob" "o_data ob = Move m"
    "get_coin_value_unsafe m = Some (hd vals)"
    unfolding gas_coin_value_holds gas_coin_holds_def by auto
  have len: "ID_END_INDEX \<le> length (mo_contents m)"
    using ob(3) by (auto simp: get_coin_value_unsafe_def bind_eq_Some_conv)
  then obtain m' where m': "set_coin_value_unsafe (sum_list vals) m = Some m'"
    by (simp add: set_coin_value_unsafe_def rust_assert_def)
  have "object_id_of ob = Some c" using ob(1) assms(2) by (simp add: store_inv_def filed_def)
  then have id: "object_id_of (ob\<lparr>o_data := Move m'\<rparr>) = Some c"
    using get_set_coin_value(2) [OF m'] ob(2) by (simp add: object_id_of_def)
  show ?thesis
  proof (cases "others = []")
    case True
    with coins assms(3,5) show ?thesis by (auto simp: smash_gas_def)
  next
    case False
    let ?del = "fold (\<lambda>r. delete_input_object (fst r)) others ts"
    have "mutate_input_object (ob\<lparr>o_data := Move m'\<rparr>) ?del =
        Some (put_object c (ob\<lparr>o_data := Move m'\<rparr>) ?del)"
      using id by (simp add: mutate_input_object_eq)
    moreover have "c \<in> dom (map_of (ts_written (put_object c (ob\<lparr>o_data := Move m'\<rparr>) ?del)))"
    proof -
      have "results_inv (ts_execution_results ?del)"
        using fold_delete_post [of others ts] assms(2) by (simp add: store_inv_def)
      from put_object_post(1) [OF this] show ?thesis by simp
    qed
    ultimately show ?thesis
      using coins False vals ob m' assms(3) by (simp add: smash_gas_def Let_def)
  qed
qed

lemma admitted_inputs_current:
  assumes "check_transaction_input ke store config rgp epoch tx sigs deny = Some (Inr (status, inputs))"
    and "\<not> is_system_tx (td_kind tx)" and "store_answers store (map fst inputs)"
  shows "admitted (ke_object_env ke) (\<lambda>i. case bs_get_object store i of Inr x \<Rightarrow> x | Inl e \<Rightarrow> None) tx inputs"
proof (rule check_transaction_input_admits [OF assms(1,2)])
  show "\<forall>kinds. td_input_objects tx = Inr kinds \<longrightarrow> store_answers store kinds"
  proof (rule check_transaction_input_stages [OF assms(1)])
    fix kinds objects
    assume "td_input_objects tx = Inr kinds" "inputs = zip kinds objects"
      "list_all2 (\<lambda>k ob. load_kind store k = Inr (Some ob)) kinds objects"
    then show ?thesis using assms(3) by (simp add: list_all2_lengthD)
  qed
qed

lemma admitted_coins_ok:
  assumes adm: "admitted env current tx inputs" and user: "\<not> is_system_tx (td_kind tx)"
    and gobs: "list_all2 (\<lambda>r ob. ob \<in> snd ` set inputs \<and> object_id_of ob = Some (fst r)) (td_gas tx) gobs"
    and owned: "\<forall>ob \<in> set gobs. is_address_owned (o_owner ob)"
    and vals: "map get_gas_balance gobs = map (\<lambda>v. Some (Inr v)) vals"
    and ts: "temporary_store_new env store inputs receiving tx_digest sc = Some ts"
  shows "coins_ok (td_gas tx) vals ts"
proof -
  have entry: "\<exists>k. (k, ob) \<in> set inputs \<and> kind_object_id k = i \<and> current i = Some ob"
    if "ob \<in> snd ` set inputs" "object_id_of ob = Some i" for i ob
    using that admittedD(1,2) [OF adm] by force
  have gas: "\<forall>r \<in> set (td_gas tx). \<exists>ob \<in> set gobs. ob \<in> snd ` set inputs \<and> object_id_of ob = Some (fst r)"
  proof
    fix r assume "r \<in> set (td_gas tx)"
    then obtain n where n: "n < length (td_gas tx)" "td_gas tx ! n = r" by (auto simp: in_set_conv_nth)
    then have "gobs ! n \<in> set gobs" using list_all2_lengthD [OF gobs] by simp
    with list_all2_nthD [OF gobs n(1)] n(2)
    show "\<exists>ob \<in> set gobs. ob \<in> snd ` set inputs \<and> object_id_of ob = Some (fst r)" by blast
  qed
  then have "\<forall>r \<in> set (td_gas tx). \<exists>ob. current (fst r) = Some ob \<and> \<not> is_immutable (o_owner ob)"
    using owned entry by (metis is_address_owned.simps(2,3,4) is_immutable.elims(2))
  note inp = admitted_gas_inputs [OF adm user this]
  from admitted_object_map [OF adm] admitted_mutable_inputs [OF adm] ts obtain m refs where
    m: "into_object_map inputs = Some m"
      "\<And>i ob. map_of m i = Some ob \<longleftrightarrow> (\<exists>k. (k, ob) \<in> set inputs \<and> kind_object_id k = i)"
    and refs: "mutable_inputs env inputs = Some refs"
      "\<And>r ob. (ImmOrOwnedMoveObject r, ob) \<in> set inputs \<Longrightarrow> \<not> is_immutable (o_owner ob) \<Longrightarrow>
         fst r \<in> dom (map_of refs)" by blast
  from ts m(1) refs(1) have flds: "ts_input_objects ts = m" "ts_mutable_input_refs ts = refs"
    by (auto simp: temporary_store_new_def bind_eq_Some_conv)
  have "fst r \<in> dom (map_of refs)" if "r \<in> set (td_gas tx)" for r
  proof -
    from inp(2) that obtain ob where ob: "(ImmOrOwnedMoveObject r, ob) \<in> set inputs" by blast
    then have "current (fst r) = Some ob" using admittedD(1) [OF adm ob] by (cases r) simp
    with \<open>\<forall>r \<in> set (td_gas tx). \<exists>ob. current (fst r) = Some ob \<and> \<not> is_immutable (o_owner ob)\<close> that
    have "\<not> is_immutable (o_owner ob)" by fastforce
    with refs(2) [OF ob] show ?thesis by blast
  qed
  moreover have "map (gas_coin_value ts) (td_gas tx) = map Some vals"
  proof (rule nth_equalityI)
    have len: "length gobs = length vals" using vals by (rule map_eq_imp_length_eq)
    then show "length (map (gas_coin_value ts) (td_gas tx)) = length (map Some vals)"
      using list_all2_lengthD [OF gobs] by simp
    fix n assume "n < length (map (gas_coin_value ts) (td_gas tx))"
    then have n: "n < length (td_gas tx)" "n < length gobs" "n < length vals"
      using list_all2_lengthD [OF gobs] len by auto
    from list_all2_nthD [OF gobs n(1)] entry obtain k where
      "(k, gobs ! n) \<in> set inputs" "kind_object_id k = fst (td_gas tx ! n)" by blast
    then have "map_of (ts_input_objects ts) (fst (td_gas tx ! n)) = Some (gobs ! n)" using m(2) flds by blast
    moreover have "get_gas_balance (gobs ! n) = Some (Inr (vals ! n))"
      using n vals by (metis nth_map)
    ultimately show "map (gas_coin_value ts) (td_gas tx) ! n = map Some vals ! n"
      using n get_gas_balance_holds gas_coin_value_holds by auto
  qed
  ultimately show ?thesis using inp(1) unfolding coins_ok_def flds those_eq_Some by auto
qed

lemma admitted_store_new:
  assumes "admitted env current tx inputs" and "\<forall>(i, v, d) \<in> set receiving. v < SEQUENCE_MAX"
  shows "\<exists>ts. temporary_store_new env store inputs receiving tx_digest sc = Some ts"
  using admitted_mutable_inputs [OF assms(1)] admitted_lamport [OF assms] admitted_object_map [OF assms(1)]
  by (auto simp: temporary_store_new_def)

lemma admitted_loaded: "admitted env current tx inputs \<Longrightarrow> inputs_loaded inputs"
  unfolding inputs_loaded_def using admittedD(2,5) by fastforce

lemma admitted_funds:
  assumes "check_transaction_input ke store config rgp epoch tx sigs deny = Some (Inr (status, inputs))"
    and "\<not> is_system_tx (td_kind tx)"
  shows "\<exists>gobs vals. list_all2 (\<lambda>r ob. ob \<in> snd ` set inputs \<and> object_id_of ob = Some (fst r)) (td_gas tx) gobs \<and>
      (\<forall>ob \<in> set gobs. is_address_owned (o_owner ob)) \<and>
      map get_gas_balance gobs = map (\<lambda>v. Some (Inr v)) vals \<and>
      unat (gd_budget (td_gas_data tx)) \<le> sum_list (map unat vals)"
    and "td_gas tx \<noteq> []"
    and "sg_charge status \<and> sg_storage_rebate status = 0 \<and> sg_storage_cost status = 0"
    and "\<forall>(i, v, d) \<in> set (kind_receiving_objects (td_kind tx)). v < SEQUENCE_MAX"
proof -
  let ?recv = "kind_receiving_objects (td_kind tx)"
  obtain kinds objects where "td_input_objects tx = Inr kinds" and gas: "td_gas tx \<noteq> []"
    and loaded: "list_all2 (\<lambda>k ob. load_kind store k = Inr (Some ob)) kinds objects"
    and status: "get_gas_status objects (td_gas tx) config rgp tx = Some (Inr status)"
    and "mutable_used_once [] objects = Some (Inr ())"
    and "check_each_object (ke_object_env ke) tx (zip kinds objects) = Some (Inr ())"
    and inputs: "inputs = zip kinds objects"
    and recv: "check_each_receiving (ke_object_env ke) store epoch (map (kind_object_id \<circ> fst) inputs) ?recv =
      Some (Inr ())"
    by (rule check_transaction_input_stages [OF assms(1)])
  have objects: "set objects = snd ` set inputs"
    using list_all2_lengthD [OF loaded] by (metis inputs list.set_map map_snd_zip)
  note user = check_gas_user [OF status [unfolded get_gas_status_def] assms(2), unfolded objects]
  show "\<exists>gobs vals. list_all2 (\<lambda>r ob. ob \<in> snd ` set inputs \<and> object_id_of ob = Some (fst r)) (td_gas tx) gobs \<and>
      (\<forall>ob \<in> set gobs. is_address_owned (o_owner ob)) \<and>
      map get_gas_balance gobs = map (\<lambda>v. Some (Inr v)) vals \<and>
      unat (gd_budget (td_gas_data tx)) \<le> sum_list (map unat vals)" by (rule user(1))
  show "td_gas tx \<noteq> []" by (rule gas)
  show "sg_charge status \<and> sg_storage_rebate status = 0 \<and> sg_storage_cost status = 0" using user(2-4) by simp
  show "\<forall>(i, v, d) \<in> set ?recv. v < SEQUENCE_MAX" by (rule check_each_receiving_Inr [OF recv, THEN conjunct1])
qed

text \<open>Smashing on the fresh store reaches a state of the relation \<^const>\<open>executed\<close>.\<close>

lemma smashed_executed:
  assumes "temporary_store_new env store inputs receiving tx_digest sc = Some ts" and "inputs_loaded inputs"
    and "coins_ok coins vals ts" and "coins \<noteq> []" and "0 \<notin> fst ` set coins"
    and "gc_gas_coins gc0 = coins" and "gc_smashed_gas_coin gc0 = None"
    and "sg_charge (gc_gas_status gc0) \<and> sg_storage_rebate (gc_gas_status gc0) = 0 \<and>
      sg_storage_cost (gc_gas_status gc0) = 0"
  shows "\<exists>gc ts'. smash_gas gc0 ts = Some (gc, ts') \<and> executed env inputs gc0 (fst (hd coins)) gc ts'"
proof -
  let ?gc = "gc0\<lparr>gc_smashed_gas_coin := Some (fst (hd coins))\<rparr>"
  have inv: "store_inv ts" by (rule temporary_store_new_inv [OF assms(1,2)])
  have clean: "ts_written ts = []" "ts_modified ts = []"
    using assms(1) by (auto simp: temporary_store_new_def results_default_def bind_eq_Some_conv)
  from smash_gas_succeeds [OF assms(3) inv assms(6,4,5)] clean(1) obtain ts' where
    smash: "smash_gas gc0 ts = Some (?gc, ts')"
    and written: "tl coins \<noteq> [] \<longrightarrow> fst (hd coins) \<in> dom (map_of (ts_written ts'))" "tl coins = [] \<longrightarrow> ts' = ts"
    by blast
  have "fst (hd coins) \<in> dom (map_of (ts_mutable_input_refs ts))"
    using assms(3,4) unfolding coins_ok_def by (meson hd_in_set imageI subsetD)
  moreover have "fst (hd coins) \<in> set (ts_modified ts') \<longrightarrow> fst (hd coins) \<in> dom (map_of (ts_written ts'))"
    using written clean by (cases "tl coins = []") auto
  ultimately have "executed env inputs gc0 (fst (hd coins)) ?gc ts'"
    unfolding executed_def using assms(1,2,7,8) smash run_refl [of env ts'] by fastforce
  with smash show ?thesis by blast
qed

text \<open>
  C5.  Progress of admitted transactions.  When the checks accept a user transaction and the store
  behaves as documented, execution can start: the temporary store is built (in particular no
  version overflows), the gas coins are distinct mutable inputs that together hold at least the
  budget, and smashing them succeeds.  The resulting state is one from which the
  theorems on gas charging and on failed transactions start.
\<close>

theorem admitted_transaction_can_start:
  assumes "check_transaction_input ke store config rgp epoch tx sigs deny = Some (Inr (status, inputs))"
    and "\<not> is_system_tx (td_kind tx)" and "store_answers store (map fst inputs)"
  shows "\<exists>ts vals gc ts'.
    temporary_store_new (ke_object_env ke) (backing_store.truncate store) inputs
      (kind_receiving_objects (td_kind tx)) tx_digest sc = Some ts \<and>
    coins_ok (td_gas tx) vals ts \<and> unat (gd_budget (td_gas_data tx)) \<le> sum_list (map unat vals) \<and>
    smash_gas (gas_charger_new tx_digest (td_gas tx) status (protocol_config.truncate config)) ts = Some (gc, ts') \<and>
    executed (ke_object_env ke) inputs
      (gas_charger_new tx_digest (td_gas tx) status (protocol_config.truncate config)) (fst (hd (td_gas tx))) gc ts'"
proof -
  note adm = admitted_inputs_current [OF assms]
  note funds = admitted_funds [OF assms(1,2)]
  from funds(1) obtain gobs vals where
    gobs: "list_all2 (\<lambda>r ob. ob \<in> snd ` set inputs \<and> object_id_of ob = Some (fst r)) (td_gas tx) gobs"
    and owned: "\<forall>ob \<in> set gobs. is_address_owned (o_owner ob)"
    and vals: "map get_gas_balance gobs = map (\<lambda>v. Some (Inr v)) vals"
    and budget: "unat (gd_budget (td_gas_data tx)) \<le> sum_list (map unat vals)" by blast
  from admitted_store_new [OF adm funds(4)] obtain ts where
    ts: "temporary_store_new (ke_object_env ke) (backing_store.truncate store) inputs
      (kind_receiving_objects (td_kind tx)) tx_digest sc = Some ts" by blast
  note coins = admitted_coins_ok [OF adm assms(2) gobs owned vals ts]
  have zero: "0 \<notin> fst ` set (td_gas tx)"
  proof
    assume "0 \<in> fst ` set (td_gas tx)"
    then have "None \<notin> set (map (gas_coin_value ts) (td_gas tx))" and "(0 :: object_id) \<in> fst ` set (td_gas tx)"
      using coins unfolding coins_ok_def those_eq_Some by auto
    then obtain ob where "map_of (ts_input_objects ts) 0 = Some ob"
      by (force simp: gas_coin_value_def)
    then show False
      using ts admitted_object_map [OF adm] admittedD(3) [OF adm]
      by (fastforce simp: temporary_store_new_def bind_eq_Some_conv)
  qed
  from smashed_executed [OF ts admitted_loaded [OF adm] coins funds(2) zero] funds(3)
  have "\<exists>gc ts'. smash_gas (gas_charger_new tx_digest (td_gas tx) status (protocol_config.truncate config)) ts =
      Some (gc, ts') \<and> executed (ke_object_env ke) inputs
        (gas_charger_new tx_digest (td_gas tx) status (protocol_config.truncate config)) (fst (hd (td_gas tx))) gc ts'"
    by (simp add: gas_charger_new_def)
  with ts coins budget show ?thesis by blast
qed

lemma authenticate_inputs_Some:
  assumes "\<forall>(i, ob) \<in> set m. i \<notin> set gas \<longrightarrow>
    o_owner ob = AddressOwner sender \<or> (\<exists>v. o_owner ob = Shared v) \<or> o_owner ob = Immutable"
  shows "\<exists>a. authenticate_inputs sender gas m acc = Some a"
  using assms
proof (induction sender gas m acc rule: authenticate_inputs.induct)
  case (2 sender gas i ob inputs authenticated)
  then show ?case by (cases "o_owner ob") (auto simp: rust_assert_def)
qed simp

text \<open>
  C6.  The ownership check after execution accepts the inputs of every admitted user
  transaction: no input but a gas coin belongs to an address other than the sender, and none to
  an object, so the assertions of the loop over the inputs hold.
\<close>

theorem admitted_inputs_are_authenticated:
  assumes "check_transaction_input ke store config rgp epoch tx sigs deny = Some (Inr (status, inputs))"
    and "\<not> is_system_tx (td_kind tx)" and "store_answers store (map fst inputs)"
    and "temporary_store_new (ke_object_env ke) bs inputs receiving tx_digest sc = Some ts"
  shows "\<exists>a. authenticate_inputs (td_sender tx) (map fst (td_gas tx)) (ts_input_objects ts) [] = Some a"
proof (rule authenticate_inputs_Some)
  note adm = admitted_inputs_current [OF assms(1-3)]
  from admitted_object_map [OF adm] assms(4) obtain m where
    ts: "ts_input_objects ts = m" "btree_inv m"
    and m: "\<And>i ob. map_of m i = Some ob \<longleftrightarrow> (\<exists>k. (k, ob) \<in> set inputs \<and> kind_object_id k = i)"
    by (auto simp: temporary_store_new_def into_object_map_def bind_eq_Some_conv)
  have "o_owner ob = AddressOwner (td_sender tx) \<or> (\<exists>v. o_owner ob = Shared v) \<or> o_owner ob = Immutable"
    if "(i, ob) \<in> set (ts_input_objects ts)" and gas: "i \<notin> set (map fst (td_gas tx))" for i ob
  proof -
    have "map_of m i = Some ob"
      using that(1) unfolding ts(1) by (simp add: map_of_eq_Some_iff [OF btree_inv_distinct [OF ts(2)]])
    then obtain k where k: "(k, ob) \<in> set inputs" "kind_object_id k = i" using m by blast
    have "payer tx i = td_sender tx" using gas by (auto simp: payer_def)
    with admittedD(4,5) [OF adm k(1)] k(2) show ?thesis
      by (cases k rule: kind_key.cases) auto
  qed
  then show "\<forall>(i, ob) \<in> set (ts_input_objects ts). i \<notin> set (map fst (td_gas tx)) \<longrightarrow>
    o_owner ob = AddressOwner (td_sender tx) \<or> (\<exists>v. o_owner ob = Shared v) \<or> o_owner ob = Immutable"
    by blast
qed

subsection \<open>A sample admission\<close>

text \<open>The sender 17 pays with the coin 8 and calls package 9 on the shared object 30.\<close>

definition admit_tx :: transaction_data where
  "admit_tx = new_with_gas_coins (ProgrammableTransaction
     \<lparr>pt_inputs = [ObjectCallArg (SharedObject 30 1 True)],
      pt_commands = [MoveCall \<lparr>pm_package = 9, pm_module = ''m'', pm_function = ''f'', pm_type_arguments = [],
        pm_arguments = [ArgInput 0]\<rparr>]\<rparr>) 17 [(8, 3, 9)] 5000000 1000"

definition admit_config :: tx_config where
  "admit_config = sample_tx_config\<lparr>tc_max_arguments := 8, tc_max_pure_argument_size := 8,
     tc_max_programmable_tx_commands := 8, tc_max_gas_payment_objects := 8, tc_max_input_objects := 8\<rparr>"

definition admit_package :: sui_object where
  "admit_package = \<lparr>o_data = Package \<lparr>mp_id = 9, mp_version = 1, mp_module_map = [], mp_type_origin_table = [],
     mp_linkage_table = []\<rparr>, o_owner = Immutable, o_previous_transaction = 0, o_storage_rebate = 0\<rparr>"

definition admit_object :: "object_id \<Rightarrow> sui_object option" where
  "admit_object i = (if i = 8 then Some (gas_coin_object 8 9000000 0) else if i = 9 then Some admit_package
     else if i = 30 then Some (owned_object 30 (Shared 1)) else None)"

definition admit_store :: checked_store where
  "admit_store = \<lparr>bs_get_object = (\<lambda>i. Inr (admit_object i)), bs_get_object_by_key = (\<lambda>i v. Inr (admit_object i)),
     bs_read_child_object = (\<lambda>p i v. Inr None), bs_get_package_object = (\<lambda>i. Inr (admit_object i)),
     cs_have_received = (\<lambda>i v e. Inr False)\<rparr>"

definition admit_env :: "unit check_env" where
  "admit_env = \<lparr>ke_object_env = sample_env\<lparr>object_digest := (\<lambda>ob. 9)\<rparr>, ke_meter = (\<lambda>v p. Some v), ke_verifier = (),
     ke_provider_of = (\<lambda>n. None)\<rparr>"

definition admit_deny :: transaction_deny_config where
  "admit_deny = \<lparr>dc_object_deny_list = [], dc_package_deny_list = [10], dc_address_deny_list = [],
     dc_package_publish_disabled = True, dc_package_upgrade_disabled = True, dc_shared_object_disabled = False,
     dc_user_transaction_disabled = False, dc_receiving_objects_disabled = False, dc_zklogin_sig_disabled = False,
     dc_zklogin_disabled_providers = []\<rparr>"

definition admit_inputs :: input_objects where
  "admit_inputs = [(SharedMoveObject 30 1 True, owned_object 30 (Shared 1)), (MovePackageKind 9, admit_package),
     (ImmOrOwnedMoveObject (8, 3, 9), gas_coin_object 8 9000000 0)]"

lemma admit_checked:
  "map_option (map_sum id snd)
     (check_transaction_input admit_env admit_store admit_config 1000 0 admit_tx [GsSignature 17] admit_deny) =
   Some (Inr admit_inputs)"
  by code_simp

lemma admit_checked_status:
  "\<exists>status. check_transaction_input admit_env admit_store admit_config 1000 0 admit_tx [GsSignature 17] admit_deny =
     Some (Inr (status, admit_inputs))"
proof -
  obtain r where r: "check_transaction_input admit_env admit_store admit_config 1000 0 admit_tx [GsSignature 17]
      admit_deny = Some r" "map_sum id snd r = Inr admit_inputs"
    using admit_checked by auto
  then show ?thesis by (cases r) auto
qed

lemma admit_user: "\<not> is_system_tx (td_kind admit_tx)"
  by code_simp

lemma admit_answers: "store_answers admit_store (map fst admit_inputs)"
proof -
  have "object_id_of (gas_coin_object 8 9000000 0) = Some 8" "object_id_of admit_package = Some 9"
    "object_id_of (owned_object 30 (Shared 1)) = Some 30" by code_simp+
  moreover have "\<not> is_package (gas_coin_object 8 9000000 0)" "\<not> is_package (owned_object 30 (Shared 1))"
    "o_owner admit_package = Immutable" by code_simp+
  ultimately show ?thesis
    by (auto simp: store_answers_def admit_store_def admit_object_def split: if_splits)
qed

theorem admitted_transaction_can_start_witness:
  "\<exists>ts vals. temporary_store_new (ke_object_env admit_env) (backing_store.truncate admit_store) admit_inputs
      (kind_receiving_objects (td_kind admit_tx)) 42 sample_store_config = Some ts \<and>
    coins_ok (td_gas admit_tx) vals ts \<and> unat (gd_budget (td_gas_data admit_tx)) \<le> sum_list (map unat vals)"
proof -
  obtain status where "check_transaction_input admit_env admit_store admit_config 1000 0 admit_tx [GsSignature 17]
      admit_deny = Some (Inr (status, admit_inputs))" using admit_checked_status by blast
  from admitted_transaction_can_start [OF this admit_user admit_answers, of 42 sample_store_config]
  show ?thesis by blast
qed

theorem admitted_inputs_are_authenticated_witness:
  "\<exists>ts a. temporary_store_new (ke_object_env admit_env) empty_backing admit_inputs [] 42 sample_store_config = Some ts \<and>
    authenticate_inputs (td_sender admit_tx) (map fst (td_gas admit_tx)) (ts_input_objects ts) [] = Some a"
proof -
  obtain status where c: "check_transaction_input admit_env admit_store admit_config 1000 0 admit_tx [GsSignature 17]
      admit_deny = Some (Inr (status, admit_inputs))" using admit_checked_status by blast
  have "\<not> Option.is_none (temporary_store_new (ke_object_env admit_env) empty_backing admit_inputs [] 42
      sample_store_config)" by code_simp
  then obtain ts where ts: "temporary_store_new (ke_object_env admit_env) empty_backing admit_inputs [] 42
      sample_store_config = Some ts" by (auto simp: Option.is_none_def)
  from admitted_inputs_are_authenticated [OF c admit_user admit_answers ts] ts show ?thesis by blast
qed

end
