(* ===== verification/Transaction_Builder.thy ===== *)
theory Transaction_Builder
  imports Transaction_Data "HOL-Library.Multiset"
begin

section \<open>Building programmable transactions\<close>

text \<open>
  Models \<open>src/crates/sui-types/src/programmable_transaction_builder.rs\<close>.  The \<open>IndexMap\<close> of the
  inputs is an association list in insertion order without repeated keys: \<open>insert_full\<close> replaces the
  value of a present key in place or appends, and returns the position.  Positions are cast to
  16 bits.  The encoding of addresses and amounts (the crate \<open>bcs\<close>) is the parameter \<open>bcs\<close>.
\<close>

subsection \<open>Insertion-ordered maps\<close>

type_synonym ('k, 'v) index_map = "('k \<times> 'v) list"

fun insert_full :: "'k \<Rightarrow> 'v \<Rightarrow> ('k, 'v) index_map \<Rightarrow> nat \<times> ('k, 'v) index_map" where
  "insert_full k v [] = (0, [(k, v)])"
| "insert_full k v ((k', v') # m) =
     (if k = k' then (0, (k, v) # m)
      else let (i, m') = insert_full k v m in (Suc i, (k', v') # m'))"

subsection \<open>The builder\<close>

datatype builder_arg = BaObject object_id | BaPure "u8 list" | BaForcedNonUniquePure nat

record pt_builder =
  tb_inputs :: "(builder_arg, call_arg) index_map"
  tb_commands :: "command list"

datatype builder_error =
    PureArgumentForObject object_id
  | IdDoesNotMatch object_id
  | MismatchedObjectArgument object_id
  | RecipientsAmountsMismatch nat nat
  | CoinsEmpty

record bcs_env =
  bcs_address :: "sui_address \<Rightarrow> u8 list"
  bcs_u64 :: "u64 \<Rightarrow> u8 list"

definition builder_new :: pt_builder where
  "builder_new = \<lparr>tb_inputs = [], tb_commands = []\<rparr>"

definition builder_finish :: "pt_builder \<Rightarrow> programmable_transaction" where
  "builder_finish b = \<lparr>pt_inputs = map snd (tb_inputs b), pt_commands = tb_commands b\<rparr>"

definition pure_bytes :: "u8 list \<Rightarrow> bool \<Rightarrow> pt_builder \<Rightarrow> argument \<times> pt_builder" where
  "pure_bytes bytes force_separate b =
     (let arg = (if force_separate then BaForcedNonUniquePure (length (tb_inputs b)) else BaPure bytes);
          (i, inputs) = insert_full arg (PureArg bytes) (tb_inputs b)
      in (ArgInput (of_nat i), b\<lparr>tb_inputs := inputs\<rparr>))"

text \<open>The object argument to store: a repeated shared object is mutable when one of the uses is.\<close>

definition merge_object_arg :: "call_arg option \<Rightarrow> object_arg \<Rightarrow> builder_error + object_arg" where
  "merge_object_arg old_value obj_arg =
     (let i = object_arg_id obj_arg in
     case old_value of
       None \<Rightarrow> Inr obj_arg
     | Some (PureArg p) \<Rightarrow> Inl (PureArgumentForObject i)
     | Some (ObjectCallArg old_obj_arg) \<Rightarrow>
         (case (old_obj_arg, obj_arg) of
            (SharedObject id1 v1 mut1, SharedObject id2 v2 mut2) \<Rightarrow>
              if v1 = v2 then
                result_then (fp_ensure (id1 = id2 \<and> i = id2) (IdDoesNotMatch i)) (\<lambda>_.
                Inr (SharedObject i v2 (mut1 \<or> mut2)))
              else result_then (fp_ensure (old_obj_arg = obj_arg) (MismatchedObjectArgument i)) (\<lambda>_. Inr obj_arg)
          | _ \<Rightarrow> result_then (fp_ensure (old_obj_arg = obj_arg) (MismatchedObjectArgument i)) (\<lambda>_. Inr obj_arg)))"

definition builder_obj :: "object_arg \<Rightarrow> pt_builder \<Rightarrow> (builder_error + argument) \<times> pt_builder" where
  "builder_obj obj_arg b =
     (let i = object_arg_id obj_arg in
     case merge_object_arg (map_of (tb_inputs b) (BaObject i)) obj_arg of
       Inl e \<Rightarrow> (Inl e, b)
     | Inr obj_arg \<Rightarrow>
         (let (n, inputs) = insert_full (BaObject i) (ObjectCallArg obj_arg) (tb_inputs b)
          in (Inr (ArgInput (of_nat n)), b\<lparr>tb_inputs := inputs\<rparr>)))"

fun builder_input :: "call_arg \<Rightarrow> pt_builder \<Rightarrow> (builder_error + argument) \<times> pt_builder" where
  "builder_input (PureArg bytes) b = (let (a, b) = pure_bytes bytes False b in (Inr a, b))"
| "builder_input (ObjectCallArg ob) b = builder_obj ob b"

text \<open>\<open>map(|a| self.input(a)).collect::<Result<_, _>>()\<close>: stops at the first error, keeping the inputs added before.\<close>

fun collect_args ::
  "('a \<Rightarrow> pt_builder \<Rightarrow> (builder_error + argument) \<times> pt_builder) \<Rightarrow> 'a list \<Rightarrow> pt_builder \<Rightarrow>
     (builder_error + argument list) \<times> pt_builder" where
  "collect_args f [] b = (Inr [], b)"
| "collect_args f (x # xs) b =
     (case f x b of
        (Inl e, b) \<Rightarrow> (Inl e, b)
      | (Inr a, b) \<Rightarrow>
          (case collect_args f xs b of
             (Inl e, b) \<Rightarrow> (Inl e, b)
           | (Inr args, b) \<Rightarrow> (Inr (a # args), b)))"

definition builder_command :: "command \<Rightarrow> pt_builder \<Rightarrow> argument \<times> pt_builder" where
  "builder_command c b =
     (let i = length (tb_commands b) in (ArgResult (of_nat i), b\<lparr>tb_commands := tb_commands b @ [c]\<rparr>))"

definition make_obj_vec :: "object_arg list \<Rightarrow> pt_builder \<Rightarrow> (builder_error + argument) \<times> pt_builder" where
  "make_obj_vec objs b =
     (case collect_args builder_obj objs b of
        (Inl e, b) \<Rightarrow> (Inl e, b)
      | (Inr args, b) \<Rightarrow> (let (a, b) = builder_command (MakeMoveVec None args) b in (Inr a, b)))"

definition builder_move_call ::
  "object_id \<Rightarrow> string \<Rightarrow> string \<Rightarrow> type_tag list \<Rightarrow> call_arg list \<Rightarrow> pt_builder \<Rightarrow>
     (builder_error + unit) \<times> pt_builder" where
  "builder_move_call package module function type_arguments call_args b =
     (case collect_args builder_input call_args b of
        (Inl e, b) \<Rightarrow> (Inl e, b)
      | (Inr arguments, b) \<Rightarrow>
          (Inr (), snd (builder_command (MoveCall \<lparr>pm_package = package, pm_module = module,
             pm_function = function, pm_type_arguments = type_arguments, pm_arguments = arguments\<rparr>) b)))"

definition builder_programmable_move_call ::
  "object_id \<Rightarrow> string \<Rightarrow> string \<Rightarrow> type_tag list \<Rightarrow> argument list \<Rightarrow> pt_builder \<Rightarrow> argument \<times> pt_builder" where
  "builder_programmable_move_call package module function type_arguments arguments =
     builder_command (MoveCall \<lparr>pm_package = package, pm_module = module, pm_function = function,
       pm_type_arguments = type_arguments, pm_arguments = arguments\<rparr>)"

definition publish_upgradeable :: "u8 list list \<Rightarrow> object_id list \<Rightarrow> pt_builder \<Rightarrow> argument \<times> pt_builder" where
  "publish_upgradeable modules dep_ids = builder_command (Publish modules dep_ids)"

definition publish_immutable :: "u8 list list \<Rightarrow> object_id list \<Rightarrow> pt_builder \<Rightarrow> pt_builder" where
  "publish_immutable modules dep_ids b =
     (let (cap, b) = publish_upgradeable modules dep_ids b
      in snd (builder_programmable_move_call SUI_FRAMEWORK_ADDRESS ''package'' ''make_immutable'' [] [cap] b))"

definition builder_upgrade ::
  "object_id \<Rightarrow> argument \<Rightarrow> object_id list \<Rightarrow> u8 list list \<Rightarrow> pt_builder \<Rightarrow> argument \<times> pt_builder" where
  "builder_upgrade current_package_object_id upgrade_ticket transitive_deps modules =
     builder_command (Upgrade modules transitive_deps current_package_object_id upgrade_ticket)"

definition transfer_args :: "bcs_env \<Rightarrow> sui_address \<Rightarrow> argument list \<Rightarrow> pt_builder \<Rightarrow> pt_builder" where
  "transfer_args bcs recipient args b =
     (let (rec_arg, b) = pure_bytes (bcs_address bcs recipient) False b
      in snd (builder_command (TransferObjects args rec_arg) b))"

definition transfer_object ::
  "bcs_env \<Rightarrow> sui_address \<Rightarrow> object_ref \<Rightarrow> pt_builder \<Rightarrow> (builder_error + unit) \<times> pt_builder" where
  "transfer_object bcs recipient object_ref b =
     (let (rec_arg, b) = pure_bytes (bcs_address bcs recipient) False b
      in case builder_obj (ImmOrOwnedObject object_ref) b of
           (Inl e, b) \<Rightarrow> (Inl e, b)
         | (Inr obj_arg, b) \<Rightarrow> (Inr (), snd (builder_command (TransferObjects [obj_arg] rec_arg) b)))"

definition transfer_sui :: "bcs_env \<Rightarrow> sui_address \<Rightarrow> u64 option \<Rightarrow> pt_builder \<Rightarrow> pt_builder" where
  "transfer_sui bcs recipient amount b =
     (let (rec_arg, b) = pure_bytes (bcs_address bcs recipient) False b;
          (coin_arg, b) = (case amount of
              Some amount \<Rightarrow>
                (let (amt_arg, b) = pure_bytes (bcs_u64 bcs amount) False b
                 in builder_command (SplitCoins ArgGasCoin [amt_arg]) b)
            | None \<Rightarrow> (ArgGasCoin, b))
      in snd (builder_command (TransferObjects [coin_arg] rec_arg) b))"

definition pay_all_sui :: "bcs_env \<Rightarrow> sui_address \<Rightarrow> pt_builder \<Rightarrow> pt_builder" where
  "pay_all_sui bcs recipient = transfer_args bcs recipient [ArgGasCoin]"

subsection \<open>Paying\<close>

text \<open>\<open>entry(recipient).or_default().push(i)\<close>.\<close>

fun entry_push :: "'k \<Rightarrow> 'a \<Rightarrow> ('k, 'a list) index_map \<Rightarrow> ('k, 'a list) index_map" where
  "entry_push k x [] = [(k, [x])]"
| "entry_push k x ((k', xs) # m) = (if k = k' then (k', xs @ [x]) # m else (k', xs) # entry_push k x m)"

fun collect_payments ::
  "bcs_env \<Rightarrow> nat \<Rightarrow> (sui_address \<times> u64) list \<Rightarrow> (sui_address, nat list) index_map \<Rightarrow> argument list \<Rightarrow>
     pt_builder \<Rightarrow> (sui_address, nat list) index_map \<times> argument list \<times> pt_builder" where
  "collect_payments bcs i [] recipient_map amt_args b = (recipient_map, amt_args, b)"
| "collect_payments bcs i ((recipient, amount) # rest) recipient_map amt_args b =
     (let (amt_arg, b) = pure_bytes (bcs_u64 bcs amount) False b
      in collect_payments bcs (i + 1) rest (entry_push recipient i recipient_map) (amt_args @ [amt_arg]) b)"

fun transfer_all :: "bcs_env \<Rightarrow> u16 \<Rightarrow> (sui_address, nat list) index_map \<Rightarrow> pt_builder \<Rightarrow> pt_builder" where
  "transfer_all bcs split_primary [] b = b"
| "transfer_all bcs split_primary ((recipient, split_secondaries) # rest) b =
     transfer_all bcs split_primary rest
       (transfer_args bcs recipient (map (\<lambda>j. ArgNestedResult split_primary (of_nat j)) split_secondaries) b)"

definition pay_impl ::
  "bcs_env \<Rightarrow> sui_address list \<Rightarrow> u64 list \<Rightarrow> argument \<Rightarrow> pt_builder \<Rightarrow> (builder_error + unit) \<times> pt_builder" where
  "pay_impl bcs recipients amounts coin b =
     (if length recipients \<noteq> length amounts
      then (Inl (RecipientsAmountsMismatch (length recipients) (length amounts)), b)
      else if amounts = [] then (Inr (), b)
      else
        let (recipient_map, amt_args, b) = collect_payments bcs 0 (zip recipients amounts) [] [] b;
            split_primary = of_nat (length (tb_commands b));
            b = snd (builder_command (SplitCoins coin amt_args) b)
        in (Inr (), transfer_all bcs split_primary recipient_map b))"

definition pay_sui ::
  "bcs_env \<Rightarrow> sui_address list \<Rightarrow> u64 list \<Rightarrow> pt_builder \<Rightarrow> (builder_error + unit) \<times> pt_builder" where
  "pay_sui bcs recipients amounts = pay_impl bcs recipients amounts ArgGasCoin"

definition pay ::
  "bcs_env \<Rightarrow> object_ref list \<Rightarrow> sui_address list \<Rightarrow> u64 list \<Rightarrow> pt_builder \<Rightarrow>
     (builder_error + unit) \<times> pt_builder" where
  "pay bcs coins recipients amounts b =
     (case coins of
        [] \<Rightarrow> (Inl CoinsEmpty, b)
      | coin # coins \<Rightarrow>
          (case builder_obj (ImmOrOwnedObject coin) b of
             (Inl e, b) \<Rightarrow> (Inl e, b)
           | (Inr coin_arg, b) \<Rightarrow>
               (case collect_args (\<lambda>c. builder_obj (ImmOrOwnedObject c)) coins b of
                  (Inl e, b) \<Rightarrow> (Inl e, b)
                | (Inr merge_args, b) \<Rightarrow>
                    pay_impl bcs recipients amounts coin_arg
                      (if merge_args \<noteq> [] then snd (builder_command (MergeCoins coin_arg merge_args) b) else b))))"

subsection \<open>The invariant of the builder\<close>

fun key_matches :: "builder_arg \<Rightarrow> call_arg \<Rightarrow> bool" where
  "key_matches (BaObject i) (ObjectCallArg ob) \<longleftrightarrow> object_arg_id ob = i"
| "key_matches (BaPure bytes) (PureArg p) \<longleftrightarrow> p = bytes"
| "key_matches (BaForcedNonUniquePure n) (PureArg p) \<longleftrightarrow> True"
| "key_matches _ _ \<longleftrightarrow> False"

text \<open>An argument of the command at position \<open>n\<close>: an input that exists, or the result of an earlier command.\<close>

fun arg_in_scope :: "nat \<Rightarrow> nat \<Rightarrow> argument \<Rightarrow> bool" where
  "arg_in_scope inputs n ArgGasCoin \<longleftrightarrow> True"
| "arg_in_scope inputs n (ArgInput i) \<longleftrightarrow> unat i < inputs"
| "arg_in_scope inputs n (ArgResult i) \<longleftrightarrow> unat i < n"
| "arg_in_scope inputs n (ArgNestedResult i j) \<longleftrightarrow> unat i < n"

fun command_args :: "command \<Rightarrow> argument list" where
  "command_args (MoveCall c) = pm_arguments c"
| "command_args (TransferObjects args a) = a # args"
| "command_args (SplitCoins a args) = a # args"
| "command_args (MergeCoins a args) = a # args"
| "command_args (Publish modules deps) = []"
| "command_args (MakeMoveVec t args) = args"
| "command_args (Upgrade modules deps i ticket) = [ticket]"

definition builder_inv :: "pt_builder \<Rightarrow> bool" where
  "builder_inv b \<longleftrightarrow> distinct (map fst (tb_inputs b)) \<and> (\<forall>(k, a) \<in> set (tb_inputs b). key_matches k a) \<and>
     (\<forall>n < length (tb_commands b). \<forall>a \<in> set (command_args (tb_commands b ! n)).
        arg_in_scope (length (tb_inputs b)) n a)"

definition small :: "pt_builder \<Rightarrow> bool" where
  "small b \<longleftrightarrow> length (tb_inputs b) \<le> 2 ^ 16 \<and> length (tb_commands b) \<le> 2 ^ 16"

text \<open>What an operation may do to a builder: inputs keep their positions, commands are appended.\<close>

definition extends :: "pt_builder \<Rightarrow> pt_builder \<Rightarrow> bool" where
  "extends b b' \<longleftrightarrow> (\<exists>ks cs. map fst (tb_inputs b') = map fst (tb_inputs b) @ ks \<and>
     tb_commands b' = tb_commands b @ cs)"

subsection \<open>Insertion\<close>

lemma insert_full_props:
  assumes "insert_full k v m = (i, m')"
  shows "i < length m'" and "m' ! i = (k, v)"
    and "map fst m' = (if k \<in> fst ` set m then map fst m else map fst m @ [k])"
    and "set m' \<subseteq> insert (k, v) (set m)"
proof -
  have "i < length m' \<and> m' ! i = (k, v) \<and>
      map fst m' = (if k \<in> fst ` set m then map fst m else map fst m @ [k]) \<and> set m' \<subseteq> insert (k, v) (set m)"
    using assms
  proof (induction k v m arbitrary: i m' rule: insert_full.induct)
    case (2 k v k' v' m)
    show ?case
    proof (cases "k = k'")
      case False
      obtain j m2 where r: "insert_full k v m = (j, m2)" by fastforce
      with 2(2) False have "i = Suc j" "m' = (k', v') # m2" by simp_all
      with 2(1) [OF False r] False show ?thesis by auto
    qed (use 2(2) in auto)
  qed auto
  then show "i < length m'" "m' ! i = (k, v)"
    "map fst m' = (if k \<in> fst ` set m then map fst m else map fst m @ [k])" "set m' \<subseteq> insert (k, v) (set m)"
    by simp_all
qed

text \<open>What every operation keeps, and what is known of the arguments it returns.\<close>

definition keeps :: "pt_builder \<Rightarrow> pt_builder \<Rightarrow> bool" where
  "keeps b b' \<longleftrightarrow> extends b b' \<and> (builder_inv b \<longrightarrow> small b' \<longrightarrow> builder_inv b')"

definition arg_ok :: "pt_builder \<Rightarrow> argument \<Rightarrow> bool" where
  "arg_ok b a \<longleftrightarrow> arg_in_scope (length (tb_inputs b)) (length (tb_commands b)) a"

lemma extends_lengths:
  assumes "extends b b'"
  shows "length (tb_inputs b) \<le> length (tb_inputs b')" and "length (tb_commands b) \<le> length (tb_commands b')"
proof -
  from assms obtain ks cs where "map fst (tb_inputs b') = map fst (tb_inputs b) @ ks"
    "tb_commands b' = tb_commands b @ cs" by (auto simp: extends_def)
  from arg_cong [OF this(1), of length] this(2)
  show "length (tb_inputs b) \<le> length (tb_inputs b')" "length (tb_commands b) \<le> length (tb_commands b')"
    by simp_all
qed

lemma extends_refl [simp]: "extends b b"
  by (simp add: extends_def)

lemma extends_trans: "extends b b' \<Longrightarrow> extends b' b'' \<Longrightarrow> extends b b''"
  by (auto simp: extends_def)

lemma extends_small: "extends b b' \<Longrightarrow> small b' \<Longrightarrow> small b"
  using extends_lengths [of b b'] by (auto simp: small_def)

lemma keeps_refl [simp]: "keeps b b"
  by (simp add: keeps_def)

lemma keeps_trans: "keeps b b' \<Longrightarrow> keeps b' b'' \<Longrightarrow> keeps b b''"
  by (auto simp: keeps_def intro: extends_trans extends_small)

lemma keeps_small: "keeps b b' \<Longrightarrow> small b' \<Longrightarrow> small b"
  by (auto simp: keeps_def intro: extends_small)

lemma arg_in_scope_mono:
  "arg_in_scope i n a \<Longrightarrow> i \<le> i' \<Longrightarrow> n \<le> n' \<Longrightarrow> arg_in_scope i' n' a"
  by (cases a) auto

lemma arg_ok_keeps: "arg_ok b a \<Longrightarrow> keeps b b' \<Longrightarrow> arg_ok b' a"
  using extends_lengths [of b b'] by (auto simp: arg_ok_def keeps_def intro: arg_in_scope_mono)

lemma insert_input_keeps:
  assumes "insert_full k v (tb_inputs b) = (i, inputs)" and "key_matches k v"
  shows "keeps b (b\<lparr>tb_inputs := inputs\<rparr>)"
    and "small (b\<lparr>tb_inputs := inputs\<rparr>) \<Longrightarrow>
      unat (of_nat i :: u16) = i \<and> arg_ok (b\<lparr>tb_inputs := inputs\<rparr>) (ArgInput (of_nat i))"
proof -
  note ins = insert_full_props [OF assms(1)]
  have ext: "extends b (b\<lparr>tb_inputs := inputs\<rparr>)" using ins(3) by (auto simp: extends_def)
  have "builder_inv (b\<lparr>tb_inputs := inputs\<rparr>)" if "builder_inv b"
  proof -
    from that have "distinct (map fst inputs)" unfolding ins(3) by (auto simp: builder_inv_def)
    moreover have "\<forall>(k', a) \<in> set inputs. key_matches k' a"
      using that ins(4) assms(2) by (fastforce simp: builder_inv_def)
    moreover have "arg_in_scope (length inputs) n a"
      if "n < length (tb_commands b)" "a \<in> set (command_args (tb_commands b ! n))" for n a
      using \<open>builder_inv b\<close> that extends_lengths(1) [OF ext] by (auto simp: builder_inv_def intro: arg_in_scope_mono)
    ultimately show ?thesis by (simp add: builder_inv_def)
  qed
  with ext show "keeps b (b\<lparr>tb_inputs := inputs\<rparr>)" by (simp add: keeps_def)
  assume "small (b\<lparr>tb_inputs := inputs\<rparr>)"
  then have "i < 2 ^ 16" using ins(1) by (simp add: small_def)
  then show "unat (of_nat i :: u16) = i \<and> arg_ok (b\<lparr>tb_inputs := inputs\<rparr>) (ArgInput (of_nat i))"
    using ins(1) by (simp add: unat_of_nat arg_ok_def)
qed

lemma pure_bytes_keeps:
  assumes "pure_bytes p force b = (a, b')"
  shows "keeps b b'" and "small b' \<Longrightarrow> arg_ok b' a" and "tb_commands b' = tb_commands b"
    and "\<not> force \<Longrightarrow> small b' \<Longrightarrow>
      \<exists>n. a = ArgInput n \<and> unat n < length (tb_inputs b') \<and> fst (tb_inputs b' ! unat n) = BaPure p"
proof -
  let ?k = "if force then BaForcedNonUniquePure (length (tb_inputs b)) else BaPure p"
  obtain i inputs where ins: "insert_full ?k (PureArg p) (tb_inputs b) = (i, inputs)" by fastforce
  with assms have r: "a = ArgInput (of_nat i)" "b' = b\<lparr>tb_inputs := inputs\<rparr>"
    by (simp_all add: pure_bytes_def Let_def split: if_splits)
  have "key_matches ?k (PureArg p)" by simp
  note kept = insert_input_keeps [OF ins this, folded r(2)]
  show "keeps b b'" by (rule kept(1))
  show "arg_ok b' a" if "small b'" using kept(2) [OF that] r(1) by simp
  show "tb_commands b' = tb_commands b" by (simp add: r)
  show "\<exists>n. a = ArgInput n \<and> unat n < length (tb_inputs b') \<and> fst (tb_inputs b' ! unat n) = BaPure p"
    if "\<not> force" "small b'"
    using kept(2) [OF that(2)] insert_full_props(1,2) [OF ins] that(1) r by auto
qed

lemma merge_object_arg_id:
  "merge_object_arg old ob = Inr ob' \<Longrightarrow> object_arg_id ob' = object_arg_id ob"
  by (auto simp: merge_object_arg_def Let_def split: option.splits call_arg.splits object_arg.splits if_splits)

lemma builder_obj_keeps:
  assumes "builder_obj ob b = (r, b')"
  shows "keeps b b'" and "r = Inr a \<Longrightarrow> small b' \<Longrightarrow> arg_ok b' a"
proof -
  have "keeps b b' \<and> (\<forall>a. r = Inr a \<longrightarrow> small b' \<longrightarrow> arg_ok b' a)"
  proof (cases "merge_object_arg (map_of (tb_inputs b) (BaObject (object_arg_id ob))) ob")
    case (Inl e)
    with assms show ?thesis by (auto simp: builder_obj_def)
  next
    case (Inr ob')
    obtain i inputs where ins: "insert_full (BaObject (object_arg_id ob)) (ObjectCallArg ob') (tb_inputs b) = (i, inputs)"
      by fastforce
    with Inr assms have r: "r = Inr (ArgInput (of_nat i))" "b' = b\<lparr>tb_inputs := inputs\<rparr>"
      by (auto simp: builder_obj_def)
    have "key_matches (BaObject (object_arg_id ob)) (ObjectCallArg ob')"
      using merge_object_arg_id [OF Inr] by simp
    from insert_input_keeps [OF ins this, folded r(2)] r(1) show ?thesis by auto
  qed
  then show "keeps b b'" "r = Inr a \<Longrightarrow> small b' \<Longrightarrow> arg_ok b' a" by simp_all
qed

lemma builder_input_keeps:
  assumes "builder_input arg b = (r, b')"
  shows "keeps b b'" and "r = Inr a \<Longrightarrow> small b' \<Longrightarrow> arg_ok b' a"
  using assms pure_bytes_keeps(1,2) builder_obj_keeps
  by (cases arg; auto split: prod.splits)+

subsection \<open>Commands\<close>

lemma builder_command_keeps:
  assumes "builder_command c b = (a, b')" and "small b \<Longrightarrow> \<forall>x \<in> set (command_args c). arg_ok b x"
  shows "keeps b b'" and "small b' \<Longrightarrow> arg_ok b' a"
proof -
  from assms(1) have r: "a = ArgResult (of_nat (length (tb_commands b)))" "b' = b\<lparr>tb_commands := tb_commands b @ [c]\<rparr>"
    by (simp_all add: builder_command_def)
  have ext: "extends b b'" by (simp add: r extends_def)
  have "builder_inv b'" if "builder_inv b" "small b'"
  proof -
    have "\<forall>x \<in> set (command_args c). arg_ok b x" using assms(2) extends_small [OF ext that(2)] by blast
    with that(1) show ?thesis by (auto simp: builder_inv_def r nth_append arg_ok_def less_Suc_eq)
  qed
  with ext show "keeps b b'" by (simp add: keeps_def)
  assume "small b'"
  then have "length (tb_commands b) < 2 ^ 16" by (simp add: small_def r)
  then show "arg_ok b' a" by (simp add: r arg_ok_def unat_of_nat)
qed

lemma collect_args_keeps:
  assumes "collect_args f xs b = (r, b')"
    and "\<And>x b r b'. f x b = (r, b') \<Longrightarrow> keeps b b' \<and> (\<forall>a. r = Inr a \<longrightarrow> small b' \<longrightarrow> arg_ok b' a)"
  shows "keeps b b'" and "r = Inr args \<Longrightarrow> small b' \<Longrightarrow> \<forall>a \<in> set args. arg_ok b' a"
proof -
  have "keeps b b' \<and> (\<forall>args. r = Inr args \<longrightarrow> small b' \<longrightarrow> (\<forall>a \<in> set args. arg_ok b' a))"
    using assms(1)
  proof (induction xs arbitrary: b r b')
    case (Cons x xs)
    obtain r1 b1 where x: "f x b = (r1, b1)" by fastforce
    note head = assms(2) [OF x]
    show ?case
    proof (cases r1)
      case (Inl e)
      with Cons.prems x head show ?thesis by auto
    next
      case (Inr a)
      obtain r2 b2 where xs: "collect_args f xs b1 = (r2, b2)" by fastforce
      note tail = Cons.IH [OF xs]
      from Cons.prems x Inr xs have b': "b' = b2" by (cases r2) auto
      have "arg_ok b' a" if "small b'"
        using head tail that Inr b' keeps_small arg_ok_keeps by blast
      with Cons.prems x Inr xs head tail b' keeps_trans show ?thesis by (cases r2) auto
    qed
  qed simp
  then show "keeps b b'" "r = Inr args \<Longrightarrow> small b' \<Longrightarrow> \<forall>a \<in> set args. arg_ok b' a" by blast+
qed

lemma transfer_args_keeps:
  assumes "small b \<Longrightarrow> \<forall>a \<in> set args. arg_ok b a"
  shows "keeps b (transfer_args bcs recipient args b)"
proof -
  obtain rec_arg b1 where p: "pure_bytes (bcs_address bcs recipient) False b = (rec_arg, b1)" by fastforce
  obtain a b2 where c: "builder_command (TransferObjects args rec_arg) b1 = (a, b2)" by fastforce
  note pure = pure_bytes_keeps [OF p]
  have "keeps b1 b2"
  proof (rule builder_command_keeps(1) [OF c])
    assume "small b1"
    then show "\<forall>x \<in> set (command_args (TransferObjects args rec_arg)). arg_ok b1 x"
      using pure(1,2) assms keeps_small arg_ok_keeps by auto
  qed
  with p c pure(1) keeps_trans show ?thesis by (auto simp: transfer_args_def)
qed

lemma collect_payments_keeps:
  assumes "collect_payments bcs i ps m args b = (m', args', b')"
  shows "keeps b b' \<and> tb_commands b' = tb_commands b \<and>
    (small b' \<longrightarrow> (\<forall>a \<in> set args. arg_ok b a) \<longrightarrow> (\<forall>a \<in> set args'. arg_ok b' a))"
  using assms
proof (induction bcs i ps m args b rule: collect_payments.induct)
  case (2 bcs i recipient amount rest m args b)
  obtain x b1 where p: "pure_bytes (bcs_u64 bcs amount) False b = (x, b1)" by fastforce
  note pure = pure_bytes_keeps [OF p]
  have rec: "collect_payments bcs (i + 1) rest (entry_push recipient i m) (args @ [x]) b1 = (m', args', b')"
    using 2(2) p by simp
  note rest = 2(1) [OF p [symmetric] refl rec]
  have "\<forall>a \<in> set (args @ [x]). arg_ok b1 a" if "small b1" "\<forall>a \<in> set args. arg_ok b a"
    using that pure(1,2) arg_ok_keeps by auto
  with rest have "\<forall>a \<in> set args'. arg_ok b' a" if "small b'" "\<forall>a \<in> set args. arg_ok b a"
    using that keeps_small by blast
  with rest keeps_trans [OF pure(1)] pure(3) show ?case by simp
qed simp

lemma transfer_all_keeps:
  assumes "small b \<Longrightarrow> unat split < length (tb_commands b)"
  shows "keeps b (transfer_all bcs split m b)"
  using assms
proof (induction bcs split m b rule: transfer_all.induct)
  case (2 bcs split recipient js rest b)
  let ?b = "transfer_args bcs recipient (map (\<lambda>j. ArgNestedResult split (of_nat j)) js) b"
  have k: "keeps b ?b" using 2(2) by (intro transfer_args_keeps) (auto simp: arg_ok_def)
  then have "unat split < length (tb_commands ?b)" if "small ?b"
    using 2(2) keeps_small [OF k that] extends_lengths(2) [of b ?b] by (auto simp: keeps_def)
  from 2(1) [OF this] k keeps_trans show ?case by auto
qed simp

lemma pay_impl_keeps:
  assumes "pay_impl bcs recipients amounts coin b = (r, b')" and "small b \<Longrightarrow> arg_ok b coin"
  shows "keeps b b'"
proof (cases "length recipients \<noteq> length amounts \<or> amounts = []")
  case False
  obtain m args b1 where c: "collect_payments bcs 0 (zip recipients amounts) [] [] b = (m, args, b1)"
    by (metis prod_cases3)
  obtain a b2 where s: "builder_command (SplitCoins coin args) b1 = (a, b2)" by fastforce
  note coll = collect_payments_keeps [OF c]
  have k1: "keeps b b1" using coll by simp
  have k2: "keeps b1 b2"
  proof (rule builder_command_keeps(1) [OF s])
    assume "small b1"
    then show "\<forall>x \<in> set (command_args (SplitCoins coin args)). arg_ok b1 x"
      using coll assms(2) keeps_small [OF k1] arg_ok_keeps [OF _ k1] by auto
  qed
  have "unat (of_nat (length (tb_commands b1)) :: u16) < length (tb_commands b2)" if "small b2"
    using that s by (auto simp: builder_command_def small_def unat_of_nat)
  from transfer_all_keeps [OF this] k1 k2 keeps_trans assms(1) c s False show ?thesis
    by (auto simp: pay_impl_def Let_def split: prod.splits)
qed (use assms(1) in \<open>auto simp: pay_impl_def split: if_splits\<close>)

subsection \<open>The composite operations\<close>

lemma collect_obj_keeps:
  assumes "collect_args builder_obj xs b = (r, b')"
  shows "keeps b b'" and "r = Inr args \<Longrightarrow> small b' \<Longrightarrow> \<forall>a \<in> set args. arg_ok b' a"
  by (rule collect_args_keeps [OF assms]; use builder_obj_keeps in blast)+

lemma collect_input_keeps:
  assumes "collect_args builder_input xs b = (r, b')"
  shows "keeps b b'" and "r = Inr args \<Longrightarrow> small b' \<Longrightarrow> \<forall>a \<in> set args. arg_ok b' a"
  by (rule collect_args_keeps [OF assms]; use builder_input_keeps in blast)+

lemma make_obj_vec_keeps:
  assumes "make_obj_vec objs b = (r, b')"
  shows "keeps b b'"
proof -
  obtain r1 b1 where c: "collect_args builder_obj objs b = (r1, b1)" by fastforce
  note coll = collect_obj_keeps [OF c]
  show ?thesis
  proof (cases r1)
    case (Inr args)
    obtain a b2 where s: "builder_command (MakeMoveVec None args) b1 = (a, b2)" by fastforce
    have "keeps b1 b2" by (rule builder_command_keeps(1) [OF s]) (use coll(2) [OF Inr] in simp)
    with assms c Inr s coll(1) keeps_trans show ?thesis by (auto simp: make_obj_vec_def)
  qed (use assms c coll(1) in \<open>auto simp: make_obj_vec_def\<close>)
qed

lemma builder_move_call_keeps:
  assumes "builder_move_call package md fn tys call_args b = (r, b')"
  shows "keeps b b'"
proof -
  obtain r1 b1 where c: "collect_args builder_input call_args b = (r1, b1)" by fastforce
  note coll = collect_input_keeps [OF c]
  show ?thesis
  proof (cases r1)
    case (Inr args)
    let ?c = "MoveCall \<lparr>pm_package = package, pm_module = md, pm_function = fn,
      pm_type_arguments = tys, pm_arguments = args\<rparr>"
    obtain a b2 where s: "builder_command ?c b1 = (a, b2)" by fastforce
    have "keeps b1 b2" by (rule builder_command_keeps(1) [OF s]) (use coll(2) [OF Inr] in simp)
    with assms c Inr s coll(1) keeps_trans show ?thesis by (auto simp: builder_move_call_def)
  qed (use assms c coll(1) in \<open>auto simp: builder_move_call_def\<close>)
qed

lemma publish_immutable_keeps: "keeps b (publish_immutable modules deps b)"
proof -
  obtain cap b1 where p: "builder_command (Publish modules deps) b = (cap, b1)" by fastforce
  let ?c = "MoveCall \<lparr>pm_package = SUI_FRAMEWORK_ADDRESS, pm_module = ''package'',
    pm_function = ''make_immutable'', pm_type_arguments = [], pm_arguments = [cap]\<rparr>"
  obtain a b2 where s: "builder_command ?c b1 = (a, b2)" by fastforce
  have k: "keeps b b1" by (rule builder_command_keeps(1) [OF p]) simp
  have "arg_ok b1 cap" if "small b1" by (rule builder_command_keeps(2) [OF p _ that]) simp
  then have "keeps b1 b2" by (intro builder_command_keeps(1) [OF s]) simp
  with k p s keeps_trans show ?thesis
    by (auto simp: publish_immutable_def publish_upgradeable_def builder_programmable_move_call_def)
qed

lemma transfer_object_keeps:
  assumes "transfer_object bcs recipient object_ref b = (r, b')"
  shows "keeps b b'"
proof -
  obtain rec_arg b1 where p: "pure_bytes (bcs_address bcs recipient) False b = (rec_arg, b1)" by fastforce
  obtain r1 b2 where o: "builder_obj (ImmOrOwnedObject object_ref) b1 = (r1, b2)" by fastforce
  note pure = pure_bytes_keeps [OF p] and obj = builder_obj_keeps [OF o]
  show ?thesis
  proof (cases r1)
    case (Inl e)
    with assms p o keeps_trans [OF pure(1) obj(1)] show ?thesis by (simp add: transfer_object_def)
  next
    case (Inr a)
    obtain a' b3 where s: "builder_command (TransferObjects [a] rec_arg) b2 = (a', b3)" by fastforce
    have "keeps b2 b3"
      by (rule builder_command_keeps(1) [OF s])
        (use pure(2) obj(2) [OF Inr] keeps_small [OF obj(1)] arg_ok_keeps [OF _ obj(1)] in simp)
    from keeps_trans [OF keeps_trans [OF pure(1) obj(1)] this] assms p o s Inr show ?thesis
      by (simp add: transfer_object_def)
  qed
qed

lemma transfer_sui_keeps: "keeps b (transfer_sui bcs recipient amount b)"
proof -
  obtain rec_arg b1 where p: "pure_bytes (bcs_address bcs recipient) False b = (rec_arg, b1)" by fastforce
  note pure = pure_bytes_keeps [OF p]
  obtain coin b2 where c: "(case amount of
      Some amount \<Rightarrow> (let (amt_arg, b) = pure_bytes (bcs_u64 bcs amount) False b1
         in builder_command (SplitCoins ArgGasCoin [amt_arg]) b)
    | None \<Rightarrow> (ArgGasCoin, b1)) = (coin, b2)" by fastforce
  have coin: "keeps b1 b2 \<and> (small b2 \<longrightarrow> arg_ok b2 coin)"
  proof (cases amount)
    case (Some n)
    obtain amt b3 where q: "pure_bytes (bcs_u64 bcs n) False b1 = (amt, b3)" by fastforce
    with c Some have s: "builder_command (SplitCoins ArgGasCoin [amt]) b3 = (coin, b2)" by simp
    have args: "\<forall>x \<in> set (command_args (SplitCoins ArgGasCoin [amt])). arg_ok b3 x" if "small b3"
      using pure_bytes_keeps(2) [OF q that] by (simp add: arg_ok_def)
    have "keeps b3 b2 \<and> (small b2 \<longrightarrow> arg_ok b2 coin)"
      using builder_command_keeps [OF s args] by blast
    with pure_bytes_keeps(1) [OF q] keeps_trans show ?thesis by blast
  qed (use c in \<open>simp add: arg_ok_def\<close>)
  obtain a b4 where s: "builder_command (TransferObjects [coin] rec_arg) b2 = (a, b4)" by fastforce
  have "keeps b2 b4"
    by (rule builder_command_keeps(1) [OF s])
      (use coin pure(2) keeps_small [of b1 b2] arg_ok_keeps [of b1 rec_arg b2] in simp)
  from keeps_trans [OF keeps_trans [OF pure(1)] this] p c s coin show ?thesis by (simp add: transfer_sui_def)
qed

lemma pay_keeps:
  assumes "pay bcs coins recipients amounts b = (r, b')"
  shows "keeps b b'"
proof (cases coins)
  case (Cons coin rest)
  obtain r1 b1 where o: "builder_obj (ImmOrOwnedObject coin) b = (r1, b1)" by fastforce
  note obj = builder_obj_keeps [OF o]
  show ?thesis
  proof (cases r1)
    case (Inr coin_arg)
    obtain r2 b2 where c: "collect_args (\<lambda>c. builder_obj (ImmOrOwnedObject c)) rest b1 = (r2, b2)" by fastforce
    have coll: "keeps b1 b2" "\<And>args. r2 = Inr args \<Longrightarrow> small b2 \<Longrightarrow> \<forall>a \<in> set args. arg_ok b2 a"
      by (rule collect_args_keeps [OF c]; use builder_obj_keeps in blast)+
    have coin_ok: "arg_ok b2 coin_arg" if "small b2"
      using that obj(2) [OF Inr] keeps_small [OF coll(1)] arg_ok_keeps [OF _ coll(1)] by blast
    show ?thesis
    proof (cases r2)
      case Inr2: (Inr args)
      define b3 where "b3 = (if args \<noteq> [] then snd (builder_command (MergeCoins coin_arg args) b2) else b2)"
      have k3: "keeps b2 b3"
      proof (cases "args = []")
        case False
        obtain a b4 where s: "builder_command (MergeCoins coin_arg args) b2 = (a, b4)" by fastforce
        have "keeps b2 b4" by (rule builder_command_keeps(1) [OF s]) (use coll(2) [OF Inr2] coin_ok in simp)
        with s False show ?thesis by (simp add: b3_def)
      qed (simp add: b3_def)
      have "pay_impl bcs recipients amounts coin_arg b3 = (r, b')"
        using assms Cons o Inr c Inr2 by (simp add: pay_def b3_def)
      then have "keeps b3 b'"
        by (rule pay_impl_keeps) (use coin_ok keeps_small [OF k3] arg_ok_keeps [OF _ k3] in blast)
      with obj(1) coll(1) k3 keeps_trans show ?thesis by blast
    qed (use assms Cons o Inr c obj(1) coll(1) keeps_trans in \<open>auto simp: pay_def\<close>)
  qed (use assms Cons o obj(1) in \<open>auto simp: pay_def\<close>)
qed (use assms in \<open>simp add: pay_def\<close>)

subsection \<open>Transactions built by a client\<close>

text \<open>
  The builders a client can reach: every public operation from every reachable builder, successful
  or not.  The arguments a client passes to a command come from earlier results and inputs.
\<close>

inductive built :: "bcs_env \<Rightarrow> pt_builder \<Rightarrow> bool" for bcs where
  built_new: "built bcs builder_new"
| built_pure: "built bcs b \<Longrightarrow> built bcs (snd (pure_bytes bytes force_separate b))"
| built_input: "built bcs b \<Longrightarrow> built bcs (snd (builder_input call_arg b))"
| built_obj_vec: "built bcs b \<Longrightarrow> built bcs (snd (make_obj_vec objs b))"
| built_command: "built bcs b \<Longrightarrow> \<forall>a \<in> set (command_args c). arg_ok b a \<Longrightarrow> built bcs (snd (builder_command c b))"
| built_move_call: "built bcs b \<Longrightarrow> built bcs (snd (builder_move_call package md fn tys call_args b))"
| built_programmable_move_call: "built bcs b \<Longrightarrow> \<forall>a \<in> set args. arg_ok b a \<Longrightarrow>
    built bcs (snd (builder_programmable_move_call package md fn tys args b))"
| built_publish_upgradeable: "built bcs b \<Longrightarrow> built bcs (snd (publish_upgradeable modules deps b))"
| built_publish_immutable: "built bcs b \<Longrightarrow> built bcs (publish_immutable modules deps b)"
| built_upgrade: "built bcs b \<Longrightarrow> arg_ok b ticket \<Longrightarrow> built bcs (snd (builder_upgrade package ticket deps modules b))"
| built_transfer_args: "built bcs b \<Longrightarrow> \<forall>a \<in> set args. arg_ok b a \<Longrightarrow> built bcs (transfer_args bcs recipient args b)"
| built_transfer_object: "built bcs b \<Longrightarrow> built bcs (snd (transfer_object bcs recipient object_ref b))"
| built_transfer_sui: "built bcs b \<Longrightarrow> built bcs (transfer_sui bcs recipient amount b)"
| built_pay_all_sui: "built bcs b \<Longrightarrow> built bcs (pay_all_sui bcs recipient b)"
| built_pay_sui: "built bcs b \<Longrightarrow> built bcs (snd (pay_sui bcs recipients amounts b))"
| built_pay: "built bcs b \<Longrightarrow> built bcs (snd (pay bcs coins recipients amounts b))"

lemma keeps_inv: "keeps b b' \<Longrightarrow> (small b \<Longrightarrow> builder_inv b) \<Longrightarrow> small b' \<Longrightarrow> builder_inv b'"
  using keeps_small by (auto simp: keeps_def)

lemma command_step_keeps: "\<forall>a \<in> set (command_args c). arg_ok b a \<Longrightarrow> keeps b (snd (builder_command c b))"
  using builder_command_keeps(1) [of c b "fst (builder_command c b)" "snd (builder_command c b)"] by simp

lemmas step_keeps =
  pure_bytes_keeps(1) [OF surjective_pairing] builder_input_keeps(1) [OF surjective_pairing]
  make_obj_vec_keeps [OF surjective_pairing] builder_move_call_keeps [OF surjective_pairing]
  publish_immutable_keeps transfer_object_keeps [OF surjective_pairing] transfer_sui_keeps
  pay_keeps [OF surjective_pairing] command_step_keeps

lemma built_builder_inv: "built bcs b \<Longrightarrow> small b \<Longrightarrow> builder_inv b"
proof (induction rule: built.induct)
  case built_new
  show ?case by (simp add: builder_inv_def builder_new_def)
next
  case (built_programmable_move_call b args package md fn tys)
  then have "keeps b (snd (builder_programmable_move_call package md fn tys args b))"
    unfolding builder_programmable_move_call_def by (intro step_keeps) simp
  from keeps_inv [OF this built_programmable_move_call.IH built_programmable_move_call.prems] show ?case .
next
  case (built_publish_upgradeable b modules deps)
  have "keeps b (snd (publish_upgradeable modules deps b))"
    unfolding publish_upgradeable_def by (intro step_keeps) simp
  from keeps_inv [OF this built_publish_upgradeable.IH built_publish_upgradeable.prems] show ?case .
next
  case (built_upgrade b ticket package deps modules)
  then have "keeps b (snd (builder_upgrade package ticket deps modules b))"
    unfolding builder_upgrade_def by (intro step_keeps) simp
  from keeps_inv [OF this built_upgrade.IH built_upgrade.prems] show ?case .
next
  case (built_transfer_args b args recipient)
  then have "keeps b (transfer_args bcs recipient args b)" by (intro transfer_args_keeps)
  from keeps_inv [OF this built_transfer_args.IH built_transfer_args.prems] show ?case .
next
  case (built_pay_all_sui b recipient)
  have "keeps b (pay_all_sui bcs recipient b)"
    unfolding pay_all_sui_def by (rule transfer_args_keeps) (simp add: arg_ok_def)
  from keeps_inv [OF this built_pay_all_sui.IH built_pay_all_sui.prems] show ?case .
next
  case (built_pay_sui b recipients amounts)
  have "keeps b (snd (pay_sui bcs recipients amounts b))"
    unfolding pay_sui_def by (rule pay_impl_keeps [OF surjective_pairing]) (simp add: arg_ok_def)
  from keeps_inv [OF this built_pay_sui.IH built_pay_sui.prems] show ?case .
qed (erule keeps_inv [OF step_keeps(1)] keeps_inv [OF step_keeps(2)] keeps_inv [OF step_keeps(3)]
       keeps_inv [OF step_keeps(4)] keeps_inv [OF step_keeps(5)] keeps_inv [OF step_keeps(6)]
       keeps_inv [OF step_keeps(7)] keeps_inv [OF step_keeps(8)] keeps_inv [OF step_keeps(9)]; assumption)+

lemma input_object_keys:
  assumes "key_matches k a"
  shows "map (BaObject \<circ> kind_object_id) (call_arg_input_objects a) = [] \<or>
    map (BaObject \<circ> kind_object_id) (call_arg_input_objects a) = [k]"
  using assms by (cases "(k, a)" rule: key_matches.cases; cases a rule: call_arg_input_objects.cases) auto

lemma distinct_input_objects:
  assumes "distinct (map fst m)" and "\<forall>(k, a) \<in> set m. key_matches k a"
  shows "distinct (map (BaObject \<circ> kind_object_id) (concat (map (call_arg_input_objects \<circ> snd) m))) \<and>
    set (map (BaObject \<circ> kind_object_id) (concat (map (call_arg_input_objects \<circ> snd) m))) \<subseteq> fst ` set m"
  using assms
proof (induction m)
  case (Cons p m)
  obtain k a where p: "p = (k, a)" by fastforce
  with Cons.prems have "key_matches k a" by simp
  note key = input_object_keys [OF this]
  define ks where "ks = map (BaObject \<circ> kind_object_id) (concat (map (call_arg_input_objects \<circ> snd) m))"
  have "distinct ks \<and> set ks \<subseteq> fst ` set m" unfolding ks_def by (rule Cons.IH) (use Cons.prems in auto)
  moreover have "k \<notin> fst ` set m" using Cons.prems(1) p by simp
  moreover obtain xs where xs: "xs = map (BaObject \<circ> kind_object_id) (call_arg_input_objects a)" by simp
  moreover have "xs = [] \<or> xs = [k]" using key xs by simp
  ultimately have "distinct (xs @ ks) \<and> set (xs @ ks) \<subseteq> fst ` set (p # m)" unfolding p by auto
  moreover have "map (BaObject \<circ> kind_object_id) (concat (map (call_arg_input_objects \<circ> snd) (p # m))) = xs @ ks"
    by (simp add: p ks_def xs)
  ultimately show ?case by (simp only:)
qed simp

text \<open>
  C10. A transaction built with the builder is well scoped: unless more than 65536 inputs or commands
  were added (positions are cast to 16 bits), every argument of every command refers to an input of
  the transaction or to the result of an earlier command, and no object occurs twice among the inputs,
  so that computing the input objects never fails with \<open>DuplicateObjectRefInput\<close>.
\<close>

theorem built_transactions_are_well_scoped:
  assumes "built bcs b" and "small b"
  shows "(\<forall>n < length (pt_commands (builder_finish b)). \<forall>a \<in> set (command_args (pt_commands (builder_finish b) ! n)).
      arg_in_scope (length (pt_inputs (builder_finish b))) n a) \<and>
    (\<exists>objects. pt_input_objects (builder_finish b) = Inr objects)"
proof -
  have inv: "builder_inv b" by (rule built_builder_inv [OF assms])
  then have "\<forall>n < length (pt_commands (builder_finish b)). \<forall>a \<in> set (command_args (pt_commands (builder_finish b) ! n)).
      arg_in_scope (length (pt_inputs (builder_finish b))) n a"
    by (simp add: builder_inv_def builder_finish_def)
  moreover
  have "distinct (map BaObject (map kind_object_id (concat (map call_arg_input_objects (pt_inputs (builder_finish b))))))"
    using inv distinct_input_objects [of "tb_inputs b"] by (simp add: builder_inv_def builder_finish_def)
  then have "distinct (map kind_object_id (concat (map call_arg_input_objects (pt_inputs (builder_finish b)))))"
    by (rule distinct_map [THEN iffD1, THEN conjunct1])
  then have "\<exists>objects. pt_input_objects (builder_finish b) = Inr objects"
    by (simp add: pt_input_objects_def all_new_iff)
  ultimately show ?thesis ..
qed

subsection \<open>What a payment pays\<close>

text \<open>
  The bytes of a pure input, and everything a command transfers: for each transferred argument the
  bytes of the recipient and, if the argument is one of several results of a command, the positions
  of that command and of the result; \<^const>\<open>None\<close> stands for any other argument.
\<close>

fun input_bytes :: "programmable_transaction \<Rightarrow> argument \<Rightarrow> u8 list option" where
  "input_bytes pt (ArgInput i) =
     (if unat i < length (pt_inputs pt)
      then case pt_inputs pt ! unat i of PureArg p \<Rightarrow> Some p | ObjectCallArg _ \<Rightarrow> None
      else None)"
| "input_bytes pt _ = None"

fun nested_result :: "argument \<Rightarrow> (nat \<times> nat) option" where
  "nested_result (ArgNestedResult i j) = Some (unat i, unat j)"
| "nested_result _ = None"

fun transferred :: "programmable_transaction \<Rightarrow> command \<Rightarrow> (u8 list option \<times> (nat \<times> nat) option) list" where
  "transferred pt (TransferObjects args recipient) = map (\<lambda>a. (input_bytes pt recipient, nested_result a)) args"
| "transferred pt _ = []"

fun is_transfer_objects :: "command \<Rightarrow> bool" where
  "is_transfer_objects (TransferObjects args recipient) = True"
| "is_transfer_objects _ = False"

fun arg_key :: "pt_builder \<Rightarrow> argument \<Rightarrow> builder_arg option" where
  "arg_key b (ArgInput i) = (if unat i < length (tb_inputs b) then Some (fst (tb_inputs b ! unat i)) else None)"
| "arg_key b _ = None"

lemma arg_key_cong: "tb_inputs b = tb_inputs b' \<Longrightarrow> arg_key b a = arg_key b' a"
  by (cases a) simp_all

lemma arg_key_keeps:
  assumes "arg_key b a = Some k" and "keeps b b'"
  shows "arg_key b' a = Some k"
proof -
  from assms(2) obtain ks where ks: "map fst (tb_inputs b') = map fst (tb_inputs b) @ ks"
    by (auto simp: keeps_def extends_def)
  from assms(1) obtain i where i: "a = ArgInput i" "unat i < length (tb_inputs b)" "k = fst (tb_inputs b ! unat i)"
    by (cases a) (auto split: if_splits)
  have len: "unat i < length (tb_inputs b')"
    using i(2) assms(2) extends_lengths(1) [of b b'] by (simp add: keeps_def)
  have "map fst (tb_inputs b') ! unat i = map fst (tb_inputs b) ! unat i" unfolding ks using i(2) by (simp add: nth_append)
  with i len show ?thesis by simp
qed

lemma pure_bytes_key:
  "pure_bytes p False b = (a, b') \<Longrightarrow> small b' \<Longrightarrow> arg_key b' a = Some (BaPure p)"
  using pure_bytes_keeps(4) [of p False b a b'] by auto

lemma arg_key_input_bytes:
  assumes "builder_inv b" and "arg_key b a = Some (BaPure p)"
  shows "input_bytes (builder_finish b) a = Some p"
proof -
  from assms(2) obtain i where i: "a = ArgInput i" "unat i < length (tb_inputs b)" "fst (tb_inputs b ! unat i) = BaPure p"
    by (cases a) (auto split: if_splits)
  obtain v where v: "tb_inputs b ! unat i = (BaPure p, v)" using i(3) by (metis prod.collapse)
  with i(2) assms(1) have "key_matches (BaPure p) v" by (force simp: builder_inv_def dest: nth_mem)
  then have "v = PureArg p" by (cases v) auto
  with i v show ?thesis by (simp add: builder_finish_def)
qed

text \<open>The pairs of a recipient and a position recorded in the map of recipients.\<close>

definition recorded :: "('k, 'a list) index_map \<Rightarrow> ('k \<times> 'a) list" where
  "recorded m = concat (map (\<lambda>(k, xs). map (Pair k) xs) m)"

lemma recorded_entry_push: "mset (recorded (entry_push k x m)) = add_mset (k, x) (mset (recorded m))"
  by (induction k x m rule: entry_push.induct) (auto simp: recorded_def)

lemma collect_payments_records:
  assumes "collect_payments bcs i ps m args b = (m', args', b')" and "small b'"
  shows "mset (recorded m') = mset (recorded m) + mset (zip (map fst ps) [i..<i + length ps]) \<and>
    (\<exists>new. args' = args @ new \<and> map (arg_key b') new = map (\<lambda>(r, a). Some (BaPure (bcs_u64 bcs a))) ps)"
  using assms
proof (induction bcs i ps m args b rule: collect_payments.induct)
  case (2 bcs i recipient amount rest m args b)
  obtain x b1 where p: "pure_bytes (bcs_u64 bcs amount) False b = (x, b1)" by fastforce
  have rec: "collect_payments bcs (i + 1) rest (entry_push recipient i m) (args @ [x]) b1 = (m', args', b')"
    using 2(2) p by simp
  have k: "keeps b1 b'"
    using collect_payments_keeps [OF rec] by simp
  have "arg_key b' x = Some (BaPure (bcs_u64 bcs amount))"
    using pure_bytes_key [OF p keeps_small [OF k 2(3)]] k by (rule arg_key_keeps)
  moreover have "[i..<i + Suc (length rest)] = i # [i + 1..<i + 1 + length rest]"
    by (simp add: upt_rec)
  ultimately show ?case using 2(1) [OF p [symmetric] refl rec 2(3)] by (auto simp: recorded_entry_push)
qed simp

definition is_transfer :: "bcs_env \<Rightarrow> pt_builder \<Rightarrow> u16 \<Rightarrow> sui_address \<times> nat list \<Rightarrow> command \<Rightarrow> bool" where
  "is_transfer bcs b split p c \<longleftrightarrow> (\<exists>a. c = TransferObjects (map (\<lambda>j. ArgNestedResult split (of_nat j)) (snd p)) a \<and>
     arg_key b a = Some (BaPure (bcs_address bcs (fst p))))"

lemma transfer_all_transfers:
  assumes "small (transfer_all bcs split m b)" and "small b \<Longrightarrow> unat split < length (tb_commands b)"
  shows "\<exists>cs. tb_commands (transfer_all bcs split m b) = tb_commands b @ cs \<and>
    list_all2 (is_transfer bcs (transfer_all bcs split m b) split) m cs"
  using assms
proof (induction bcs split m b rule: transfer_all.induct)
  case (2 bcs split recipient js rest b)
  let ?args = "map (\<lambda>j. ArgNestedResult split (of_nat j)) js"
  let ?b1 = "transfer_args bcs recipient ?args b"
  let ?b2 = "transfer_all bcs split rest ?b1"
  have k1: "keeps b ?b1" using 2(3) by (intro transfer_args_keeps) (auto simp: arg_ok_def)
  have ok: "unat split < length (tb_commands ?b1)" if "small ?b1"
    using 2(3) keeps_small [OF k1 that] extends_lengths(2) [of b ?b1] k1 by (auto simp: keeps_def)
  have k2: "keeps ?b1 ?b2" by (rule transfer_all_keeps) (rule ok)
  have small2: "small ?b2" using 2(2) by simp
  obtain a bp where p: "pure_bytes (bcs_address bcs recipient) False b = (a, bp)" by fastforce
  then have b1: "?b1 = bp\<lparr>tb_commands := tb_commands b @ [TransferObjects ?args a]\<rparr>"
    by (simp add: transfer_args_def builder_command_def pure_bytes_keeps(3) [OF p])
  have "arg_key bp a = Some (BaPure (bcs_address bcs recipient))"
    by (rule pure_bytes_key [OF p])
      (use keeps_small [OF k2 small2] in \<open>simp add: b1 small_def pure_bytes_keeps(3) [OF p]\<close>)
  then have "arg_key ?b1 a = Some (BaPure (bcs_address bcs recipient))" using arg_key_cong [of ?b1 bp a] by (simp add: b1)
  then have "is_transfer bcs ?b2 split (recipient, js) (TransferObjects ?args a)"
    using arg_key_keeps [OF _ k2] by (simp add: is_transfer_def)
  moreover obtain cs where "tb_commands ?b2 = tb_commands ?b1 @ cs" "list_all2 (is_transfer bcs ?b2 split) rest cs"
    using 2(1) [OF small2 ok] by blast
  moreover have "tb_commands ?b1 = tb_commands b @ [TransferObjects ?args a]" by (simp add: b1)
  ultimately show ?case by (intro exI [of _ "TransferObjects ?args a # cs"]) simp
qed simp

lemma transferred_recorded:
  assumes "list_all2 (is_transfer bcs b split) m cs" and "builder_inv b"
    and "\<forall>(r, j) \<in> set (recorded m). j < 2 ^ 16"
  shows "list_all is_transfer_objects cs \<and> concat (map (transferred (builder_finish b)) cs) =
    map (\<lambda>(r, j). (Some (bcs_address bcs r), Some (unat split, j))) (recorded m)"
  using assms(1,3)
proof (induction rule: list_all2_induct)
  case (Cons p m c cs)
  obtain r js where p: "p = (r, js)" by fastforce
  with Cons.hyps(1) obtain a where c: "c = TransferObjects (map (\<lambda>j. ArgNestedResult split (of_nat j)) js) a"
    "arg_key b a = Some (BaPure (bcs_address bcs r))" by (auto simp: is_transfer_def)
  have rec: "recorded (p # m) = map (Pair r) js @ recorded m" by (simp add: recorded_def p)
  have js: "\<forall>j \<in> set js. j < 2 ^ 16" and rest: "\<forall>(r, j) \<in> set (recorded m). j < 2 ^ 16"
    using Cons.prems unfolding rec by auto
  have "transferred (builder_finish b) c = map (\<lambda>j. (Some (bcs_address bcs r), Some (unat split, j))) js"
    using arg_key_input_bytes [OF assms(2) c(2)] js by (simp add: c(1) unat_of_nat)
  with Cons.IH [OF rest] c(1) show ?case unfolding rec by simp
qed (simp add: recorded_def)

lemma collected_amount_bytes:
  assumes "map (arg_key b) args = map (\<lambda>(r, a). Some (BaPure (bcs_u64 bcs a))) (zip recipients amounts)"
    and "length recipients = length amounts" and "keeps b b'" and "builder_inv b'" and "j < length amounts"
  shows "input_bytes (builder_finish b') (args ! j) = Some (bcs_u64 bcs (amounts ! j))"
proof (rule arg_key_input_bytes [OF assms(4)], rule arg_key_keeps [OF _ assms(3)])
  have "map (arg_key b) args ! j = Some (BaPure (bcs_u64 bcs (amounts ! j)))" unfolding assms(1) using assms(2,5) by simp
  moreover have "j < length args" using arg_cong [OF assms(1), of length] assms(2,5) by simp
  ultimately show "arg_key b (args ! j) = Some (BaPure (bcs_u64 bcs (amounts ! j)))" by simp
qed

text \<open>
  C9.  Paying from a coin pays exactly what was asked.  The builder keeps the commands it had, appends
  one \<open>SplitCoins\<close> of that coin whose amounts are those of the request in order, and then only
  \<open>TransferObjects\<close> commands.  All that these transfer, taken together, is every coin of the split,
  once, each to the recipient at its position in the request: no other object is transferred.
\<close>

theorem pay_impl_pays_the_request:
  assumes "built bcs b" and "pay_impl bcs recipients amounts coin b = (r, b')" and "arg_ok b coin"
    and "small b'" and "length recipients = length amounts" and "amounts \<noteq> []" and "length amounts \<le> 2 ^ 16"
  shows "r = Inr () \<and> (\<exists>amt_args cs.
    pt_commands (builder_finish b') = tb_commands b @ SplitCoins coin amt_args # cs \<and>
    map (input_bytes (builder_finish b')) amt_args = map (\<lambda>a. Some (bcs_u64 bcs a)) amounts \<and>
    list_all is_transfer_objects cs \<and>
    mset (concat (map (transferred (builder_finish b')) cs)) =
      mset (map (\<lambda>(r, j). (Some (bcs_address bcs r), Some (length (tb_commands b), j)))
        (zip recipients [0..<length amounts])))"
proof -
  let ?ps = "zip recipients amounts"
  obtain m args b1 where c: "collect_payments bcs 0 ?ps [] [] b = (m, args, b1)" by (metis prod_cases3)
  define split where "split = (of_nat (length (tb_commands b)) :: u16)"
  define b2 where "b2 = snd (builder_command (SplitCoins coin args) b1)"
  note coll = collect_payments_keeps [OF c]
  have res: "r = Inr ()" "b' = transfer_all bcs split m b2"
    using assms(2,5,6) c coll by (simp_all add: pay_impl_def Let_def split_def b2_def)
  have cmds2: "tb_commands b2 = tb_commands b @ [SplitCoins coin args]" "tb_inputs b2 = tb_inputs b1"
    using coll by (simp_all add: b2_def builder_command_def)
  have ok: "unat split < length (tb_commands b2)" if "small b2"
    using that cmds2(1) by (simp add: small_def split_def unat_of_nat)
  have k: "keeps b2 b'" unfolding res(2) by (rule transfer_all_keeps) (rule ok)
  have small2: "small b2" by (rule keeps_small [OF k assms(4)])
  have n: "unat split = length (tb_commands b)" using small2 cmds2(1) by (simp add: small_def split_def unat_of_nat)
  have "keeps b b'" by (rule pay_impl_keeps [OF assms(2)]) (rule assms(3))
  then have inv: "builder_inv b'"
    using built_builder_inv [OF assms(1)] keeps_inv assms(4) by blast
  obtain cs where cs: "tb_commands b' = tb_commands b2 @ cs" "list_all2 (is_transfer bcs b' split) m cs"
    using transfer_all_transfers [OF _ ok, of bcs m] assms(4) unfolding res(2) by blast
  have "small b1" using small2 cmds2 coll by (simp add: small_def)
  note rec = collect_payments_records [OF c this]
  have "arg_key b1 = arg_key b2" using cmds2(2) by (intro ext arg_key_cong) simp
  then have keys: "map (arg_key b2) args = map (\<lambda>(r, a). Some (BaPure (bcs_u64 bcs a))) ?ps" using rec by auto
  have "length args = length amounts" using arg_cong [OF keys, of length] assms(5) by simp
  then have amt: "map (input_bytes (builder_finish b')) args = map (\<lambda>a. Some (bcs_u64 bcs a)) amounts"
    using collected_amount_bytes [OF keys assms(5) k inv] by (intro nth_equalityI) auto
  have m: "mset (recorded m) = mset (zip recipients [0..<length amounts])"
    using rec assms(5) by (simp add: recorded_def)
  have "\<forall>(r, j) \<in> set (recorded m). j < 2 ^ 16"
    using mset_eq_setD [OF m] assms(7) by (auto dest: set_zip_rightD)
  note paid = transferred_recorded [OF cs(2) inv this, unfolded n]
  have "mset (concat (map (transferred (builder_finish b')) cs)) =
      mset (map (\<lambda>(r, j). (Some (bcs_address bcs r), Some (length (tb_commands b), j))) (zip recipients [0..<length amounts]))"
    using paid m by simp
  with amt paid res(1) cs(1) cmds2(1) show ?thesis by (simp add: builder_finish_def)
qed

subsection \<open>A concrete payment\<close>

definition sample_bcs :: bcs_env where
  "sample_bcs = \<lparr>bcs_address = (\<lambda>a. [0, ucast a]), bcs_u64 = (\<lambda>n. [1, ucast n])\<rparr>"

definition sample_shared :: call_arg where
  "sample_shared = ObjectCallArg (SharedObject 7 3 False)"

definition sample_called :: pt_builder where
  "sample_called = snd (builder_move_call 2 ''coin'' ''update'' [] [sample_shared, PureArg [1, 5]] builder_new)"

definition sample_paid :: "(builder_error + unit) \<times> pt_builder" where
  "sample_paid = pay_impl sample_bcs [10, 11, 10] [5, 6, 5] ArgGasCoin sample_called"

lemma sample_called_built: "built sample_bcs sample_called"
  unfolding sample_called_def by (intro built_move_call built_new)

lemma sample_paid_lengths:
  "length (tb_inputs (snd sample_paid)) = 5 \<and> length (tb_commands (snd sample_paid)) = 4"
  by code_simp

lemma sample_paid_small: "small (snd sample_paid)"
  by (simp add: small_def sample_paid_lengths)

theorem built_transactions_are_well_scoped_witness:
  "\<exists>objects. pt_input_objects (builder_finish (snd sample_paid)) = Inr objects"
proof -
  have "built sample_bcs (snd sample_paid)"
    using built_pay_sui [OF sample_called_built, of "[10, 11, 10]" "[5, 6, 5]"]
    by (simp add: sample_paid_def pay_sui_def)
  moreover note sample_paid_small
  ultimately show ?thesis using built_transactions_are_well_scoped by blast
qed

theorem pay_impl_pays_the_request_witness:
  "\<exists>amt_args cs. pt_commands (builder_finish (snd sample_paid)) =
      tb_commands sample_called @ SplitCoins ArgGasCoin amt_args # cs \<and>
    map (input_bytes (builder_finish (snd sample_paid))) amt_args = [Some [1, 5], Some [1, 6], Some [1, 5]] \<and>
    mset (concat (map (transferred (builder_finish (snd sample_paid))) cs)) =
      {#(Some [0, 10], Some (1, 0)), (Some [0, 11], Some (1, 1)), (Some [0, 10], Some (1, 2))#}"
proof -
  have "arg_ok sample_called ArgGasCoin" by (simp add: arg_ok_def)
  moreover note sample_paid_small
  moreover have "length (tb_commands sample_called) = 1" by code_simp
  ultimately show ?thesis
    using pay_impl_pays_the_request [OF sample_called_built, of "[10, 11, 10]" "[5, 6, 5]" ArgGasCoin
        "fst sample_paid" "snd sample_paid"]
    by (auto simp: sample_paid_def sample_bcs_def upt_rec)
qed

end
