(* ===== verification/Spec2Isabelle.thy ===== *)
theory Spec2Isabelle
  imports Stake_Aggregator Failed_Transactions Transaction_Effects Object_Ownership Transaction_Checks
    Transaction_Builder
begin

text \<open>
  A verification library for the trusted core of Sui: how validators agree on a certificate, how a
  transaction is built, checked and admitted, and how its gas is metered and charged so that no SUI
  is created or lost.

  \<^bold>\<open>The program and its parts.\<close>  A client assembles a programmable transaction with the
  transaction builder and signs its data.  A validator verifies the signatures, checks the
  transaction against its configuration and its object store and, when it admits it, votes by
  signing.  Votes of validators with more than two thirds of the stake make a certificate.  A
  certified transaction is executed on a temporary store: the gas coins are merged into one, the
  Move VM runs with a gas meter, the gas charger settles computation and storage costs, the store is
  checked for conservation of SUI and for ownership, and the changes are reported as effects.

  \<^bold>\<open>Conventions.\<close>  Machine integers are words of their width and wrap; in modules under the
  macro \<open>with_checked_arithmetic\<close> the operators are the checked ones of \<open>Sui_Prelude\<close>, where
  overflow is \<^const>\<open>None\<close>, as is every other panic.  \<open>Result\<close> is a sum with \<^const>\<open>Inl\<close> for the error.
  A method that takes \<open>&mut self\<close> returns the new state.  Definitions keep the names of the
  sources, with a prefix where a name occurs in several types.

  \<^bold>\<open>Theories and the code they model\<close> (paths under \<open>src/\<close>).

  \<^item> \<open>Sui_Prelude\<close>: words, checked arithmetic, results, panics.  \<open>Rust_Collections\<close>: ordered and hash
    maps, sets, binary search; the locale \<open>keyed_store\<close> is their interface, interpreted on both maps.
  \<^item> \<open>Quorum_System\<close>: the locale \<open>stake_system\<close>, the arithmetic of quorums.  \<open>Sui_Committee\<close>:
    \<open>crates/sui-types/src/committee.rs\<close>, with the interpretation of that locale.
    \<open>Authority_Signatures\<close>: signatures of authorities and quorum certificates of \<open>crypto.rs\<close>.
    \<open>Stake_Aggregator\<close>: \<open>crates/sui-core/src/stake_aggregator.rs\<close>.  Shown: two certificates share an
    honest signer, a verified certificate has a quorum of distinct members, the aggregated stake is
    that of the recorded voters in every reachable state, a reported quorum is a valid certificate,
    and what refused, repeated and bad votes do.
  \<^item> \<open>Move_Gas_Algebra\<close>, \<open>Move_Values\<close>, \<open>Gas_Units\<close>, \<open>Gas_Tables\<close>: the gas quantities and value sizes of
    the Move VM and the meter of \<open>crates/sui-types/src/gas_model\<close>.  Shown: no run of
    meter operations uses more than the budget, a charge takes the exact tiered cost, the
    multipliers follow the tiers.
  \<^item> \<open>Sui_Object\<close>, \<open>Coin_Balances\<close>, \<open>Sui_Gas\<close>: objects and coins (\<open>object.rs\<close>, \<open>move_package.rs\<close>,
    \<open>base_types.rs\<close>), the search for balances inside Move values, and the gas status of a
    transaction (\<open>gas.rs\<close>, \<open>gas_v2.rs\<close>).  Shown: the traversal adds up the SUI a plain listing finds,
    bucketing charges the rounded gas or the whole budget, the rebate is split exactly.
  \<^item> \<open>Temporary_Store\<close>, \<open>Gas_Charger\<close>, \<open>Failed_Transactions\<close>, \<open>Object_Ownership\<close>: \<open>temporary_store.rs\<close> and
    \<open>gas_charger.rs\<close> of \<open>sui-execution/latest/sui-adapter/src\<close>.  Shown: written versions exceed all
    input versions; whatever execution did, charging conserves SUI and stays within the
    budget; a failed transaction changes nothing but its gas coins and passes the expensive
    conservation check; the ownership check ends and accepts exactly the traceable modifications.
  \<^item> \<open>Transaction_Effects\<close>: \<open>crates/sui-types/src/effects\<close> and \<open>into_effects\<close>.  Shown: the lists of the
    effects V1 refine the accessors of V2, the effects report the written and removed objects, and
    \<open>into_effects\<close> returns on consistent results that satisfy \<open>effects_ready\<close>.
  \<^item> \<open>Transaction_Data\<close>: \<open>crates/sui-types/src/transaction.rs\<close> and the intents of
    \<open>crates/shared-crypto/src/intent.rs\<close>.  Shown: the validity check accepts
    exactly the well-formed transactions, the input objects are complete, verified transactions are
    signed by exactly their signers, supported versions do not panic.
  \<^item> \<open>Transaction_Builder\<close>: \<open>programmable_transaction_builder.rs\<close>.  Shown: every transaction reachable
    through the builder is well scoped and names no object twice, and a payment pays exactly what
    was requested.
  \<^item> \<open>Transaction_Checks\<close>: \<open>crates/sui-transaction-checks/src\<close>.  It composes the transaction data, the gas
    status, the temporary store and the gas charger: an admitted transaction can start, in a
    state from which the theorems on charging and failure apply, and the ownership
    check accepts its inputs.

  \<^bold>\<open>Parameters.\<close>  Cryptography, hashing, BCS encoding, layouts of Move types, the backing
  store and the bytecode verifier are arguments of the definitions.  What is assumed of the store
  (\<open>store_answers\<close>: objects are filed under their identifiers and an owned input is current) is a
  hypothesis of the two theorems on admission, with an instance in their witnesses.

  \<^bold>\<open>Bounds.\<close>  Every loop is structural or has a termination measure; only the printing of 16-bit
  and 64-bit numbers is bounded, by their five and twenty digits.
  The builder casts positions to 16 bits, so its theorems are about transactions with at
  most 65536 inputs and commands; the protocol allows 1024 commands.  The committee
  theorems need stakes whose sum does not wrap, and a theorem shows which sums that wrap are accepted.

  \<^bold>\<open>Not modelled.\<close>  The Move compiler, prover, verifier and the interpreter and loader of the
  VM: they are programs of their own, and the gas and store code sees them only through the
  operations of the meter and the results written to the store.  The commands of a programmable
  transaction (\<open>programmable_transactions\<close>) and the driver \<open>execution_engine.rs\<close> run inside
  that VM.  Consensus (\<open>narwhal\<close>): its order of certificates is an input of execution.  The authority
  state, storage, checkpoints, networking, RPC, indexers, tools and the Move sources of the framework:
  input and output, asynchronous services or another language.  Serialisation, display of
  most types, metrics, test helpers and the older execution versions are left out too.
\<close>

end
